(* ===== verification/Prelude.thy ===== *)
theory Prelude
  imports Main "HOL-Library.Word"
begin

text \<open>
  What every component shares: the C integer types of \<^verbatim>\<open>include/types.h\<close> as words, 32-bit
  signed arithmetic on \<open>int\<close>, the byte memory with its multi-byte stores, and the lemma
  collections the component proofs use.
\<close>

unbundle bit_operations_syntax

subsection \<open>The integer types of include/types.h\<close>

type_synonym u8 = "8 word"
type_synonym u16 = "16 word"
type_synonym u32 = "32 word"
type_synonym u64 = "64 word"

text \<open>Values of type \<^verbatim>\<open>int\<close> are HOL integers; every operation that can leave the 32-bit range goes
  through \<open>i32\<close>, which wraps as the compiled code does.\<close>

definition i32 :: "int \<Rightarrow> int" where
  "i32 x = signed_take_bit 31 x"

text \<open>A variadic 64-bit slot read as \<^verbatim>\<open>int\<close>, and as \<^verbatim>\<open>unsigned int\<close> widened to 64 bits.\<close>

definition slot_int :: "u64 \<Rightarrow> int" where
  "slot_int a = sint (ucast a :: u32)"

definition slot_uint :: "u64 \<Rightarrow> u64" where
  "slot_uint a = ucast (ucast a :: u32)"

lemma i32_id: "- 2147483648 \<le> x \<Longrightarrow> x < 2147483648 \<Longrightarrow> i32 x = x"
  by (simp add: i32_def signed_take_bit_int_eq_self)

lemma unat_of_nat_u64: "n < 2 ^ 64 \<Longrightarrow> unat (of_nat n :: u64) = n"
  by (simp add: unat_of_nat)

lemma unat_ucast_u32_u64 [simp]: "unat (ucast (w :: u32) :: u64) = unat w"
  using unsigned_less [of w, where ?'a = nat]
  by (simp add: unsigned_ucast_eq take_bit_nat_eq_self)

lemma unat_add_nat_u64:
  assumes "unat (a :: u64) + n < 2 ^ 64"
  shows "unat (a + of_nat n) = unat a + n"
proof -
  have "unat (of_nat n :: u64) = n" using assms by (intro unat_of_nat_u64) simp
  then show ?thesis using assms unat_add_lem [of a "of_nat n"] by simp
qed

lemma ucast_of_nat_u32:
  assumes "n < 2 ^ 32"
  shows "(ucast (of_nat n :: u32) :: u64) = of_nat n"
proof -
  have "unat (of_nat n :: u32) = n" using assms by (simp add: unat_of_nat)
  moreover have "unat (of_nat n :: u64) = n" using assms by (intro unat_of_nat_u64) simp
  ultimately show ?thesis by (simp only: word_unat_eq_iff unat_ucast_u32_u64)
qed

lemma of_nat_u64_nonzero: "0 < n \<Longrightarrow> n < 2 ^ 64 \<Longrightarrow> (of_nat n :: u64) \<noteq> 0"
  using unat_of_nat_u64 [of n] by auto

lemma unat_uminus_u64: "(w :: u64) \<noteq> 0 \<Longrightarrow> unat (- w) = 2 ^ 64 - unat w"
  using unat_sub_if' [of 0 w] by (auto simp: unat_eq_0)

lemma u64_interval: "{f :: u64. a \<le> f \<and> f < b} = of_nat ` {unat a..<unat b}"
proof (intro equalityI subsetI)
  fix f assume "f \<in> {f :: u64. a \<le> f \<and> f < b}"
  then show "f \<in> of_nat ` {unat a..<unat b}"
    by (intro image_eqI [of _ _ "unat f"])
      (simp_all only: mem_Collect_eq word_le_nat_alt word_less_nat_alt atLeastLessThan_iff of_nat_unat ucast_id)
next
  fix f :: u64 assume "f \<in> of_nat ` {unat a..<unat b}"
  then obtain n where n: "f = of_nat n" "unat a \<le> n" "n < unat b" by auto
  moreover have "unat b < 2 ^ 64" using unsigned_less [of b, where ?'a = nat] by simp
  ultimately have "unat f = n" using unat_of_nat_u64 [of n] by simp
  with n show "f \<in> {f. a \<le> f \<and> f < b}"
    by (simp only: mem_Collect_eq word_le_nat_alt word_less_nat_alt)
qed

lemma card_u64_interval: "card {f :: u64. a \<le> f \<and> f < b} = unat b - unat a"
proof -
  have "inj_on (of_nat :: nat \<Rightarrow> u64) {unat a..<unat b}"
  proof (rule inj_onI)
    fix m n assume mn: "m \<in> {unat a..<unat b}" "n \<in> {unat a..<unat b}" "(of_nat m :: u64) = of_nat n"
    have "unat b < 2 ^ 64" using unsigned_less [of b, where ?'a = nat] by simp
    then have "m < 2 ^ 64" "n < 2 ^ 64" using mn(1,2) by (simp_all only: atLeastLessThan_iff) linarith+
    then show "m = n" using mn(3) unat_of_nat_u64 by metis
  qed
  then show ?thesis by (simp only: u64_interval card_image) simp
qed

subsection \<open>Lemma collections\<close>

named_theorems mem_simps \<open>reading a memory after a block operation\<close>
named_theorems frame_simps \<open>state components an operation leaves alone\<close>

subsection \<open>Byte memory\<close>

type_synonym mem = "u64 \<Rightarrow> u8"

fun store_bytes :: "mem \<Rightarrow> u64 \<Rightarrow> u8 list \<Rightarrow> mem" where
  "store_bytes m a [] = m"
| "store_bytes m a (b # bs) = store_bytes (m(a := b)) (a + 1) bs"

fun load_bytes :: "mem \<Rightarrow> u64 \<Rightarrow> nat \<Rightarrow> u8 list" where
  "load_bytes m a 0 = []"
| "load_bytes m a (Suc n) = m a # load_bytes m (a + 1) n"

text \<open>The low \<open>k\<close> bytes of a register, least significant first, as x86 stores them.\<close>

definition bytes_of :: "nat \<Rightarrow> u64 \<Rightarrow> u8 list" where
  "bytes_of k w = map (\<lambda>i. ucast (drop_bit (8 * i) w)) [0..<k]"

fun word_of_bytes :: "u8 list \<Rightarrow> u64" where
  "word_of_bytes [] = 0"
| "word_of_bytes (b # bs) = ucast b OR push_bit 8 (word_of_bytes bs)"

definition load_le :: "nat \<Rightarrow> mem \<Rightarrow> u64 \<Rightarrow> u64" where
  "load_le k m a = word_of_bytes (load_bytes m a k)"

lemma length_load_bytes [simp]: "length (load_bytes m a n) = n"
  by (induction n arbitrary: a) auto

lemma length_bytes_of [simp]: "length (bytes_of k w) = k"
  by (simp add: bytes_of_def)

lemma store_bytes_append:
  "store_bytes m a (xs @ ys) = store_bytes (store_bytes m a xs) (a + of_nat (length xs)) ys"
  by (induction xs arbitrary: m a) (auto simp: algebra_simps)

lemma load_bytes_nth: "i < n \<Longrightarrow> load_bytes m a n ! i = m (a + of_nat i)"
proof (induction n arbitrary: a i)
  case (Suc n)
  then show ?case by (cases i) (auto simp: algebra_simps)
qed simp

lemma load_bytes_cong:
  "(\<And>i. i < n \<Longrightarrow> m (a + of_nat i) = m' (a' + of_nat i)) \<Longrightarrow> load_bytes m a n = load_bytes m' a' n"
  by (rule nth_equalityI) (auto simp: load_bytes_nth)

text \<open>The offset of an address into a block, as the wrapped difference: a block that does not exceed
  the address space is hit exactly at the offsets below its length.\<close>

lemma store_bytes_read:
  assumes "length bs \<le> 2 ^ 64"
  shows "store_bytes m a bs x =
    (if unat (x - a) < length bs then bs ! unat (x - a) else m x)"
  using assms
proof (induction bs arbitrary: m a)
  case (Cons b bs)
  have IH: "store_bytes (m(a := b)) (a + 1) bs x =
      (if unat (x - (a + 1)) < length bs then bs ! unat (x - (a + 1)) else (m(a := b)) x)"
    by (rule Cons.IH) (use Cons.prems in simp)
  show ?case
  proof (cases "x = a")
    case True
    then have "unat (x - (a + 1)) = 2 ^ 64 - 1"
      by (simp add: unsigned_minus_1_eq_mask mask_eq_exp_minus_1)
    with True Cons.prems IH show ?thesis by (simp)
  next
    case False
    then have nz: "x - a \<noteq> 0" by simp
    have "unat (x - (a + 1)) = unat (x - a) - 1"
      using nz unat_minus_one [of "x - a"] by (simp add: algebra_simps)
    moreover have "0 < unat (x - a)" using nz by (simp add: unat_gt_0)
    ultimately show ?thesis using IH False by (auto simp: nth_Cons')
  qed
qed simp

lemma store_bytes_at:
  assumes "length bs \<le> 2 ^ 64" "i < length bs"
  shows "store_bytes m a bs (a + of_nat i) = bs ! i"
proof -
  have "i < 2 ^ 64" using assms by linarith
  then have "unat (of_nat i :: u64) = i" by (simp add: unat_of_nat)
  then show ?thesis using assms by (simp add: store_bytes_read)
qed

lemma load_store_bytes:
  assumes "length bs \<le> 2 ^ 64"
  shows "load_bytes (store_bytes m a bs) a (length bs) = bs"
  using assms by (intro nth_equalityI) (auto simp: load_bytes_nth store_bytes_at)

subsection \<open>Little-endian words\<close>

lemma word_of_bytes_bytes_of:
  "k \<le> 8 \<Longrightarrow> word_of_bytes (bytes_of k w) = take_bit (8 * k) w"
proof -
  have step: "bytes_of (Suc n) v = ucast v # bytes_of n (drop_bit 8 v)" for n v
    by (simp add: bytes_of_def upt_rec [of 0 "Suc n"] map_Suc_upt [symmetric] drop_bit_drop_bit
        ac_simps del: upt_Suc)
  have "word_of_bytes (bytes_of k w) = take_bit (8 * k) w" for k w
  proof (induction k arbitrary: w)
    case 0
    then show ?case by (simp add: bytes_of_def)
  next
    case (Suc k)
    show ?case
      unfolding step word_of_bytes.simps Suc.IH
      by (rule bit_eqI) (auto simp: bit_simps)
  qed
  then show ?thesis .
qed

lemma load_le_store:
  assumes "k \<le> 8"
  shows "load_le k (store_bytes m a (bytes_of k w)) a = take_bit (8 * k) w"
  using load_store_bytes [of "bytes_of k w" m a] assms
  by (simp add: load_le_def word_of_bytes_bytes_of)

end
