(* ===== verification/KString.thy ===== *)
theory KString
  imports Prelude "HOL-Library.Signed_Division"
begin

text \<open>
  \<^verbatim>\<open>kernel/lib/string.c\<close> and the inline \<^verbatim>\<open>memcpy\<close> of \<^verbatim>\<open>include/kstring.h\<close> over the byte memory.
  The inline assembly is modelled instruction by instruction: \<^verbatim>\<open>stosq/l/w/b\<close> and \<^verbatim>\<open>movsq/l/w/b\<close> with
  their \<^verbatim>\<open>rep\<close> counts, and \<^verbatim>\<open>repne scasb\<close> with its count register. The lemmas reduce each routine to
  one block store or one block read; the locale \<open>block_memory\<close> is what the console needs of
  \<^verbatim>\<open>memset\<close> and \<^verbatim>\<open>strncpy\<close>.
\<close>

subsection \<open>strcpy, strncpy, strcmp\<close>

partial_function (option) strcpy_loop :: "u64 \<Rightarrow> u64 \<Rightarrow> u32 \<Rightarrow> mem \<Rightarrow> (u32 \<times> mem) option" where
  "strcpy_loop dst src num m =
     (if m src = 0 then Some (num, m)
      else strcpy_loop (dst + 1) (src + 1) (num + 1) (m(dst := m src)))"

definition strcpy :: "u64 \<Rightarrow> u64 \<Rightarrow> mem \<Rightarrow> (u32 \<times> mem) option" where
  "strcpy dst src m = strcpy_loop dst src 0 m"

text \<open>\<^verbatim>\<open>strncpy\<close> copies exactly \<open>n\<close> bytes; it does not stop at a terminator.\<close>

fun strncpy_loop :: "nat \<Rightarrow> u64 \<Rightarrow> u64 \<Rightarrow> mem \<Rightarrow> mem" where
  "strncpy_loop 0 p src m = m"
| "strncpy_loop (Suc n) p src m = strncpy_loop n (p + 1) (src + 1) (m(p := m src))"

definition strncpy :: "u64 \<Rightarrow> u64 \<Rightarrow> u32 \<Rightarrow> mem \<Rightarrow> mem" where
  "strncpy dst src n m = strncpy_loop (unat n) dst src m"

text \<open>\<^verbatim>\<open>strcmp\<close> returns \<^verbatim>\<open>*str2 - *str1\<close> truncated to \<^verbatim>\<open>uint8_t\<close>.\<close>

partial_function (option) strcmp :: "u64 \<Rightarrow> u64 \<Rightarrow> mem \<Rightarrow> u8 option" where
  "strcmp str1 str2 m =
     (if m str1 \<noteq> 0 \<and> m str2 \<noteq> 0 \<and> m str1 = m str2 then strcmp (str1 + 1) (str2 + 1) m
      else Some (m str2 - m str1))"

subsection \<open>memset: rep stosq, then stosl, stosw, stosb\<close>

definition stos :: "nat \<Rightarrow> u64 \<Rightarrow> u64 \<times> mem \<Rightarrow> u64 \<times> mem" where
  "stos k rax st = (case st of (rdi, m) \<Rightarrow> (rdi + of_nat k, store_bytes m rdi (bytes_of k rax)))"

definition memset :: "u64 \<Rightarrow> u8 \<Rightarrow> u64 \<Rightarrow> mem \<Rightarrow> mem" where
  "memset p val n m =
     (let tmp = ucast val * 0x0101010101010101;
          st = (stos 8 tmp ^^ unat (n div 8)) (p, m);
          st = (if n AND 4 = 0 then st else stos 4 tmp st);
          st = (if n AND 2 = 0 then st else stos 2 tmp st);
          st = (if n AND 1 = 0 then st else stos 1 tmp st)
      in snd st)"

subsection \<open>memcpy: rep movsq, then movsl, movsw, movsb\<close>

definition movs :: "nat \<Rightarrow> u64 \<times> u64 \<times> mem \<Rightarrow> u64 \<times> u64 \<times> mem" where
  "movs k st = (case st of (rsi, rdi, m) \<Rightarrow>
     (rsi + of_nat k, rdi + of_nat k, store_bytes m rdi (load_bytes m rsi k)))"

text \<open>The count is a \<^verbatim>\<open>long\<close>: the division by 8 is signed, the tests look at its low bits.\<close>

definition memcpy :: "u64 \<Rightarrow> u64 \<Rightarrow> u64 \<Rightarrow> mem \<Rightarrow> mem" where
  "memcpy From To Num m =
     (let rcx = word_of_int (sint Num sdiv 8) :: u64;
          st = (movs 8 ^^ unat rcx) (From, To, m);
          st = (if Num AND 4 = 0 then st else movs 4 st);
          st = (if Num AND 2 = 0 then st else movs 2 st);
          st = (if Num AND 1 = 0 then st else movs 1 st)
      in snd (snd st))"

subsection \<open>strlen: repne scasb\<close>

text \<open>The count register after the scan; the scan stops at a zero byte or when the count is used up.\<close>

function scasb :: "u64 \<Rightarrow> u64 \<Rightarrow> mem \<Rightarrow> u64" where
  "scasb rdi rcx m =
     (if rcx = 0 then 0
      else if m rdi = 0 then rcx - 1
      else scasb (rdi + 1) (rcx - 1) m)"
  by pat_completeness auto
termination
  by (relation "measure (\<lambda>(rdi, rcx, m). unat rcx)")
    (auto simp: unat_minus_one unat_gt_0)

declare scasb.simps [simp del]

definition strlen :: "u64 \<Rightarrow> mem \<Rightarrow> int" where
  "strlen s m = sint (NOT (ucast (scasb s 0xffffffff m) :: u32) - 1)"

subsection \<open>Counts and patterns\<close>

lemma repeated_byte:
  fixes n a b c :: nat
  assumes "n < 256" "n * c < b"
  shows "(n * (256 * a * b + b + c)) div b mod 256 = n"
proof -
  have "n * (256 * a * b + b + c) = (256 * a * n + n) * b + n * c"
    by (simp add: algebra_simps)
  then have "(n * (256 * a * b + b + c)) div b = 256 * (a * n) + n"
    using assms by (simp add: div_add1_eq mult.assoc)
  then show ?thesis using assms by simp
qed

lemma pattern_byte_nat:
  fixes n :: nat
  assumes "n < 256" "i < 8"
  shows "(n * 0x0101010101010101) div 2 ^ (8 * i) mod 256 = n"
proof -
  consider "i = 0" | "i = 1" | "i = 2" | "i = 3" | "i = 4" | "i = 5" | "i = 6" | "i = 7"
    using assms(2) by linarith
  then show ?thesis
  proof cases
    case 1 then show ?thesis using repeated_byte [of n 0 1 "0x01010101010101"] assms by simp
  next
    case 2 then show ?thesis using repeated_byte [of n 1 "2^8" "0x010101010101"] assms by simp
  next
    case 3 then show ?thesis using repeated_byte [of n "0x0101" "2^16" "0x0101010101"] assms by simp
  next
    case 4 then show ?thesis using repeated_byte [of n "0x010101" "2^24" "0x01010101"] assms by simp
  next
    case 5 then show ?thesis using repeated_byte [of n "0x01010101" "2^32" "0x010101"] assms by simp
  next
    case 6 then show ?thesis using repeated_byte [of n "0x0101010101" "2^40" "0x0101"] assms by simp
  next
    case 7 then show ?thesis using repeated_byte [of n "0x010101010101" "2^48" "0x01"] assms by simp
  next
    case 8 then show ?thesis using repeated_byte [of n "0x01010101010101" "2^56" "0"] assms by simp
  qed
qed

lemma memset_pattern_byte:
  assumes i: "i < 8"
  shows "(ucast (drop_bit (8 * i) (ucast (v :: u8) * 0x0101010101010101 :: u64)) :: u8) = v"
proof -
  have v: "unat v < 256" using unsigned_less [of v, where ?'a = nat] by simp
  have "unat (ucast v * 0x0101010101010101 :: u64) = unat v * 0x0101010101010101"
    using v by (simp add: unat_word_ariths unsigned_ucast_eq take_bit_nat_eq_self)
  then have "unat (ucast (drop_bit (8 * i) (ucast v * 0x0101010101010101 :: u64)) :: u8) = unat v"
    using pattern_byte_nat [OF v i]
    by (simp only: unsigned_ucast_eq unsigned_drop_bit_eq)
      (simp add: drop_bit_eq_div take_bit_eq_mod)
  then show ?thesis by (rule word_unat_eq_iff [THEN iffD2])
qed

lemma bytes_of_pattern:
  "k \<le> 8 \<Longrightarrow> bytes_of k (ucast (v :: u8) * 0x0101010101010101) = replicate k v"
  by (rule nth_equalityI) (simp_all add: bytes_of_def memset_pattern_byte)

text \<open>A count splits into the parts the string instruction and its three tail instructions handle.\<close>

lemma count_split:
  fixes n :: u64
  shows "unat n = 8 * (unat n div 8) + (if n AND 4 = 0 then 0 else 4)
    + (if n AND 2 = 0 then 0 else 2) + (if n AND 1 = 0 then 0 else 1)"
proof -
  have b: "n AND 2 ^ k = 0 \<longleftrightarrow> even (unat n div 2 ^ k)" for k
    using bit_unsigned_iff [where ?'a = nat, of n k] bit_imp_le_length [of n k]
    by (auto simp: and_exp_eq_0_iff_not_bit bit_iff_odd [of "unat n" k])
  have halves: "m = 2 * (m div 2) + (if even m then 0 else 1)" for m :: nat
    by presburger
  have "unat n = 8 * (unat n div 8) + (if even (unat n div 4) then 0 else 4)
      + (if even (unat n div 2) then 0 else 2) + (if even (unat n) then 0 else 1)"
    using halves [of "unat n"] halves [of "unat n div 2"] halves [of "unat n div 2 div 2"]
    unfolding div_mult2_eq [symmetric] mult_2 numeral_Bit0 [symmetric]
    by (cases "even (unat n)"; cases "even (unat n div 2)"; cases "even (unat n div 4)";
        simp only: if_True if_False simp_thms numeral_times_numeral semiring_norm; linarith)
  then show ?thesis
    using b [of 0] b [of 1] b [of 2] by simp
qed

subsection \<open>memset as one block store\<close>

lemma stos_pattern:
  assumes "k \<le> 8"
  shows "stos k (ucast v * 0x0101010101010101) (p + of_nat c, store_bytes m p (replicate c (v :: u8))) =
    (p + of_nat (c + k), store_bytes m p (replicate (c + k) v))"
  using assms
  by (simp add: stos_def bytes_of_pattern replicate_add store_bytes_append algebra_simps)

lemma stos_pattern_if:
  assumes "k \<le> 8"
  shows "(if b then (p + of_nat c, store_bytes m p (replicate c (v :: u8)))
      else stos k (ucast v * 0x0101010101010101) (p + of_nat c, store_bytes m p (replicate c v))) =
    (p + of_nat (c + (if b then 0 else k)), store_bytes m p (replicate (c + (if b then 0 else k)) v))"
  using assms by (simp only: stos_pattern if_distrib [of "(+) c"] split: if_split) simp

lemma rep_stosq_pattern:
  "(stos 8 (ucast v * 0x0101010101010101) ^^ q) (p, m) =
    (p + of_nat (8 * q), store_bytes m p (replicate (8 * q) (v :: u8)))"
proof (induction q)
  case (Suc q)
  then show ?case
    using stos_pattern [of 8 v p "8 * q" m] by (simp add: add.commute)
qed simp

lemma memset_store: "memset p val n m = store_bytes m p (replicate (unat n) val)"
proof -
  have q: "unat (n div 8) = unat n div 8" by (simp add: unat_div)
  show ?thesis
    by (subst count_split [of n])
      (simp only: memset_def Let_def rep_stosq_pattern stos_pattern_if order.refl q snd_conv
        numeral_le_iff one_le_numeral semiring_norm)
qed

lemma memset_read [mem_simps]: "memset p val n m x = (if x - p < n then val else m x)"
  using unsigned_less [of n, where ?'a = nat]
  by (auto simp: memset_store store_bytes_read word_less_nat_alt)

subsection \<open>Forward copies\<close>

text \<open>A forward copy reads only bytes it has not overwritten when the destination does not start inside
  the source block (it may start before it and overlap).\<close>

definition forward_safe :: "u64 \<Rightarrow> u64 \<Rightarrow> nat \<Rightarrow> bool" where
  "forward_safe dst src n \<longleftrightarrow> dst = src \<or> n \<le> unat (dst - src)"

lemma forward_safe_read:
  assumes safe: "forward_safe dst src n" and "c + i < n" "n \<le> 2 ^ 64"
  shows "store_bytes m dst (load_bytes m src c) (src + of_nat (c + i)) = m (src + of_nat (c + i))"
proof (cases "dst = src")
  case True
  have "unat (of_nat (c + i) :: u64) = c + i"
    using assms by (simp add: unat_of_nat del: of_nat_add)
  then show ?thesis using assms True by (simp add: store_bytes_read del: of_nat_add)
next
  case False
  define e where "e = dst - src"
  have e: "n \<le> unat e" using safe False by (simp add: forward_safe_def e_def)
  have ci: "unat (of_nat (c + i) :: u64) = c + i"
    using assms by (simp add: unat_of_nat del: of_nat_add)
  have eq: "src + of_nat (c + i) - dst = of_nat (c + i) - e" by (simp add: e_def)
  have "c \<le> unat (of_nat (c + i) - e)"
    using assms e unsigned_less [of e, where ?'a = nat] ci
    by (simp add: unat_sub_if' del: of_nat_add)
  then have "\<not> unat (src + of_nat (c + i) - dst) < c" by (simp only: eq not_less)
  then show ?thesis using assms by (simp add: store_bytes_read del: of_nat_add)
qed

lemma forward_safe_load:
  assumes "forward_safe dst src n" "c + k \<le> n" "n \<le> 2 ^ 64"
  shows "load_bytes (store_bytes m dst (load_bytes m src c)) (src + of_nat c) k =
    load_bytes m (src + of_nat c) k"
  using forward_safe_read [OF assms(1) _ assms(3)] assms(2)
  by (intro load_bytes_cong) (auto simp: add.assoc)

lemma load_bytes_add: "load_bytes m a (j + k) = load_bytes m a j @ load_bytes m (a + of_nat j) k"
  by (induction j arbitrary: a) (auto simp: algebra_simps)

lemma strncpy_loop_block:
  assumes "forward_safe dst src (c + n)" "c + n \<le> 2 ^ 64"
  shows "strncpy_loop n (dst + of_nat c) (src + of_nat c) (store_bytes m dst (load_bytes m src c)) =
    store_bytes m dst (load_bytes m src (c + n))"
  using assms
proof (induction n arbitrary: c)
  case (Suc n)
  have "(store_bytes m dst (load_bytes m src c))
      (dst + of_nat c := store_bytes m dst (load_bytes m src c) (src + of_nat c)) =
    store_bytes m dst (load_bytes m src (Suc c))"
    using forward_safe_read [of dst src "c + Suc n" c 0 m] Suc.prems load_bytes_add [of m src c 1]
    by (simp add: store_bytes_append)
  then show ?case using Suc.IH [of "Suc c"] Suc.prems by (simp add: algebra_simps)
qed simp

lemma strncpy_store:
  "forward_safe dst src (unat n) \<Longrightarrow>
    strncpy dst src n m = store_bytes m dst (load_bytes m src (unat n))"
  using strncpy_loop_block [of dst src 0 "unat n" m] unsigned_less [of n, where ?'a = nat]
  by (simp add: strncpy_def)

lemma strncpy_read [mem_simps]:
  assumes "forward_safe dst src (unat n)"
  shows "strncpy dst src n m x = (if unat (x - dst) < unat n then m (src + (x - dst)) else m x)"
  using unsigned_less [of n, where ?'a = nat]
  by (auto simp: strncpy_store [OF assms] store_bytes_read load_bytes_nth)

subsection \<open>memcpy as one block store\<close>

lemma movs_block:
  assumes "forward_safe To From n" "c + k \<le> n" "n \<le> 2 ^ 64"
  shows "movs k (From + of_nat c, To + of_nat c, store_bytes m To (load_bytes m From c)) =
    (From + of_nat (c + k), To + of_nat (c + k), store_bytes m To (load_bytes m From (c + k)))"
  using forward_safe_load [OF assms(1,2,3), of m]
  by (simp add: movs_def load_bytes_add store_bytes_append algebra_simps)

lemma movs_block_if:
  assumes "forward_safe To From n" "c + (if b then 0 else k) \<le> n" "n \<le> 2 ^ 64"
  shows "(if b then (From + of_nat c, To + of_nat c, store_bytes m To (load_bytes m From c))
      else movs k (From + of_nat c, To + of_nat c, store_bytes m To (load_bytes m From c))) =
    (let c' = c + (if b then 0 else k)
     in (From + of_nat c', To + of_nat c', store_bytes m To (load_bytes m From c')))"
  using movs_block [OF assms(1) _ assms(3), of c k m] assms(2)
  by (cases b) (simp_all add: Let_def del: of_nat_add)

lemma rep_movsq_block:
  assumes "forward_safe To From n" "8 * q \<le> n" "n \<le> 2 ^ 64"
  shows "(movs 8 ^^ q) (From, To, m) =
    (From + of_nat (8 * q), To + of_nat (8 * q), store_bytes m To (load_bytes m From (8 * q)))"
  using assms(2)
proof (induction q)
  case (Suc q)
  then show ?case
    using movs_block [OF assms(1) _ assms(3), of "8 * q" 8 m] by (simp add: add.commute)
qed simp

lemma memcpy_store:
  assumes "0 \<le> sint Num" "forward_safe To From (unat Num)"
  shows "memcpy From To Num m = store_bytes m To (load_bytes m From (unat Num))"
proof -
  have "uint Num = sint Num"
    using uint_sint [of Num] assms(1) sint_lt [of Num] by (simp add: take_bit_int_eq_self)
  then have "sint Num sdiv 8 = int (unat Num div 8)"
    using assms(1) by (auto simp: signed_divide_int_def sgn_if zdiv_int)
  then have "(word_of_int (sint Num sdiv 8) :: u64) = of_nat (unat Num div 8)"
    by (simp only: of_int_of_nat_eq)
  then have q: "unat (word_of_int (sint Num sdiv 8) :: u64) = unat Num div 8"
    using unsigned_less [of Num, where ?'a = nat] by (simp only: unat_of_nat) simp
  have len: "unat Num \<le> 2 ^ 64"
    using unsigned_less [of Num, where ?'a = nat] by simp
  define c4 where "c4 = 8 * (unat Num div 8) + (if Num AND 4 = 0 then 0 else 4)"
  define c2 where "c2 = c4 + (if Num AND 2 = 0 then 0 else 2)"
  have c1: "c2 + (if Num AND 1 = 0 then 0 else 1) = unat Num"
    using count_split [of Num] by (simp only: c2_def c4_def)
  then have le: "8 * (unat Num div 8) \<le> unat Num"
    "8 * (unat Num div 8) + (if Num AND 4 = 0 then 0 else 4) \<le> unat Num"
    "c4 + (if Num AND 2 = 0 then 0 else 2) \<le> unat Num"
    "c2 + (if Num AND 1 = 0 then 0 else 1) \<le> unat Num"
    by (auto simp: c2_def c4_def)
  show ?thesis
    unfolding memcpy_def Let_def q rep_movsq_block [OF assms(2) le(1) len]
      movs_block_if [OF assms(2) le(2) len, unfolded Let_def, folded c4_def]
      movs_block_if [OF assms(2) le(3) len, unfolded Let_def, folded c2_def]
      movs_block_if [OF assms(2) le(4) len, unfolded Let_def c1] snd_conv ..
qed

subsection \<open>Strings in memory\<close>

text \<open>The bytes \<open>bs\<close>, none of them zero, followed by a terminator.\<close>

definition cstring :: "mem \<Rightarrow> u64 \<Rightarrow> u8 list \<Rightarrow> bool" where
  "cstring m a bs \<longleftrightarrow>
     load_bytes m a (length bs) = bs \<and> list_all (\<lambda>b. b \<noteq> 0) bs \<and> m (a + of_nat (length bs)) = 0"

lemma cstring_Nil [simp]: "cstring m a [] \<longleftrightarrow> m a = 0"
  by (simp add: cstring_def)

lemma cstring_Cons [simp]: "cstring m a (b # bs) \<longleftrightarrow> m a = b \<and> b \<noteq> 0 \<and> cstring m (a + 1) bs"
  by (auto simp: cstring_def algebra_simps)

lemma scasb_cstring:
  assumes "cstring m a bs" "length bs < r" "r < 2 ^ 64"
  shows "scasb a (of_nat r) m = of_nat (r - length bs - 1)"
  using assms
proof (induction bs arbitrary: a r)
  case Nil
  then have "(of_nat r :: u64) \<noteq> 0"
    by (intro of_nat_u64_nonzero) auto
  with Nil show ?case by (subst scasb.simps) (auto simp: of_nat_diff)
next
  case (Cons b bs)
  then have "(of_nat r :: u64) \<noteq> 0"
    by (intro of_nat_u64_nonzero) auto
  moreover have "(of_nat r :: u64) - 1 = of_nat (r - 1)"
    using Cons.prems by (simp add: of_nat_diff)
  ultimately show ?case
    using Cons.IH [of "a + 1" "r - 1"] Cons.prems by (subst scasb.simps) auto
qed

lemma strlen_cstring:
  assumes "cstring m a bs" "length bs < 2 ^ 31"
  shows "strlen a m = int (length bs)"
proof -
  have "scasb a (of_nat 0xffffffff) m = of_nat (0xffffffff - length bs - 1)"
    by (rule scasb_cstring [OF assms(1)]) (use assms(2) in simp_all)
  then have "(ucast (scasb a 0xffffffff m) :: u32) = of_nat (0xffffffff - length bs - 1)"
    by (simp add: word_unat_eq_iff unsigned_ucast_eq unsigned_of_nat)
  also have "\<dots> = of_nat 0xfffffffe - of_nat (length bs)"
    using assms(2) by (subst of_nat_diff [symmetric]) simp_all
  also have "(of_nat 0xfffffffe :: u32) = - 2" by simp
  finally have "NOT (ucast (scasb a 0xffffffff m) :: u32) - 1 = of_nat (length bs)"
    by (simp add: not_eq_complement)
  then show ?thesis using assms(2)
    by (simp add: strlen_def signed_of_nat signed_take_bit_int_eq_self)
qed

lemma strcpy_loop_cstring:
  assumes "cstring m src bs"
    and "forward_safe dst src (Suc (length bs))" "length bs < 2 ^ 64"
  shows "strcpy_loop dst src num m = Some (num + of_nat (length bs), store_bytes m dst bs)"
  using assms
proof (induction bs arbitrary: dst src num m)
  case Nil
  then show ?case by (subst strcpy_loop.simps) simp
next
  case (Cons b bs)
  let ?m = "m(dst := m src)"
  have keep: "?m (src + 1 + of_nat i) = m (src + 1 + of_nat i)" if "i \<le> length bs" for i
  proof (cases "dst = src + 1 + of_nat i")
    case True
    then have "dst - src = of_nat (Suc i)" by simp
    then have "unat (dst - src) = Suc i"
      using that Cons.prems(3) unat_of_nat_u64 [of "Suc i"] by (simp del: of_nat_Suc)
    then have "dst = src"
      using that Cons.prems(2) by (auto simp: forward_safe_def)
    then show ?thesis by simp
  qed simp
  have "load_bytes ?m (src + 1) (length bs) = load_bytes m (src + 1) (length bs)"
    by (rule load_bytes_cong) (simp only: keep less_imp_le)
  then have "cstring ?m (src + 1) bs"
    using Cons.prems(1) keep [of "length bs"]
    by (simp only: cstring_Cons) (simp only: cstring_def)
  moreover have "forward_safe (dst + 1) (src + 1) (Suc (length bs))"
    using Cons.prems(2) by (auto simp: forward_safe_def)
  ultimately have "strcpy_loop (dst + 1) (src + 1) (num + 1) ?m =
      Some (num + 1 + of_nat (length bs), store_bytes ?m (dst + 1) bs)"
    by (rule Cons.IH) (use Cons.prems in simp)
  with Cons.prems(1) show ?case by (subst strcpy_loop.simps) (simp add: algebra_simps)
qed

lemma strcmp_cstring:
  assumes "cstring m a xs" "cstring m b ys"
  shows "\<exists>r. strcmp a b m = Some r \<and> (r = 0 \<longleftrightarrow> xs = ys)"
  using assms
proof (induction xs arbitrary: a b ys)
  case Nil
  then show ?case by (cases ys; subst strcmp.simps) auto
next
  case (Cons x xs)
  then show ?case by (cases ys; subst strcmp.simps) auto
qed

subsection \<open>What the console relies on\<close>

text \<open>\<open>fill\<close> writes one byte over a block and nothing else; \<open>copy\<close> moves a block forwards. The client
  fact is the one a scrolling display needs: move a window down by \<open>w\<close> bytes and blank its tail.\<close>

locale block_memory =
  fixes fill :: "u64 \<Rightarrow> u8 \<Rightarrow> u64 \<Rightarrow> mem \<Rightarrow> mem"
    and copy :: "u64 \<Rightarrow> u64 \<Rightarrow> u32 \<Rightarrow> mem \<Rightarrow> mem"
  assumes fill_read: "fill p v n m x = (if x - p < n then v else m x)"
    and copy_read: "forward_safe dst src (unat k) \<Longrightarrow>
      copy dst src k m x = (if unat (x - dst) < unat k then m (src + (x - dst)) else m x)"
begin

lemma scroll_read:
  assumes "0 < w" "w + n < 2 ^ 32"
  shows "fill (base + of_nat n) v (of_nat w) (copy base (base + of_nat w) (of_nat n) m) x =
    (if unat (x - base) < n then m (x + of_nat w)
     else if unat (x - base) < n + w then v else m x)"
proof -
  define d where "d = x - base"
  have x: "x = base + d" by (simp add: d_def)
  have n: "unat (of_nat n :: u32) = n" "unat (of_nat n :: u64) = n" "unat (of_nat w :: u64) = w"
    using assms by (simp_all add: unat_of_nat)
  have "base - (base + of_nat w) = - (of_nat w :: u64)" by simp
  moreover have "n \<le> unat (- (of_nat w :: u64))"
    using assms n of_nat_u64_nonzero [of w] by (simp add: unat_uminus_u64)
  ultimately have safe: "forward_safe base (base + of_nat w) (unat (of_nat n :: u32))"
    by (simp add: forward_safe_def n)
  have "d - of_nat n < of_nat w \<longleftrightarrow> n \<le> unat d \<and> unat d < n + w"
    using assms n unsigned_less [of d, where ?'a = nat]
    by (auto simp: word_less_nat_alt unat_sub_if')
  then show ?thesis
    using n by (auto simp: fill_read copy_read [OF safe] x algebra_simps)
qed

lemma fill_words:
  assumes "unat n < 2 ^ 61" "unat i < 2 ^ 61"
  shows "load_bytes (fill p v (8 * n) m) (p + 8 * i) 8 =
    (if i < n then replicate 8 v else load_bytes m (p + 8 * i) 8)"
proof (rule nth_equalityI)
  fix j assume "j < length (load_bytes (fill p v (8 * n) m) (p + 8 * i) 8)"
  then have j: "j < 8" by simp
  have "unat (8 * n) = 8 * unat n" "unat (8 * i) = 8 * unat i"
    using assms unat_mult_lem [of 8 n] unat_mult_lem [of 8 i] by simp_all
  moreover from this have "unat (8 * i + of_nat j) = 8 * unat i + j"
    using assms j unat_add_lem [of "8 * i" "of_nat j"] by (simp add: unat_of_nat_u64)
  ultimately have "8 * i + of_nat j < 8 * n \<longleftrightarrow> i < n"
    using j by (simp add: word_less_nat_alt) linarith
  then show "load_bytes (fill p v (8 * n) m) (p + 8 * i) 8 ! j =
      (if i < n then replicate 8 v else load_bytes m (p + 8 * i) 8) ! j"
    using j by (auto simp: load_bytes_nth fill_read algebra_simps)
qed simp

end

interpretation kstring: block_memory memset strncpy
  by unfold_locales (simp_all add: memset_read strncpy_read)

subsection \<open>Properties\<close>

text \<open>C29: The assembly of memset, quadwords followed by the odd four, two and one bytes, sets each of the n
  bytes from p to the value, wrapping at the end of the address space, and changes no other byte.\<close>

theorem memset_fills_exactly:
  "memset p val n m x = (if x - p < n then val else m x)"
  by (rule memset_read)

text \<open>strcpy copies the bytes of the source string and returns their number, but it never writes the
  terminator: the byte behind the copy keeps its old value.\<close>

theorem strcpy_leaves_no_terminator:
  assumes "cstring m src bs" "forward_safe dst src (Suc (length bs))" "length bs < 2 ^ 32"
  shows "\<exists>m'. strcpy dst src m = Some (of_nat (length bs), m') \<and>
    load_bytes m' dst (length bs) = bs \<and> m' (dst + of_nat (length bs)) = m (dst + of_nat (length bs))"
proof -
  have len: "length bs \<le> 2 ^ 64" "length bs < 2 ^ 64" using assms(3) by simp_all
  have "strcpy dst src m = Some (of_nat (length bs), store_bytes m dst bs)"
    using strcpy_loop_cstring [OF assms(1,2) len(2), of 0] by (simp add: strcpy_def)
  moreover have "unat (of_nat (length bs) :: u64) = length bs" by (rule unat_of_nat_u64 [OF len(2)])
  ultimately show ?thesis
    using load_store_bytes [OF len(1)] by (simp add: store_bytes_read [OF len(1)])
qed

theorem strcpy_leaves_no_terminator_witness:
  "\<exists>m'. strcpy 0x100 0x200 ((\<lambda>_. 0x2a)(0x200 := 0x68, 0x201 := 0x69, 0x202 := 0)) = Some (2, m') \<and>
    m' 0x100 = 0x68 \<and> m' 0x101 = 0x69 \<and> m' 0x102 = 0x2a"
proof -
  let ?m = "(\<lambda>_. 0x2a)(0x200 := 0x68, 0x201 := 0x69, 0x202 := 0) :: mem"
  have "cstring ?m 0x200 [0x68, 0x69]" by simp
  moreover have "forward_safe 0x100 0x200 (Suc (length [0x68 :: u8, 0x69]))"
    by (simp add: forward_safe_def)
  moreover have "length [0x68 :: u8, 0x69] = 2" by simp
  ultimately show ?thesis
    using strcpy_leaves_no_terminator [of ?m "0x200" "[0x68, 0x69]" "0x100"] by simp
qed

text \<open>strcmp returns on any two strings, and returns 0 exactly when they are equal.\<close>

theorem strcmp_decides_equality:
  assumes "cstring m a xs" "cstring m b ys"
  shows "\<exists>r. strcmp a b m = Some r \<and> (r = 0 \<longleftrightarrow> xs = ys)"
  by (rule strcmp_cstring [OF assms])

theorem strcmp_decides_equality_witness:
  "\<exists>r. strcmp 0x100 0x200 ((\<lambda>_. 0)(0x100 := 0x68, 0x200 := 0x68, 0x201 := 0x69)) = Some r \<and> r \<noteq> 0"
  using strcmp_decides_equality [of "(\<lambda>_. 0)(0x100 := 0x68, 0x200 := 0x68, 0x201 := 0x69)"
      "0x100" "[0x68]" "0x200" "[0x68, 0x69]"]
  by simp

end
