(* ===== verification/Console.thy ===== *)
theory Console
  imports KString
begin

text \<open>
  The text console of \<^verbatim>\<open>kernel/printk/printk.c\<close>: the cursor, \<^verbatim>\<open>clear_screen\<close> and \<^verbatim>\<open>print\<close>, which write
  the VGA text buffer at \<^verbatim>\<open>0xb8000\<close> through the byte memory and scroll it with \<^verbatim>\<open>strncpy\<close> and
  \<^verbatim>\<open>memset\<close>. The abstract screen is the list of the 25 * 80 cells with the cursor; \<open>print\<close> refines a
  pass over the string with \<open>put_char\<close> on that list.
\<close>

definition VGA_BASE :: u64 where "VGA_BASE = 0xb8000"
definition MAX_ROW :: u32 where "MAX_ROW = 25"
definition MAX_COLUMN :: u32 where "MAX_COLUMN = 80"

definition ncells :: nat where "ncells = 25 * 80"

record console =
  cmem :: mem
  cur_x :: u32
  cur_y :: u32

definition store16 :: "u64 \<Rightarrow> u16 \<Rightarrow> mem \<Rightarrow> mem" where
  "store16 a w m = store_bytes m a (bytes_of 2 (ucast w))"

text \<open>The loop bound is \<^verbatim>\<open>i <= MAX_ROW*MAX_COLUMN\<close>.\<close>

definition clear_screen :: "console \<Rightarrow> console" where
  "clear_screen con =
     con\<lparr>cmem := fold (\<lambda>i. store16 (VGA_BASE + 2 * of_nat i) 0) [0..<Suc ncells] (cmem con),
        cur_x := 0, cur_y := 0\<rparr>"

definition print_char :: "u16 \<Rightarrow> u8 \<Rightarrow> console \<Rightarrow> console" where
  "print_char color ch con =
     (if ch = 0x0A then con\<lparr>cur_x := 0, cur_y := cur_y con + 1\<rparr>
      else if ch = 0x09 then con\<lparr>cur_x := cur_x con + 4\<rparr>
      else
        let con = (if MAX_COLUMN - 1 \<le> cur_x con
                   then con\<lparr>cur_x := 0, cur_y := cur_y con + 1\<rparr> else con);
            con = (if MAX_ROW \<le> cur_y con
                   then let n = (MAX_ROW - 1) * MAX_COLUMN * 2;
                            m = strncpy VGA_BASE (VGA_BASE + ucast (MAX_COLUMN * 2)) n (cmem con)
                        in con\<lparr>cmem := memset (VGA_BASE + ucast ((MAX_ROW - 1) * MAX_COLUMN * 2)) 0
                                         (ucast (MAX_COLUMN * 2)) m,
                               cur_x := 0, cur_y := MAX_ROW - 1\<rparr>
                   else con);
            p = ucast (ucast VGA_BASE + cur_y con * MAX_COLUMN * 2 + cur_x con * 2) :: u64
        in con\<lparr>cmem := store16 p (push_bit 8 color + scast ch) (cmem con),
               cur_x := cur_x con + 1\<rparr>)"

text \<open>\<^verbatim>\<open>print\<close> stops at the first zero byte; the end of the list stands for the terminator.\<close>

fun print :: "u16 \<Rightarrow> u8 list \<Rightarrow> console \<Rightarrow> console" where
  "print color [] con = con"
| "print color (ch # buf) con =
     (if ch = 0 then con else print color buf (print_char color ch con))"

subsection \<open>The abstract screen\<close>

record screen =
  cells :: "u16 list"
  col :: u32
  line :: u32

definition cell_addr :: "nat \<Rightarrow> u64" where
  "cell_addr i = VGA_BASE + of_nat (2 * i)"

definition cell :: "mem \<Rightarrow> nat \<Rightarrow> u16" where
  "cell m i = ucast (load_le 2 m (cell_addr i))"

definition screen_of :: "console \<Rightarrow> screen" where
  "screen_of con = \<lparr>cells = map (cell (cmem con)) [0..<ncells], col = cur_x con, line = cur_y con\<rparr>"

text \<open>The display commands: a visible character first moves to the next line when the line is full,
  then scrolls by one line when the cursor is below the last one.\<close>

definition wrap_line :: "screen \<Rightarrow> screen" where
  "wrap_line s = (if 79 \<le> col s then s\<lparr>col := 0, line := line s + 1\<rparr> else s)"

definition scroll_line :: "screen \<Rightarrow> screen" where
  "scroll_line s =
     (if 25 \<le> line s
      then s\<lparr>cells := drop 80 (cells s) @ replicate 80 0, col := 0, line := 24\<rparr> else s)"

definition glyph :: "u16 \<Rightarrow> u8 \<Rightarrow> u16" where
  "glyph color ch = push_bit 8 color + scast ch"

definition put_char :: "u16 \<Rightarrow> u8 \<Rightarrow> screen \<Rightarrow> screen" where
  "put_char color ch s =
     (if ch = 0x0A then s\<lparr>col := 0, line := line s + 1\<rparr>
      else if ch = 0x09 then s\<lparr>col := col s + 4\<rparr>
      else let s = scroll_line (wrap_line s)
           in s\<lparr>cells := (cells s)[80 * unat (line s) + unat (col s) := glyph color ch],
                col := col s + 1\<rparr>)"

definition put_string :: "u16 \<Rightarrow> u8 list \<Rightarrow> screen \<Rightarrow> screen" where
  "put_string color buf s = fold (put_char color) (takeWhile (\<lambda>b. b \<noteq> 0) buf) s"

subsection \<open>Cells\<close>

lemma ncells_less [simp]: "i < ncells \<longleftrightarrow> i < 2000"
  by (simp add: ncells_def)

lemma ncells_arith [simp]: "ncells - 80 = 1920" "80 + 1920 = ncells"
  "ncells = length xs \<longleftrightarrow> length xs = 2000"
  by (auto simp: ncells_def)

lemma unat_cell_addr: "i < 4096 \<Longrightarrow> unat (cell_addr i) = 0xb8000 + 2 * i"
proof -
  assume i: "i < 4096"
  have "cell_addr i = of_nat (0xb8000 + 2 * i)" by (simp add: cell_addr_def VGA_BASE_def)
  also have "unat \<dots> = 0xb8000 + 2 * i" using i by (intro unat_of_nat_u64) simp
  finally show ?thesis .
qed

lemma store16_upd: "store16 a w m = m(a := ucast w, a + 1 := ucast (drop_bit 8 w))"
proof -
  have "(ucast (drop_bit 8 (ucast w :: u64)) :: u8) = ucast (drop_bit 8 w)"
    by (rule bit_word_eqI) (simp add: bit_simps)
  moreover have "(ucast (ucast w :: u64) :: u8) = ucast w"
    by (rule bit_word_eqI) (simp add: bit_simps)
  ultimately show ?thesis
    by (simp add: store16_def bytes_of_def upt_rec)
qed

lemma cell_bytes: "cell m i = ucast (m (cell_addr i)) OR push_bit 8 (ucast (m (cell_addr i + 1)))"
  unfolding cell_def load_le_def
  by (rule bit_word_eqI) (auto simp: numeral_2_eq_2 bit_simps)

lemma cell_cong:
  "m (cell_addr i) = m' (cell_addr j) \<Longrightarrow> m (cell_addr i + 1) = m' (cell_addr j + 1) \<Longrightarrow>
    cell m i = cell m' j"
  by (simp add: cell_bytes)

lemma cell_addr_neq:
  assumes "i < 4096" "j < 4096"
  shows "cell_addr i + 1 \<noteq> cell_addr j" "cell_addr i = cell_addr j \<longleftrightarrow> i = j"
proof -
  have "unat (cell_addr i + 1) = 0xb8000 + 2 * i + 1"
    using assms unat_cell_addr [of i] by (simp add: unat_word_ariths)
  moreover have "2 * i + 1 \<noteq> 2 * j" by presburger
  ultimately have "unat (cell_addr i + 1) \<noteq> unat (cell_addr j)"
    using assms unat_cell_addr [of j] by (simp only: add.assoc add_left_cancel) simp
  then show "cell_addr i + 1 \<noteq> cell_addr j" by auto
  show "cell_addr i = cell_addr j \<longleftrightarrow> i = j"
    using assms unat_cell_addr [of i] unat_cell_addr [of j] by (metis add_left_cancel mult_left_cancel zero_neq_numeral)
qed

lemma cell_store16:
  assumes "i < 4096" "j < 4096"
  shows "cell (store16 (cell_addr j) w m) i = (if i = j then w else cell m i)"
proof -
  have split: "ucast (ucast w :: u8) OR push_bit 8 (ucast (ucast (drop_bit 8 w) :: u8)) = w"
    by (rule bit_word_eqI) (auto simp: bit_simps)
  show ?thesis
    using cell_addr_neq [OF assms] cell_addr_neq [OF assms(2,1)] split
    by (auto simp: cell_bytes store16_upd)
qed

subsection \<open>print refines put_string\<close>

text \<open>The address \<^verbatim>\<open>print\<close> computes in 32 bits is that of the cell, for a cursor on the screen.\<close>

lemma print_addr:
  assumes "x < 80" "y < (25 :: u32)"
  shows "(ucast (ucast VGA_BASE + y * MAX_COLUMN * 2 + x * 2) :: u64) =
    cell_addr (80 * unat y + unat x)"
proof -
  have b: "unat x < 80" "unat y < 25" using assms by (auto simp: word_less_nat_alt)
  have "unat (ucast VGA_BASE + y * MAX_COLUMN * 2 + x * 2) = 0xb8000 + 2 * (80 * unat y + unat x)"
    using b by (simp add: VGA_BASE_def MAX_COLUMN_def unat_word_ariths)
  also have "\<dots> = unat (cell_addr (80 * unat y + unat x))"
    using b by (simp add: unat_cell_addr)
  finally show ?thesis
    by (simp only: word_unat_eq_iff unat_ucast_u32_u64)
qed

definition scroll_mem :: "mem \<Rightarrow> mem" where
  "scroll_mem m = memset (VGA_BASE + ucast ((MAX_ROW - 1) * MAX_COLUMN * 2)) 0 (ucast (MAX_COLUMN * 2))
     (strncpy VGA_BASE (VGA_BASE + ucast (MAX_COLUMN * 2)) ((MAX_ROW - 1) * MAX_COLUMN * 2) m)"

lemma scroll_mem_read:
  "scroll_mem m x =
    (if unat (x - VGA_BASE) < 3840 then m (x + 160) else if unat (x - VGA_BASE) < 4000 then 0 else m x)"
  using kstring.scroll_read [of 160 3840 VGA_BASE 0 m x]
  by (simp add: scroll_mem_def MAX_ROW_def MAX_COLUMN_def)

lemma cell_addr_offset:
  assumes "i < 4096"
  shows "unat (cell_addr i - VGA_BASE) = 2 * i" "unat (cell_addr i + 1 - VGA_BASE) = 2 * i + 1"
proof -
  have "cell_addr i - VGA_BASE = of_nat (2 * i)" "cell_addr i + 1 - VGA_BASE = of_nat (2 * i + 1)"
    by (simp_all add: cell_addr_def)
  then show "unat (cell_addr i - VGA_BASE) = 2 * i" "unat (cell_addr i + 1 - VGA_BASE) = 2 * i + 1"
    using assms unat_of_nat_u64 [of "2 * i"] unat_of_nat_u64 [of "2 * i + 1"]
    by (simp_all only:) simp_all
qed

lemma cell_scroll_mem:
  assumes "i < 2000"
  shows "cell (scroll_mem m) i = (if i < 1920 then cell m (i + 80) else 0)"
proof -
  have "cell_addr (i + 80) = cell_addr i + 160" by (simp add: cell_addr_def)
  then show ?thesis
    using assms cell_addr_offset [of i]
    by (simp add: cell_bytes scroll_mem_read algebra_simps)
qed

lemma screen_scroll:
  "map (cell (scroll_mem m)) [0..<ncells] = drop 80 (map (cell m) [0..<ncells]) @ replicate 80 0"
  by (rule nth_equalityI) (auto simp: cell_scroll_mem nth_append add.commute [of _ 80] simp flip: ncells_arith(2))

lemma screen_store:
  assumes "j < 2000"
  shows "map (cell (store16 (cell_addr j) w m)) [0..<ncells] = (map (cell m) [0..<ncells])[j := w]"
  using assms by (intro nth_equalityI) (auto simp: cell_store16 nth_list_update)

text \<open>The cursor after wrapping and scrolling is on the screen, whatever it was.\<close>

lemma placed_cursor:
  "col (scroll_line (wrap_line s)) < 79" "line (scroll_line (wrap_line s)) < 25"
  by (auto simp: scroll_line_def wrap_line_def word_less_nat_alt word_le_nat_alt)

lemma print_char_steps:
  assumes "ch \<noteq> 0x0A" "ch \<noteq> 0x09"
    and "con1 = (if 79 \<le> cur_x con then con\<lparr>cur_x := 0, cur_y := cur_y con + 1\<rparr> else con)"
    and "con2 = (if 25 \<le> cur_y con1
      then con1\<lparr>cmem := scroll_mem (cmem con1), cur_x := 0, cur_y := 24\<rparr> else con1)"
  shows "print_char color ch con =
    con2\<lparr>cmem := store16 (ucast (ucast VGA_BASE + cur_y con2 * MAX_COLUMN * 2 + cur_x con2 * 2))
      (glyph color ch) (cmem con2), cur_x := cur_x con2 + 1\<rparr>"
  using assms
  by (simp add: print_char_def Let_def glyph_def scroll_mem_def MAX_ROW_def MAX_COLUMN_def)

lemma screen_of_print_char:
  "screen_of (print_char color ch con) = put_char color ch (screen_of con)"
proof (cases "ch = 0x0A \<or> ch = 0x09")
  case True
  then show ?thesis by (auto simp: print_char_def put_char_def screen_of_def)
next
  case False
  define con1 where
    "con1 = (if 79 \<le> cur_x con then con\<lparr>cur_x := 0, cur_y := cur_y con + 1\<rparr> else con)"
  define con2 where
    "con2 = (if 25 \<le> cur_y con1
      then con1\<lparr>cmem := scroll_mem (cmem con1), cur_x := 0, cur_y := 24\<rparr> else con1)"
  have s1: "screen_of con1 = wrap_line (screen_of con)"
    by (simp add: con1_def wrap_line_def screen_of_def)
  have s2: "screen_of con2 = scroll_line (wrap_line (screen_of con))"
    unfolding s1 [symmetric] by (simp add: con2_def scroll_line_def screen_scroll screen_of_def)
  have cur: "cur_x con2 < 79" "cur_y con2 < 25"
    using placed_cursor [of "screen_of con"] unfolding s2 [symmetric] by (simp_all add: screen_of_def)
  then have "cur_x con2 < 80" and j: "80 * unat (cur_y con2) + unat (cur_x con2) < 2000"
    by (auto simp: word_less_nat_alt)
  then show ?thesis
    using False print_char_steps [OF _ _ con1_def con2_def, of ch color] cur(2)
    by (simp add: put_char_def Let_def print_addr screen_store flip: s2) (simp add: screen_of_def screen_store)
qed

lemma print_takeWhile: "print color buf con = fold (print_char color) (takeWhile (\<lambda>b. b \<noteq> 0) buf) con"
  by (induction buf arbitrary: con) auto

lemma screen_of_fold_print:
  "screen_of (fold (print_char color) cs con) = fold (put_char color) cs (screen_of con)"
  by (induction cs arbitrary: con) (auto simp: screen_of_print_char)

lemma screen_of_print: "screen_of (print color buf con) = put_string color buf (screen_of con)"
  by (simp add: print_takeWhile put_string_def screen_of_fold_print)

text \<open>C5: Printing a buffer has on the screen exactly the effect of the abstract display commands for
  the bytes before the terminator: each visible byte goes to the cursor's cell after wrapping at the
  line end and scrolling by one line at the bottom.\<close>

theorem print_refines_put_string:
  "screen_of (print color buf con) = put_string color buf (screen_of con)"
  by (rule screen_of_print)

subsection \<open>Which memory print touches\<close>

lemma print_char_frame:
  assumes "4000 \<le> unat (x - VGA_BASE)"
  shows "cmem (print_char color ch con) x = cmem con x"
proof (cases "ch = 0x0A \<or> ch = 0x09")
  case True
  then show ?thesis by (auto simp: print_char_def)
next
  case False
  define con1 where
    "con1 = (if 79 \<le> cur_x con then con\<lparr>cur_x := 0, cur_y := cur_y con + 1\<rparr> else con)"
  define con2 where
    "con2 = (if 25 \<le> cur_y con1
      then con1\<lparr>cmem := scroll_mem (cmem con1), cur_x := 0, cur_y := 24\<rparr> else con1)"
  have "cur_x con2 < 80" "cur_y con2 < 25"
    by (auto simp: con2_def con1_def word_less_nat_alt word_le_nat_alt)
  then have "80 * unat (cur_y con2) + unat (cur_x con2) < 2000"
    by (auto simp: word_less_nat_alt)
  then have "x \<noteq> cell_addr (80 * unat (cur_y con2) + unat (cur_x con2))"
    "x \<noteq> cell_addr (80 * unat (cur_y con2) + unat (cur_x con2)) + 1"
    using assms cell_addr_offset [of "80 * unat (cur_y con2) + unat (cur_x con2)"] by auto
  then have "cmem (print_char color ch con) x = cmem con2 x"
    using False print_char_steps [OF _ _ con1_def con2_def, of ch color]
      print_addr [OF \<open>cur_x con2 < 80\<close> \<open>cur_y con2 < 25\<close>]
    by (simp add: store16_upd)
  then show ?thesis using assms by (simp add: con2_def con1_def scroll_mem_read)
qed

text \<open>C34: Whatever the cursor holds, printing writes no byte outside the 4000 bytes of the 80 x 25
  text buffer.\<close>

theorem print_stays_in_text_buffer:
  assumes "4000 \<le> unat (x - VGA_BASE)"
  shows "cmem (print color buf con) x = cmem con x"
proof -
  have "cmem (fold (print_char color) cs con) x = cmem con x" for cs
    using assms by (induction cs arbitrary: con) (auto simp: print_char_frame)
  then show ?thesis by (simp add: print_takeWhile)
qed

theorem print_stays_in_text_buffer_witness:
  "cmem (print 7 [65, 10, 66] \<lparr>cmem = (\<lambda>_. 1), cur_x = 5000, cur_y = 77\<rparr>) 0xb8fa0 = 1"
  by (subst print_stays_in_text_buffer) (simp_all add: VGA_BASE_def)

subsection \<open>clear_screen and the last column\<close>

lemma fold_store16_cells:
  assumes "n \<le> 4096" "i < 4096"
  shows "cell (fold (\<lambda>i. store16 (VGA_BASE + 2 * of_nat i) 0) [0..<n] m) i =
    (if i < n then 0 else cell m i)"
  using assms(1)
proof (induction n)
  case (Suc n)
  have "VGA_BASE + 2 * of_nat n = cell_addr n" by (simp add: cell_addr_def)
  with Suc show ?case using assms(2) by (auto simp: cell_store16)
qed simp

lemma cell_clear_screen:
  assumes "i < 4096"
  shows "cell (cmem (clear_screen con)) i = (if i \<le> 2000 then 0 else cell (cmem con) i)"
proof -
  have "Suc ncells \<le> 4096" "i < Suc ncells \<longleftrightarrow> i \<le> 2000" by (auto simp: ncells_def)
  then show ?thesis
    using assms fold_store16_cells [of "Suc ncells" i "cmem con"]
    by (simp add: clear_screen_def del: upt_Suc)
qed

lemma screen_of_clear_screen:
  "screen_of (clear_screen con) = \<lparr>cells = replicate ncells 0, col = 0, line = 0\<rparr>"
proof -
  have "map (cell (cmem (clear_screen con))) [0..<ncells] = replicate ncells 0"
    by (rule nth_equalityI) (simp_all add: cell_clear_screen)
  then show ?thesis by (simp add: screen_of_def) (simp add: clear_screen_def)
qed

text \<open>clear_screen leaves a blank screen with the cursor at the origin, and also zeroes cell 2000,
  the first one past the 80 x 25 cells, because its loop runs up to and including the bound; cell 2001
  is untouched.\<close>

theorem clear_screen_clears_one_cell_too_many:
  "screen_of (clear_screen con) = \<lparr>cells = replicate ncells 0, col = 0, line = 0\<rparr> \<and>
   cell (cmem (clear_screen con)) 2000 = 0 \<and>
   cell (cmem (clear_screen con)) 2001 = cell (cmem con) 2001"
  by (simp add: screen_of_clear_screen cell_clear_screen)

definition last_column_blank :: "screen \<Rightarrow> bool" where
  "last_column_blank s \<longleftrightarrow> length (cells s) = 2000 \<and> list_all (\<lambda>r. cells s ! (80 * r + 79) = 0) [0..<25]"

lemma last_column_blank_iff:
  "last_column_blank s \<longleftrightarrow> length (cells s) = 2000 \<and> (\<forall>r < 25. cells s ! (80 * r + 79) = 0)"
  by (auto simp: last_column_blank_def list_all_iff)

lemma put_char_last_column:
  assumes "last_column_blank s"
  shows "last_column_blank (put_char color ch s)"
proof -
  let ?s = "scroll_line (wrap_line s)"
  have shift: "(drop 80 xs @ replicate 80 0) ! (80 * r + 79) = (if r < 24 then xs ! (80 * Suc r + 79) else 0)"
    if "length xs = 2000" "r < 25" for xs :: "u16 list" and r
    using that by (simp add: nth_append algebra_simps)
  have "cells s ! (159 + 80 * r) = 0" if "r < 24" for r
    using assms that by (auto simp: last_column_blank_iff dest: spec [of _ "Suc r"])
  then have blank: "last_column_blank ?s"
    using assms by (auto simp: last_column_blank_iff scroll_line_def wrap_line_def shift)
  have "80 * unat (line ?s) + unat (col ?s) \<noteq> 80 * r + 79" for r
  proof
    assume eq: "80 * unat (line ?s) + unat (col ?s) = 80 * r + 79"
    have "unat (col ?s) < 79" using placed_cursor(1) [of s] by (simp add: word_less_nat_alt)
    moreover have "(80 * unat (line ?s) + unat (col ?s)) mod 80 = (80 * r + 79) mod 80"
      by (simp only: eq)
    ultimately show False by simp
  qed
  with blank show ?thesis
    using assms by (auto simp: put_char_def Let_def last_column_blank_iff)
qed

text \<open>After clear_screen no sequence of prints ever shows anything in the last column: the wrap test
  compares with MAX_COLUMN - 1, so a line holds 79 characters, not 80.\<close>

theorem last_column_never_used:
  "last_column_blank (screen_of (print color buf (clear_screen con)))"
proof -
  have "last_column_blank (fold (put_char color) cs s)" if "last_column_blank s" for cs s
    using that by (induction cs arbitrary: s) (auto simp: put_char_last_column)
  moreover have "last_column_blank (screen_of (clear_screen con))"
    by (simp add: screen_of_clear_screen last_column_blank_iff) (simp add: ncells_def)
  ultimately show ?thesis
    by (simp add: print_takeWhile screen_of_fold_print)
qed

subsection \<open>The cell of a character\<close>

text \<open>The stored cell holds the character code in its low byte and the colour above it; because
  char is signed, a character of 128 or more lowers the colour byte by one.\<close>

theorem glyph_encoding:
  "glyph color ch = push_bit 8 (if ch < 128 then color else color - 1) OR ucast ch"
proof -
  have small: "(scast ch :: u16) = (if ch < 128 then ucast ch else ucast ch - 256)"
  proof -
    have u: "uint ch < 256" using unsigned_less [of ch, where ?'a = int] by simp
    have d: "128 \<le> k \<Longrightarrow> k < 256 \<Longrightarrow> k div 128 = 1" for k :: int
      by presburger
    have "sint ch = (if uint ch < 128 then uint ch else uint ch - 256)"
      using u d [of "uint ch"] by (auto simp: sint_uint signed_take_bit_int_eq_self signed_take_bit_int_greater_eq_self_iff
          signed_take_bit_eq_take_bit_minus take_bit_int_eq_self bit_iff_odd)
    moreover have "(scast ch :: u16) = word_of_int (sint ch)" "(ucast ch :: u16) = word_of_int (uint ch)"
      by simp_all
    ultimately show ?thesis by (auto simp: word_less_def)
  qed
  have "push_bit 8 (color - 1) = push_bit 8 color - (256 :: u16)"
    by (simp add: push_bit_eq_mult algebra_simps)
  then have "glyph color ch = push_bit 8 (if ch < 128 then color else color - 1) + ucast ch"
    by (simp add: glyph_def small)
  also have "\<dots> = push_bit 8 (if ch < 128 then color else color - 1) OR ucast ch"
    by (rule disjunctive_add) (auto simp: bit_simps dest: bit_imp_le_length)
  finally show ?thesis .
qed

end
