(* ===== verification/Printf.thy ===== *)
theory Printf
  imports Console
begin

text \<open>
  The formatter of \<^verbatim>\<open>kernel/printk/printk.c\<close>: \<^verbatim>\<open>skip_atoi\<close>, \<^verbatim>\<open>number\<close>, \<^verbatim>\<open>numberk\<close>, \<^verbatim>\<open>vsprintf\<close>,
  \<^verbatim>\<open>_printf\<close> and the entry points \<^verbatim>\<open>kprintf\<close>, \<^verbatim>\<open>kerr_printf\<close>, \<^verbatim>\<open>kcolor_printf\<close>. Format strings and
  output are HOL strings. A variadic argument is a 64-bit slot, read as the conversion says; \<^verbatim>\<open>%s\<close>
  reads and \<^verbatim>\<open>%n\<close> writes the byte memory. The output buffer is a list that grows; \<^verbatim>\<open>_printf\<close> reports the
  overflow of its 512 bytes as an error instead of overwriting the stack.
\<close>

definition ZEROPAD :: u32 where "ZEROPAD = 1"
definition SIGN :: u32 where "SIGN = 2"
definition PLUS :: u32 where "PLUS = 4"
definition SPACE :: u32 where "SPACE = 8"
definition LEFT :: u32 where "LEFT = 16"
definition SPECIAL :: u32 where "SPECIAL = 32"
definition SMALL :: u32 where "SMALL = 64"

lemmas flag_defs = ZEROPAD_def SIGN_def PLUS_def SPACE_def LEFT_def SPECIAL_def SMALL_def

definition has :: "u32 \<Rightarrow> u32 \<Rightarrow> bool" where
  "has type f \<longleftrightarrow> type AND f \<noteq> 0"

definition is_digit :: "char \<Rightarrow> bool" where
  "is_digit c \<longleftrightarrow> (48 :: nat) \<le> of_char c \<and> of_char c \<le> (57 :: nat)"

datatype perr = NoArgument | NullString | BufferOverflow

subsection \<open>number\<close>

text \<open>\<^verbatim>\<open>while(size-- > 0) *str++ = c\<close>: the output and the final value of \<open>size\<close>.\<close>

function pad_while :: "int \<Rightarrow> char \<Rightarrow> string \<Rightarrow> string \<times> int" where
  "pad_while sz c out =
     (if 0 < sz then pad_while (sz - 1) c (out @ [c]) else (out, i32 (sz - 1)))"
  by pat_completeness auto
termination
  by (relation "measure (\<lambda>(sz, c, out). nat sz)") auto

text \<open>\<^verbatim>\<open>while(i < precision--) *str++ = '0'\<close>.\<close>

function zeros_while :: "int \<Rightarrow> int \<Rightarrow> string \<Rightarrow> string" where
  "zeros_while i precision out =
     (if i < precision then zeros_while i (precision - 1) (out @ ''0'') else out)"
  by pat_completeness auto
termination
  by (relation "measure (\<lambda>(i, precision, out). nat (precision - i))") auto

text \<open>\<^verbatim>\<open>while(i-- > 0) *str++ = tmp[i]\<close>.\<close>

fun emit_rev :: "string \<Rightarrow> nat \<Rightarrow> string" where
  "emit_rev tmp 0 = []"
| "emit_rev tmp (Suc i) = tmp ! i # emit_rev tmp i"

text \<open>The division of \<^verbatim>\<open>do_div\<close>, \<^verbatim>\<open>divq\<close> with a zero high half: quotient and remainder, unsigned.\<close>

definition do_div :: "u64 \<Rightarrow> u64 \<Rightarrow> u64 \<times> u64" where
  "do_div n base = (n div base, n mod base)"

text \<open>\<^verbatim>\<open>while (num!=0) tmp[i++]=digits[do_div(num,base)]\<close>: the digits, least significant first. The
  caller has checked the base; the second guard only makes the recursion total.\<close>

function digits_loop :: "string \<Rightarrow> u64 \<Rightarrow> u64 \<Rightarrow> string" where
  "digits_loop digits base num =
     (if num = 0 \<or> base < 2 then []
      else digits ! unat (snd (do_div num base)) # digits_loop digits base (fst (do_div num base)))"
  by pat_completeness auto
termination
  by (relation "measure (\<lambda>(digits, base, num). unat num)")
    (auto simp: do_div_def unat_div word_less_nat_alt unat_gt_0 intro!: div_less_dividend)

declare pad_while.simps [simp del] zeros_while.simps [simp del] digits_loop.simps [simp del]

definition upper_digits :: string where
  "upper_digits = ''0123456789ABCDEFGHIJKLMNOPQRSTUVWXYZ''"

definition lower_digits :: string where
  "lower_digits = ''0123456789abcdefghijklmnopqrstuvwxyz''"

text \<open>The output half of \<^verbatim>\<open>number\<close>, once the sign and the digits are known (the digits in \<open>tmp\<close> are
  least significant first): blanks, sign, prefix, fill, zeros up to the precision, digits, blanks.\<close>

definition number_emit ::
    "string \<Rightarrow> u32 \<Rightarrow> char \<Rightarrow> string \<Rightarrow> string \<Rightarrow> int \<Rightarrow> int \<Rightarrow> int \<Rightarrow> string" where
  "number_emit digits type c sign tmp base sz precision =
     (let i = int (length tmp);
          precision = (if precision < i then i else precision);
          sz = i32 (sz - precision);
          (out, sz) = (if type AND (ZEROPAD + LEFT) = 0 then pad_while sz CHR '' '' []
                       else ([], sz));
          out = out @ sign;
          out = (if has type SPECIAL
                 then if base = 8 then out @ ''0''
                      else if base = 16 then out @ [CHR ''0'', digits ! 33] else out
                 else out);
          (out, sz) = (if \<not> has type LEFT then pad_while sz c out else (out, sz));
          out = zeros_while i precision out;
          out = out @ emit_rev tmp (length tmp);
          (out, sz) = pad_while sz CHR '' '' out
      in out)"

text \<open>The result is the text appended at \<^verbatim>\<open>str\<close>, or \<open>None\<close> for the null pointer returned for a base
  outside 2 to 36. \<open>num\<close> is the \<^verbatim>\<open>long\<close> as a 64-bit word.\<close>

definition number :: "u64 \<Rightarrow> int \<Rightarrow> int \<Rightarrow> int \<Rightarrow> u32 \<Rightarrow> string option" where
  "number num base sz precision type =
     (let digits = (if has type SMALL then lower_digits else upper_digits);
          type = (if has type LEFT then type AND NOT ZEROPAD else type)
      in if base < 2 \<or> 36 < base then None
      else
        let c = (if has type ZEROPAD then CHR ''0'' else CHR '' '');
            neg = (has type SIGN \<and> sint num < 0);
            num = (if neg then - num else num);
            sign = (if neg then ''-'' else if has type PLUS then ''+''
                    else if has type SPACE then '' '' else []);
            sz = (if sign \<noteq> [] then i32 (sz - 1) else sz);
            sz = (if has type SPECIAL
                  then if base = 16 then i32 (sz - 2)
                       else if base = 8 then i32 (sz - 1) else sz
                  else sz);
            tmp = (if num = 0 then ''0'' else digits_loop digits (word_of_int base) num)
        in Some (number_emit digits type c sign tmp base sz precision))"

subsection \<open>numberk\<close>

text \<open>\<^verbatim>\<open>do { *--p = "0123456789abcdef"[n % base]; } while (n /= base)\<close> on signed 64-bit values; \<open>None\<close>
  for an index outside the table and for a base the division does not reduce. A negative \<open>n\<close> always
  reaches a negative remainder (its last quotient is its own remainder), so it is \<open>None\<close> at once.\<close>

definition hex_table :: string where "hex_table = ''0123456789abcdef''"

function numberk_loop :: "int \<Rightarrow> int \<Rightarrow> string \<Rightarrow> string option" where
  "numberk_loop base n p =
     (if base < 2 \<or> n mod base \<ge> 16 \<or> n < 0 then None
      else let p = hex_table ! nat (n mod base) # p; n = n div base
           in if n = 0 then Some p else numberk_loop base n p)"
  by pat_completeness auto
termination
proof (relation "measure (\<lambda>(base, n, p). nat n)", goal_cases)
  case (2 base n x y)
  then have "n \<noteq> 0" "2 \<le> base" "0 \<le> n" by auto
  then show ?case using int_div_less_self [of n base] by (simp add: 2 Let_def)
qed simp

declare numberk_loop.simps [simp del]

definition numberk :: "int \<Rightarrow> int \<Rightarrow> string option" where
  "numberk n base =
     (let neg = (n < 0 \<and> base \<noteq> 16);
          n = (if neg then signed_take_bit 63 (- n) else n)
      in map_option (\<lambda>t. (if neg then ''-'' else []) @ t)
           (if n = 0 then Some ''0'' else numberk_loop base n []))"

subsection \<open>Parsing a conversion specification\<close>

text \<open>The \<^verbatim>\<open>repeat\<close> loop over the flag characters after \<^verbatim>\<open>%\<close>.\<close>

fun parse_flags :: "string \<Rightarrow> u32 \<Rightarrow> u32 \<times> string" where
  "parse_flags [] flags = (flags, [])"
| "parse_flags (c # fmt) flags =
     (if c = CHR ''-'' then parse_flags fmt (flags OR LEFT)
      else if c = CHR ''+'' then parse_flags fmt (flags OR PLUS)
      else if c = CHR '' '' then parse_flags fmt (flags OR SPACE)
      else if c = CHR ''#'' then parse_flags fmt (flags OR SPECIAL)
      else if c = CHR ''0'' then parse_flags fmt (flags OR ZEROPAD)
      else (flags, c # fmt))"

fun skip_atoi :: "string \<Rightarrow> int \<Rightarrow> int \<times> string" where
  "skip_atoi [] i = (i, [])"
| "skip_atoi (c # fmt) i =
     (if is_digit c then skip_atoi fmt (i32 (i * 10 + of_char c - 48)) else (i, c # fmt))"

fun next_arg :: "u64 list \<Rightarrow> perr + u64 \<times> u64 list" where
  "next_arg [] = Inl NoArgument"
| "next_arg (a # args) = Inr (a, args)"

definition parse_width :: "string \<Rightarrow> u32 \<Rightarrow> u64 list \<Rightarrow> perr + int \<times> u32 \<times> string \<times> u64 list" where
  "parse_width fmt flags args =
     (case fmt of
        [] \<Rightarrow> Inr (- 1, flags, fmt, args)
      | c # fmt' \<Rightarrow>
          if is_digit c then let (w, rest) = skip_atoi fmt 0 in Inr (w, flags, rest, args)
          else if c = CHR ''*'' then
            case next_arg args of
              Inl e \<Rightarrow> Inl e
            | Inr (a, args) \<Rightarrow>
                let w = slot_int a
                in if w < 0 then Inr (i32 (- w), flags OR LEFT, fmt', args)
                   else Inr (w, flags, fmt', args)
          else Inr (- 1, flags, fmt, args))"

definition parse_precision :: "string \<Rightarrow> u64 list \<Rightarrow> perr + int \<times> string \<times> u64 list" where
  "parse_precision fmt args =
     (case fmt of
        [] \<Rightarrow> Inr (- 1, fmt, args)
      | c # fmt' \<Rightarrow>
          if c \<noteq> CHR ''.'' then Inr (- 1, fmt, args)
          else
            (case fmt' of
               [] \<Rightarrow> Inr (0, fmt', args)
             | d # fmt'' \<Rightarrow>
                 if is_digit d then
                   let (p, rest) = skip_atoi fmt' 0 in Inr (if p < 0 then 0 else p, rest, args)
                 else if d = CHR ''*'' then
                   (case next_arg args of
                      Inl e \<Rightarrow> Inl e
                    | Inr (a, args) \<Rightarrow>
                        let p = slot_int a in Inr (if p < 0 then 0 else p, fmt'', args))
                 else Inr (0, fmt', args)))"

fun parse_qualifier :: "string \<Rightarrow> char option \<times> string" where
  "parse_qualifier [] = (None, [])"
| "parse_qualifier (c # fmt) =
     (if c = CHR ''h'' \<or> c = CHR ''l'' \<or> c = CHR ''L'' \<or> c = CHR ''Z'' then (Some c, fmt)
      else (None, c # fmt))"

subsection \<open>vsprintf\<close>

record vst =
  vout :: string
  vargs :: "u64 list"
  vmem :: mem

text \<open>\<^verbatim>\<open>while(--field_width > 0) *str++ = ' '\<close> of \<^verbatim>\<open>%c\<close>, and \<^verbatim>\<open>while(len < field_width--) *str++ = ' '\<close> of
  \<^verbatim>\<open>%s\<close>: the output and the final width.\<close>

function char_pad :: "int \<Rightarrow> string \<Rightarrow> string \<times> int" where
  "char_pad w out =
     (let w' = i32 (w - 1) in if 0 < w' then char_pad w' (out @ '' '') else (out, w'))"
  by pat_completeness auto
termination
proof (relation "measure (\<lambda>(w, out). if - 2147483648 < w \<and> w \<le> 2147483648 then nat w else 4294967296)",
    goal_cases)
  case (2 w out x)
  have r: "- 2147483648 \<le> i32 k" "i32 k < 2147483648" for k
    using signed_take_bit_int_greater_eq_minus_exp [of 31 k] signed_take_bit_int_less_exp [of 31 k]
    by (simp_all add: i32_def)
  show ?case
    using r [of "w - 1"] 2 i32_id [of "w - 1"] by auto
qed simp

function str_pad :: "int \<Rightarrow> int \<Rightarrow> string \<Rightarrow> string \<times> int" where
  "str_pad len w out =
     (if len < w then str_pad len (w - 1) (out @ '' '') else (out, i32 (w - 1)))"
  by pat_completeness auto
termination
  by (relation "measure (\<lambda>(len, w, out). nat (w - len))") auto

declare char_pad.simps [simp del] str_pad.simps [simp del]

definition byte_char :: "u8 \<Rightarrow> char" where
  "byte_char b = char_of (unat b)"

definition with_arg :: "vst \<Rightarrow> (u64 \<Rightarrow> vst \<Rightarrow> perr + vst) \<Rightarrow> perr + vst" where
  "with_arg s f =
     (case next_arg (vargs s) of Inl e \<Rightarrow> Inl e | Inr (a, args) \<Rightarrow> f a (s\<lparr>vargs := args\<rparr>))"

definition put_number :: "u64 \<Rightarrow> int \<Rightarrow> int \<Rightarrow> int \<Rightarrow> u32 \<Rightarrow> vst \<Rightarrow> perr + vst" where
  "put_number num base w p flags s =
     (case number num base w p flags of
        None \<Rightarrow> Inl NullString
      | Some t \<Rightarrow> Inr (s\<lparr>vout := vout s @ t\<rparr>))"

text \<open>\<^verbatim>\<open>va_arg(args, unsigned long)\<close> with the qualifier \<^verbatim>\<open>l\<close>, \<^verbatim>\<open>va_arg(args, unsigned int)\<close> without.\<close>

definition int_arg :: "char option \<Rightarrow> u64 \<Rightarrow> u64" where
  "int_arg q a = (if q = Some CHR ''l'' then a else slot_uint a)"

definition conv_c :: "int \<Rightarrow> u32 \<Rightarrow> u64 \<Rightarrow> vst \<Rightarrow> vst" where
  "conv_c w flags a s =
     (let (out, w) = (if \<not> has flags LEFT then char_pad w (vout s) else (vout s, w));
          out = out @ [byte_char (ucast a)];
          (out, w) = char_pad w out
      in s\<lparr>vout := out\<rparr>)"

definition conv_s :: "int \<Rightarrow> int \<Rightarrow> u32 \<Rightarrow> u64 \<Rightarrow> vst \<Rightarrow> vst" where
  "conv_s w p flags a s =
     (let len = strlen a (vmem s);
          len = (if p < 0 then len else if p < len then p else len);
          (out, w) = (if \<not> has flags LEFT then str_pad len w (vout s) else (vout s, w));
          out = out @ map byte_char (load_bytes (vmem s) a (nat len));
          (out, w) = str_pad len w out
      in s\<lparr>vout := out\<rparr>)"

definition conv_n :: "char option \<Rightarrow> u64 \<Rightarrow> vst \<Rightarrow> vst" where
  "conv_n q a s =
     (let k = (if q = Some CHR ''l'' then 8 else 4)
      in s\<lparr>vmem := store_bytes (vmem s) a (bytes_of k (of_nat (length (vout s))))\<rparr>)"

definition convert ::
    "char \<Rightarrow> char option \<Rightarrow> int \<Rightarrow> int \<Rightarrow> u32 \<Rightarrow> vst \<Rightarrow> perr + vst" where
  "convert c q w p flags s =
     (if c = CHR ''c'' then with_arg s (\<lambda>a s. Inr (conv_c w flags a s))
      else if c = CHR ''s'' then with_arg s (\<lambda>a s. Inr (conv_s w p flags a s))
      else if c = CHR ''o'' then with_arg s (\<lambda>a. put_number (int_arg q a) 8 w p flags)
      else if c = CHR ''p'' then
        with_arg s (\<lambda>a. if w = - 1 then put_number a 16 16 p (flags OR ZEROPAD)
                         else put_number a 16 w p flags)
      else if c = CHR ''x'' then with_arg s (\<lambda>a. put_number (int_arg q a) 16 w p (flags OR SMALL))
      else if c = CHR ''X'' then with_arg s (\<lambda>a. put_number (int_arg q a) 16 w p flags)
      else if c = CHR ''d'' \<or> c = CHR ''i'' then
        with_arg s (\<lambda>a. put_number (int_arg q a) 10 w p (flags OR SIGN))
      else if c = CHR ''u'' then with_arg s (\<lambda>a. put_number (int_arg q a) 10 w p flags)
      else if c = CHR ''n'' then with_arg s (\<lambda>a s. Inr (conv_n q a s))
      else if c = CHR ''%'' then Inr (s\<lparr>vout := vout s @ ''%''\<rparr>)
      else Inr (s\<lparr>vout := vout s @ [CHR ''%'', c]\<rparr>))"

lemma length_parse_flags: "parse_flags fmt flags = (fl, rest) \<Longrightarrow> length rest \<le> length fmt"
  by (induction fmt flags rule: parse_flags.induct) (auto split: if_splits)

lemma length_skip_atoi: "skip_atoi fmt i = (n, rest) \<Longrightarrow> length rest \<le> length fmt"
  by (induction fmt i rule: skip_atoi.induct) (auto split: if_splits)

lemma length_parse_width:
  "parse_width fmt flags args = Inr (w, fl, rest, args') \<Longrightarrow> length rest \<le> length fmt"
  by (auto simp: parse_width_def Let_def dest!: length_skip_atoi
      split: list.splits if_splits prod.splits sum.splits)

lemma length_parse_precision:
  "parse_precision fmt args = Inr (p, rest, args') \<Longrightarrow> length rest \<le> length fmt"
  by (auto simp: parse_precision_def Let_def dest!: length_skip_atoi
      split: list.splits if_splits prod.splits sum.splits)

lemma length_parse_qualifier: "parse_qualifier fmt = (q, rest) \<Longrightarrow> length rest \<le> length fmt"
  by (cases fmt) (auto split: if_splits)

text \<open>The directive at \<open>fmt\<close>, just after \<^verbatim>\<open>%\<close>: the new state and where scanning goes on. At the end of
  the format the default branch emits \<^verbatim>\<open>%\<close> and steps back onto the terminator.\<close>

definition directive :: "string \<Rightarrow> vst \<Rightarrow> perr + vst \<times> string" where
  "directive fmt s =
     (let (flags, fmt) = parse_flags fmt 0
      in case parse_width fmt flags (vargs s) of
           Inl e \<Rightarrow> Inl e
         | Inr (w, flags, fmt, args) \<Rightarrow>
             (case parse_precision fmt args of
                Inl e \<Rightarrow> Inl e
              | Inr (p, fmt, args) \<Rightarrow>
                  (case parse_qualifier fmt of
                     (q, []) \<Rightarrow> Inr (s\<lparr>vout := vout s @ ''%'', vargs := args\<rparr>, [])
                   | (q, c # fmt) \<Rightarrow>
                       (case convert c q w p flags (s\<lparr>vargs := args\<rparr>) of
                          Inl e \<Rightarrow> Inl e
                        | Inr s \<Rightarrow> Inr (s, fmt)))))"

lemma length_directive: "directive fmt s = Inr (s', rest) \<Longrightarrow> length rest \<le> length fmt"
  unfolding directive_def
  by (auto simp: Let_def split: prod.splits sum.splits list.splits
      dest!: length_parse_flags length_parse_width length_parse_precision length_parse_qualifier)

function vsprintf_loop :: "string \<Rightarrow> vst \<Rightarrow> perr + vst" where
  "vsprintf_loop [] s = Inr s"
| "vsprintf_loop (c # fmt) s =
     (if c \<noteq> CHR ''%'' then vsprintf_loop fmt (s\<lparr>vout := vout s @ [c]\<rparr>)
      else case directive fmt s of
             Inl e \<Rightarrow> Inl e
           | Inr (s, rest) \<Rightarrow> vsprintf_loop rest s)"
  by pat_completeness auto
termination
  by (relation "measure (\<lambda>(fmt, s). length fmt)")
    (auto dest!: length_directive simp: less_Suc_eq_le)

text \<open>The format ends at the first zero character.\<close>

definition vsprintf :: "string \<Rightarrow> u64 list \<Rightarrow> mem \<Rightarrow> perr + vst" where
  "vsprintf fmt args m =
     vsprintf_loop (takeWhile (\<lambda>c. c \<noteq> CHR 0x00) fmt) \<lparr>vout = [], vargs = args, vmem = m\<rparr>"

subsection \<open>_printf and its callers\<close>

definition char_byte :: "char \<Rightarrow> u8" where
  "char_byte c = of_nat (of_char c)"

definition printf_color :: "u16 \<Rightarrow> string \<Rightarrow> u64 list \<Rightarrow> console \<Rightarrow> perr + console" where
  "printf_color color fmt args con =
     (case vsprintf fmt args (cmem con) of
        Inl e \<Rightarrow> Inl e
      | Inr s \<Rightarrow>
          if 512 \<le> length (vout s) then Inl BufferOverflow
          else Inr (print color (map char_byte (vout s)) (con\<lparr>cmem := vmem s\<rparr>)))"

definition WORD_RED :: u8 where "WORD_RED = 0x04"
definition WORD_WHITE :: u8 where "WORD_WHITE = 0x07"
definition WORD_BROWN :: u8 where "WORD_BROWN = 0x06"
definition WORD_YELLOW :: u8 where "WORD_YELLOW = 0x0E"

definition kcolor_printf :: "u8 \<Rightarrow> string \<Rightarrow> u64 list \<Rightarrow> console \<Rightarrow> perr + console" where
  "kcolor_printf color fmt args con = printf_color (ucast color) fmt args con"

definition kprintf :: "string \<Rightarrow> u64 list \<Rightarrow> console \<Rightarrow> perr + console" where
  "kprintf fmt args con = printf_color (ucast WORD_WHITE) fmt args con"

definition kerr_printf :: "string \<Rightarrow> u64 list \<Rightarrow> console \<Rightarrow> perr + console" where
  "kerr_printf fmt args con = printf_color (ucast WORD_RED) fmt args con"

text \<open>\<^verbatim>\<open>kerrorf\<close> prints in red and stays in an endless loop.\<close>

partial_function (option) endless :: "unit \<Rightarrow> 'a option" where
  "endless u = endless u"

definition kerrorf :: "string \<Rightarrow> u64 list \<Rightarrow> console \<Rightarrow> (perr + console) option" where
  "kerrorf fmt args con =
     (case printf_color (ucast WORD_RED) fmt args con of Inl e \<Rightarrow> Some (Inl e) | Inr con \<Rightarrow> endless ())"

lemma endless_none: "endless u = None"
proof -
  have "endless u = Some y \<Longrightarrow> False" for y :: 'a
    by (rule endless.raw_induct [where P = "\<lambda>_ _. False"])
  then show ?thesis by (cases "endless u :: 'a option") auto
qed

lemma kerrorf_never_returns: "kerrorf fmt args con \<noteq> Some (Inr con')"
  by (simp add: kerrorf_def endless_none split: sum.splits)

subsection \<open>Digits\<close>

lemma emit_rev_take: "n \<le> length tmp \<Longrightarrow> emit_rev tmp n = rev (take n tmp)"
  by (induction n) (auto simp: take_Suc_conv_app_nth)

lemma pad_while_eq: "pad_while n c out = (out @ replicate (nat n) c, if 0 < n then i32 (- 1) else i32 (n - 1))"
proof (induction n c out rule: pad_while.induct)
  case (1 n c out)
  show ?case
  proof (cases "0 < n")
    case True
    then have "nat n = Suc (nat (n - 1))" "n = 1 \<or> 1 < n" by auto
    then show ?thesis using True 1 by (subst pad_while.simps) auto
  next
    case False
    then show ?thesis by (subst pad_while.simps) auto
  qed
qed

lemma zeros_while_eq: "zeros_while i p out = out @ replicate (nat (p - i)) CHR ''0''"
proof (induction i p out rule: zeros_while.induct)
  case (1 i p out)
  show ?case
  proof (cases "i < p")
    case True
    then have "nat (p - i) = Suc (nat (p - 1 - i))" by simp
    then show ?thesis using True 1 by (subst zeros_while.simps) auto
  next
    case False
    then show ?thesis by (subst zeros_while.simps) auto
  qed
qed

lemma digits_loop_step:
  "num \<noteq> 0 \<Longrightarrow> 2 \<le> base \<Longrightarrow>
    digits_loop digits base num = digits ! unat (num mod base) # digits_loop digits base (num div base)"
  by (subst digits_loop.simps) (simp add: do_div_def not_less)

lemma digits_loop_stop: "digits_loop digits base 0 = []"
  by (subst digits_loop.simps) simp

text \<open>The value a digit string denotes.\<close>

definition digit_value :: "char \<Rightarrow> nat" where
  "digit_value c =
     (let n = of_char c :: nat
      in if 97 \<le> n then n - 87 else if 65 \<le> n then n - 55 else n - 48)"

definition digits_value :: "nat \<Rightarrow> string \<Rightarrow> nat" where
  "digits_value base ds = foldl (\<lambda>v c. v * base + digit_value c) 0 ds"

lemma digits_value_snoc [simp]:
  "digits_value base (ds @ [c]) = digits_value base ds * base + digit_value c"
  by (simp add: digits_value_def)

lemma digit_tables:
  assumes "d < 36"
  shows "digit_value (upper_digits ! d) = d" "digit_value (lower_digits ! d) = d"
proof -
  have "map digit_value upper_digits = [0..<36]" "map digit_value lower_digits = [0..<36]"
    by (simp_all add: upper_digits_def lower_digits_def digit_value_def upt_rec)
  moreover have "length upper_digits = 36" "length lower_digits = 36"
    by (simp_all add: upper_digits_def lower_digits_def)
  ultimately show "digit_value (upper_digits ! d) = d" "digit_value (lower_digits ! d) = d"
    using assms by (metis nth_map nth_upt add_0)+
qed

definition digit_table :: "u32 \<Rightarrow> string" where
  "digit_table type = (if has type SMALL then lower_digits else upper_digits)"

lemma digit_table_value: "d < 36 \<Longrightarrow> digit_value (digit_table type ! d) = d"
  by (simp add: digit_table_def digit_tables)

lemma digits_loop_value:
  assumes "2 \<le> base" "base \<le> 36"
  shows "digits_value (unat base) (rev (digits_loop (digit_table type) base num)) = unat num"
  using assms
proof (induction "digit_table type" base num rule: digits_loop.induct)
  case (1 base num)
  show ?case
  proof (cases "num = 0")
    case True
    then show ?thesis by (simp add: digits_loop_stop digits_value_def)
  next
    case False
    have "unat base \<le> 36" "0 < unat base"
      using 1 by (auto simp: word_le_nat_alt)
    then have "unat (num mod base) < 36"
      using less_le_trans [OF mod_less_divisor] by (simp add: unat_mod)
    moreover have "digits_value (unat base) (rev (digits_loop (digit_table type) base (num div base)))
        = unat (num div base)"
      using 1 False by (simp add: do_div_def not_less)
    ultimately show ?thesis
      using False 1(2) by (simp add: digits_loop_step digit_table_value unat_div unat_mod)
  qed
qed

lemma digits_loop_length:
  assumes "8 \<le> base" "unat num < 8 ^ k"
  shows "length (digits_loop digits base num) \<le> k"
  using assms
proof (induction k arbitrary: num)
  case 0
  then show ?case by (simp add: digits_loop_stop unat_eq_0)
next
  case (Suc k)
  show ?case
  proof (cases "num = 0")
    case True
    then show ?thesis by (simp add: digits_loop_stop)
  next
    case False
    have "8 \<le> unat base" using Suc.prems by (simp add: word_le_nat_alt)
    then have "unat (num div base) \<le> unat num div 8" by (simp add: unat_div div_le_mono2)
    also have "\<dots> < 8 ^ k" using Suc.prems by (simp add: less_mult_imp_div_less)
    finally show ?thesis
      using False Suc.IH [of "num div base"] Suc.prems(1)
      by (simp add: digits_loop_step order_trans [of 2 8 base])
  qed
qed

lemma digits_loop_nonempty: "num \<noteq> 0 \<Longrightarrow> 2 \<le> base \<Longrightarrow> digits_loop digits base num \<noteq> []"
  by (simp add: digits_loop_step)

subsection \<open>The layout of a printed number\<close>

definition shown_negative :: "u64 \<Rightarrow> u32 \<Rightarrow> bool" where
  "shown_negative num type \<longleftrightarrow> has type SIGN \<and> sint num < 0"

definition sign_text :: "u64 \<Rightarrow> u32 \<Rightarrow> string" where
  "sign_text num type =
     (if shown_negative num type then ''-'' else if has type PLUS then ''+''
      else if has type SPACE then '' '' else [])"

definition prefix_text :: "int \<Rightarrow> u32 \<Rightarrow> string" where
  "prefix_text base type =
     (if has type SPECIAL \<and> base = 8 then ''0''
      else if has type SPECIAL \<and> base = 16 then [CHR ''0'', digit_table type ! 33] else [])"

definition magnitude :: "u64 \<Rightarrow> u32 \<Rightarrow> u64" where
  "magnitude num type = (if shown_negative num type then - num else num)"

definition digits_text :: "u64 \<Rightarrow> int \<Rightarrow> u32 \<Rightarrow> string" where
  "digits_text num base type =
     (if magnitude num type = 0 then ''0''
      else rev (digits_loop (digit_table type) (word_of_int base) (magnitude num type)))"

text \<open>What a number should look like: sign, prefix, the digits with leading zeros up to the precision,
  filled to the width on the left with blanks, on the left after the prefix with zeros, or on the right.\<close>

definition number_layout :: "u64 \<Rightarrow> int \<Rightarrow> int \<Rightarrow> int \<Rightarrow> u32 \<Rightarrow> string" where
  "number_layout num base width precision type =
     (let ds = digits_text num base type;
          body = replicate (nat precision - length ds) CHR ''0'' @ ds;
          pre = sign_text num type @ prefix_text base type;
          fill = nat width - length (pre @ body)
      in if has type LEFT then pre @ body @ replicate fill CHR '' ''
         else if has type ZEROPAD then pre @ replicate fill CHR ''0'' @ body
         else replicate fill CHR '' '' @ pre @ body)"

lemma has_bits:
  "has t ZEROPAD \<longleftrightarrow> bit t 0" "has t SIGN \<longleftrightarrow> bit t 1" "has t PLUS \<longleftrightarrow> bit t 2"
  "has t SPACE \<longleftrightarrow> bit t 3" "has t LEFT \<longleftrightarrow> bit t 4" "has t SPECIAL \<longleftrightarrow> bit t 5"
  "has t SMALL \<longleftrightarrow> bit t 6"
proof -
  have "t AND 2 ^ k \<noteq> 0 \<longleftrightarrow> bit t k" for k by (simp add: and_exp_eq_0_iff_not_bit)
  from this [of 0] this [of 1] this [of 2] this [of 3] this [of 4] this [of 5] this [of 6]
  show "has t ZEROPAD \<longleftrightarrow> bit t 0" "has t SIGN \<longleftrightarrow> bit t 1" "has t PLUS \<longleftrightarrow> bit t 2"
    "has t SPACE \<longleftrightarrow> bit t 3" "has t LEFT \<longleftrightarrow> bit t 4" "has t SPECIAL \<longleftrightarrow> bit t 5"
    "has t SMALL \<longleftrightarrow> bit t 6"
    by (simp_all add: has_def flag_defs)
qed

lemma pad_flags: "t AND (ZEROPAD + LEFT) = 0 \<longleftrightarrow> \<not> has t ZEROPAD \<and> \<not> has t LEFT"
proof -
  have "ZEROPAD + LEFT = ZEROPAD OR LEFT" by (simp add: flag_defs)
  then show ?thesis by (auto simp: has_def bit.conj_disj_distrib or_eq_0_iff)
qed

lemma has_clear_zeropad:
  "has (t AND NOT ZEROPAD) ZEROPAD \<longleftrightarrow> False" "has (t AND NOT ZEROPAD) LEFT \<longleftrightarrow> has t LEFT"
  "has (t AND NOT ZEROPAD) SIGN \<longleftrightarrow> has t SIGN" "has (t AND NOT ZEROPAD) PLUS \<longleftrightarrow> has t PLUS"
  "has (t AND NOT ZEROPAD) SPACE \<longleftrightarrow> has t SPACE"
  "has (t AND NOT ZEROPAD) SPECIAL \<longleftrightarrow> has t SPECIAL"
  by (simp_all add: has_bits bit_simps) (simp_all add: ZEROPAD_def bit_1_iff)

lemma length_digits_text:
  assumes "8 \<le> base" "base \<le> 36"
  shows "length (digits_text num base type) \<le> 22" "0 < length (digits_text num base type)"
proof -
  have b: "(8 :: u64) \<le> word_of_int base"
    using assms by (simp add: word_le_def uint_word_of_int_eq take_bit_int_eq_self)
  have "unat (magnitude num type) < 8 ^ 22"
    using unsigned_less [of "magnitude num type", where ?'a = nat] by simp
  then show "length (digits_text num base type) \<le> 22"
    using digits_loop_length [OF b] by (simp add: digits_text_def)
  show "0 < length (digits_text num base type)"
    using digits_loop_nonempty [of "magnitude num type" "word_of_int base"]
      order_trans [OF _ b, of 2]
    by (auto simp: digits_text_def)
qed

lemma number_emit_layout:
  assumes "- 4 \<le> sz" "sz < 2147483648" "- 1 \<le> p" "p < 2147483000"
    and tmp: "tmp \<noteq> []" "length tmp \<le> 22"
    and ty: "has type LEFT \<Longrightarrow> \<not> has type ZEROPAD"
    and c: "c = (if has type ZEROPAD then CHR ''0'' else CHR '' '')"
    and pre: "pre = sign @ (if has type SPECIAL \<and> base = 8 then ''0''
      else if has type SPECIAL \<and> base = 16 then [CHR ''0'', digits ! 33] else [])"
    and body: "body = replicate (nat p - length tmp) CHR ''0'' @ rev tmp"
    and fill: "fill = nat (sz - int (length body))"
  shows "number_emit digits type c sign tmp base sz p =
    (if has type LEFT then pre @ body @ replicate fill CHR '' ''
     else if has type ZEROPAD then pre @ replicate fill CHR ''0'' @ body
     else replicate fill CHR '' '' @ pre @ body)"
proof -
  define q where "q = (if p < int (length tmp) then int (length tmp) else p)"
  have q: "int (length body) = q" "nat (q - int (length tmp)) = nat p - length tmp"
    using assms(3) by (auto simp: body q_def)
  define r where "r = i32 (sz - q)"
  have r: "r = sz - q"
    unfolding r_def using assms(1-4) tmp(2) by (intro i32_id) (auto simp: q_def)
  then have lo: "- 2147483040 \<le> r"
    using assms(1-4) tmp(2) by (auto simp: q_def)
  then have dec: "i32 (r - 1) = r - 1" "i32 (r - 2) = r - 2" if "\<not> 0 < r"
    using that by (simp_all add: i32_id)
  have neg: "i32 (- 1) = - 1" "i32 (- 2) = - 2" by (simp_all add: i32_id)
  have "fill = nat r" by (simp add: fill q(1) r)
  then show ?thesis
    unfolding number_emit_def Let_def q_def [symmetric] r_def [symmetric]
    using ty dec
    by (cases "0 < r")
      (auto simp: pad_flags pad_while_eq zeros_while_eq emit_rev_take c pre body q(2) neg)
qed

lemma number_layout_eq:
  assumes base: "8 \<le> base" "base \<le> 36"
    and w: "- 1 \<le> w" "w < 2147483648" and p: "- 1 \<le> p" "p < 2147483000"
  shows "number num base w p type = Some (number_layout num base w p type)"
proof -
  define t where "t = (if has type LEFT then type AND NOT ZEROPAD else type)"
  have t: "has t LEFT = has type LEFT" "has t SIGN = has type SIGN" "has t PLUS = has type PLUS"
    "has t SPACE = has type SPACE" "has t SPECIAL = has type SPECIAL"
    "has t ZEROPAD = (has type ZEROPAD \<and> \<not> has type LEFT)"
    by (auto simp: t_def has_clear_zeropad)
  define tmp where "tmp = (if magnitude num type = 0 then ''0''
      else digits_loop (digit_table type) (word_of_int base) (magnitude num type))"
  have ds: "digits_text num base type = rev tmp" by (simp add: digits_text_def tmp_def)
  have len: "length tmp \<le> 22" "tmp \<noteq> []"
    using length_digits_text [OF base, of num type] by (auto simp: ds)
  define pre where "pre = sign_text num type @ prefix_text base type"
  define body where "body = replicate (nat p - length tmp) CHR ''0'' @ rev tmp"
  define sz where "sz = w - int (length pre)"
  have "length pre \<le> 3"
    by (simp add: pre_def sign_text_def prefix_text_def)
  then have sz: "- 4 \<le> sz" "sz < 2147483648"
    using w by (auto simp: sz_def)
  have folds: "(if has type SIGN \<and> sint num < 0 then - num else num) = magnitude num type"
    "(if has type SIGN \<and> sint num < 0 then ''-'' else if has type PLUS then ''+''
      else if has type SPACE then '' '' else []) = sign_text num type"
    by (simp_all add: magnitude_def shown_negative_def sign_text_def)
  have "(if sign_text num type \<noteq> [] then i32 (w - 1) else w) = w - int (length (sign_text num type))"
    using w by (auto simp: sign_text_def i32_id)
  moreover have "- 1 - 1 \<le> w - int (length (sign_text num type))"
    using w by (simp add: sign_text_def)
  ultimately have size: "(if has type SPECIAL
      then if base = 16 then i32 ((if sign_text num type \<noteq> [] then i32 (w - 1) else w) - 2)
           else if base = 8 then i32 ((if sign_text num type \<noteq> [] then i32 (w - 1) else w) - 1)
           else (if sign_text num type \<noteq> [] then i32 (w - 1) else w)
      else (if sign_text num type \<noteq> [] then i32 (w - 1) else w)) = sz"
    using w by (auto simp: sz_def pre_def prefix_text_def i32_id)
  have "number num base w p type = Some (number_emit (digit_table type) t
      (if has t ZEROPAD then CHR ''0'' else CHR '' '') (sign_text num type) tmp base sz p)"
    unfolding number_def Let_def t_def [symmetric] digit_table_def [symmetric] t(2-5) folds
      tmp_def [symmetric] size
    using base by simp
  also have "number_emit (digit_table type) t (if has t ZEROPAD then CHR ''0'' else CHR '' '')
      (sign_text num type) tmp base sz p =
    (if has type LEFT then pre @ body @ replicate (nat (sz - int (length body))) CHR '' ''
     else if has type ZEROPAD then pre @ replicate (nat (sz - int (length body))) CHR ''0'' @ body
     else replicate (nat (sz - int (length body))) CHR '' '' @ pre @ body)"
    using number_emit_layout [OF sz p len(2,1) _ refl _ body_def refl, of t pre "sign_text num type"
        base "digit_table type"]
    by (simp add: t pre_def prefix_text_def)
  also have "nat (sz - int (length body)) = nat w - length (pre @ body)"
    by (simp add: sz_def)
  finally show ?thesis
    by (simp add: number_layout_def Let_def ds pre_def body_def)
qed

text \<open>C21: For every base the formatter uses, number produces sign, prefix, zeros and digits in the
  documented layout: left justified, zero padded or right justified to the field width.\<close>

theorem number_has_layout:
  assumes base: "8 \<le> base" "base \<le> 36"
    and w: "- 1 \<le> w" "w < 2147483648" and p: "- 1 \<le> p" "p < 2147483000"
  shows "number num base w p type = Some (number_layout num base w p type)"
  by (rule number_layout_eq [OF assms])

theorem number_has_layout_witness:
  "number 255 16 8 (- 1) (ZEROPAD OR SPECIAL OR SMALL) = Some ''0x0000ff''"
proof -
  have "number_layout 255 16 8 (- 1) (ZEROPAD OR SPECIAL OR SMALL) = ''0x0000ff''"
    by code_simp
  then show ?thesis
    using number_has_layout [of 16 8 "- 1" 255 "ZEROPAD OR SPECIAL OR SMALL"] by simp
qed

lemma digits_text_value:
  assumes "2 \<le> base" "base \<le> 36"
  shows "digits_value (nat base) (digits_text num base type) = unat (magnitude num type)"
proof -
  have "unat (word_of_int base :: u64) = nat base"
    using assms by (simp add: unsigned_of_int take_bit_int_eq_self)
  moreover have "(2 :: u64) \<le> word_of_int base" "(word_of_int base :: u64) \<le> 36"
    using assms by (simp_all add: word_le_def uint_word_of_int_eq take_bit_int_eq_self)
  ultimately show ?thesis
    using digits_loop_value [of "word_of_int base" type "magnitude num type"]
    by (auto simp: digits_text_def digits_value_def digit_value_def)
qed

lemma is_digit_table: "d < 10 \<Longrightarrow> is_digit (digit_table type ! d)"
proof -
  assume d: "d < 10"
  have "list_all is_digit (take 10 upper_digits)" "list_all is_digit (take 10 lower_digits)"
    by (simp_all add: upper_digits_def lower_digits_def is_digit_def)
  then have "list_all is_digit (take 10 (digit_table type))" by (simp add: digit_table_def)
  moreover have "digit_table type ! d \<in> set (take 10 (digit_table type))"
    using d nth_mem [of d "take 10 (digit_table type)"]
    by (simp add: digit_table_def upper_digits_def lower_digits_def)
  ultimately show ?thesis by (auto simp: list_all_iff)
qed

lemma digits_loop_decimal: "list_all is_digit (digits_loop (digit_table type) 10 num)"
proof (induction "digit_table type" "10 :: u64" num rule: digits_loop.induct)
  case (1 num)
  show ?case
  proof (cases "num = 0")
    case False
    have "unat (num mod 10) < 10" by (simp add: unat_mod)
    with 1 False show ?thesis by (simp add: digits_loop_step is_digit_table do_div_def)
  qed (simp add: digits_loop_stop)
qed

lemma digits_text_decimal: "list_all is_digit (digits_text num 10 type)"
  using digits_loop_decimal [of type "magnitude num type"]
  by (simp add: digits_text_def is_digit_def list_all_iff)

text \<open>Whatever the value, width, precision and flags, a printed number is exactly as wide as its
  field, or as wide as its sign, prefix, zeros and digits where these do not fit.\<close>

theorem number_width:
  assumes "8 \<le> base" "base \<le> 36" "- 1 \<le> w" "w < 2147483648" "- 1 \<le> p" "p < 2147483000"
  shows "map_option length (number num base w p type) =
    Some (max (nat w) (length (sign_text num type) + length (prefix_text base type)
      + max (nat p) (length (digits_text num base type))))"
  using number_layout_eq [OF assms, of num type]
  by (auto simp: number_layout_def Let_def max_def)

theorem number_width_witness:
  "map_option length (number 255 16 8 3 SMALL) = Some 8 \<and>
   map_option length (number (- 1) 10 5 (- 1) SIGN) = Some 5 \<and>
   map_option length (number 0xffffffff 16 4 (- 1) SPECIAL) = Some 10"
proof -
  have "length (sign_text 255 SMALL) = 0" "length (prefix_text 16 SMALL) = 0"
    "length (digits_text 255 16 SMALL) = 2" "length (sign_text (- 1) SIGN) = 1"
    "length (prefix_text 10 SIGN) = 0" "length (digits_text (- 1) 10 SIGN) = 1"
    "length (sign_text 0xffffffff SPECIAL) = 0" "length (prefix_text 16 SPECIAL) = 2"
    "length (digits_text 0xffffffff 16 SPECIAL) = 8"
    by code_simp+
  then show ?thesis
    using number_width [of 16 8 3 255 SMALL] number_width [of 10 5 "- 1" "- 1" SIGN]
      number_width [of 16 4 "- 1" "0xffffffff" SPECIAL] by simp
qed

subsection \<open>What the conversions print\<close>

lemma magnitude_plain: "\<not> has type SIGN \<Longrightarrow> magnitude num type = num"
  by (simp add: magnitude_def shown_negative_def)

lemma has_zero [simp]: "\<not> has 0 f"
  by (simp add: has_def)

lemma has_SIGN: "has SIGN SIGN" "\<not> has SIGN PLUS" "\<not> has SIGN SPACE" "\<not> has SIGN SPECIAL"
  "\<not> has SIGN LEFT" "\<not> has SIGN ZEROPAD" "\<not> has SIGN SMALL"
  by (simp_all add: has_def flag_defs)

lemma has_SMALL: "has SMALL SMALL" "\<not> has SMALL PLUS" "\<not> has SMALL SPACE" "\<not> has SMALL SPECIAL"
  "\<not> has SMALL LEFT" "\<not> has SMALL ZEROPAD" "\<not> has SMALL SIGN"
  by (simp_all add: has_def flag_defs)

lemmas bare_flags = has_SIGN has_SMALL

lemma number_bare:
  assumes "8 \<le> base" "base \<le> 36" "type \<in> {0, SIGN, SMALL}"
  shows "number num base (- 1) (- 1) type = Some (sign_text num type @ digits_text num base type)"
  using assms(3) number_layout_eq [OF assms(1,2), of "- 1" "- 1" num type]
  by (auto simp: number_layout_def prefix_text_def bare_flags Let_def)

lemma unat_slot_uint: "unat (slot_uint a) = unat (ucast a :: u32)"
  by (simp only: slot_uint_def unat_ucast_u32_u64)

lemma sint_slot_uint: "0 \<le> sint (slot_uint a)"
proof -
  have "uint (slot_uint a) = uint (ucast a :: u32)"
    using arg_cong [OF unat_slot_uint [of a], of int] by simp
  then have "uint (slot_uint a) < 2 ^ 63"
    using unsigned_less [of "ucast a :: u32", where ?'a = int] by simp
  moreover have "0 \<le> uint (slot_uint a)" by simp
  ultimately have "signed_take_bit 63 (uint (slot_uint a)) = uint (slot_uint a)"
    by (intro signed_take_bit_int_eq_self) linarith+
  then show ?thesis by (simp add: sint_uint)
qed

text \<open>A directive without flags, width, precision and qualifier, and one with the qualifier \<^verbatim>\<open>l\<close>.\<close>

definition conversion_char :: "char \<Rightarrow> bool" where
  "conversion_char c \<longleftrightarrow> \<not> is_digit c \<and> c \<notin> set ''-+ #0*.hlLZ''"

lemma conversion_charD:
  "conversion_char c \<Longrightarrow> \<not> is_digit c \<and> c \<noteq> CHR ''-'' \<and> c \<noteq> CHR ''+'' \<and> c \<noteq> CHR '' '' \<and>
    c \<noteq> CHR ''#'' \<and> c \<noteq> CHR ''0'' \<and> c \<noteq> CHR ''*'' \<and> c \<noteq> CHR ''.'' \<and>
    c \<noteq> CHR ''h'' \<and> c \<noteq> CHR ''l'' \<and> c \<noteq> CHR ''L'' \<and> c \<noteq> CHR ''Z''"
  by (simp add: conversion_char_def)

lemma directive_bare:
  assumes "conversion_char c"
  shows "directive (c # fmt) s =
    (case convert c None (- 1) (- 1) 0 s of Inl e \<Rightarrow> Inl e | Inr s \<Rightarrow> Inr (s, fmt))"
  using conversion_charD [OF assms]
  by (simp add: directive_def parse_width_def parse_precision_def)

lemma directive_long:
  assumes "conversion_char c"
  shows "directive (CHR ''l'' # c # fmt) s =
    (case convert c (Some CHR ''l'') (- 1) (- 1) 0 s of Inl e \<Rightarrow> Inl e | Inr s \<Rightarrow> Inr (s, fmt))"
  by (simp add: directive_def parse_width_def parse_precision_def is_digit_def)

lemma conversion_chars:
  "conversion_char CHR ''d''" "conversion_char CHR ''x''" "conversion_char CHR ''s''"
  "conversion_char CHR ''c''" "conversion_char CHR ''u''" "conversion_char CHR ''%''"
  by (simp_all add: conversion_char_def is_digit_def)

lemma convert_decimal:
  assumes "vargs s = a # args"
  shows "convert CHR ''d'' q (- 1) (- 1) 0 s =
    Inr (s\<lparr>vargs := args, vout := vout s @ sign_text (int_arg q a) SIGN @ digits_text (int_arg q a) 10 SIGN\<rparr>)"
  using assms by (simp add: convert_def with_arg_def put_number_def number_bare)

lemma convert_hex:
  assumes "vargs s = a # args"
  shows "convert CHR ''x'' q (- 1) (- 1) 0 s =
    Inr (s\<lparr>vargs := args, vout := vout s @ digits_text (int_arg q a) 16 SMALL\<rparr>)"
  using assms
  by (simp add: convert_def with_arg_def put_number_def number_bare sign_text_def shown_negative_def bare_flags)

text \<open>The conversion %d never prints a minus sign: its argument is fetched as an unsigned int and
  widened with zeros, so a negative int is shown as its value plus 2 to the 32.\<close>

theorem percent_d_prints_unsigned:
  "\<exists>ds. vsprintf ''%d'' [a] m = Inr \<lparr>vout = ds, vargs = [], vmem = m\<rparr> \<and>
     list_all is_digit ds \<and> digits_value 10 ds = unat (ucast a :: u32)"
proof -
  have sg: "\<not> shown_negative (slot_uint a) SIGN"
    using sint_slot_uint [of a] by (simp add: shown_negative_def)
  let ?ds = "digits_text (slot_uint a) 10 SIGN"
  have "vsprintf ''%d'' [a] m = Inr \<lparr>vout = ?ds, vargs = [], vmem = m\<rparr>"
    using sg by (simp add: vsprintf_def directive_bare conversion_chars convert_decimal int_arg_def sign_text_def bare_flags)
  moreover have "digits_value 10 ?ds = unat (ucast a :: u32)"
    using sg digits_text_value [of 10 "slot_uint a" SIGN]
    by (simp add: magnitude_def unat_slot_uint)
  ultimately show ?thesis using digits_text_decimal by blast
qed

text \<open>The conversion %ld prints every 64-bit value as its signed decimal, the most negative one
  included.\<close>

theorem percent_ld_prints_signed:
  "\<exists>sg ds. vsprintf ''%ld'' [a] m = Inr \<lparr>vout = sg @ ds, vargs = [], vmem = m\<rparr> \<and>
     list_all is_digit ds \<and>
     (sg, int (digits_value 10 ds)) = (if sint a < 0 then (''-'', - sint a) else ([], sint a))"
proof -
  let ?ds = "digits_text a 10 SIGN"
  have run: "vsprintf ''%ld'' [a] m =
      Inr \<lparr>vout = sign_text a SIGN @ ?ds, vargs = [], vmem = m\<rparr>"
    by (simp add: vsprintf_def directive_long conversion_chars convert_decimal int_arg_def)
  have "int (unat (magnitude a SIGN)) = \<bar>sint a\<bar>"
  proof (cases "sint a < 0")
    case True
    have "uint (- a) = take_bit 64 (- sint a)"
      using uint_word_of_int_eq [of "- sint a", where ?'a = 64] by simp
    then show ?thesis using True sint_greater_eq [of a]
      by (simp add: magnitude_def shown_negative_def bare_flags take_bit_int_eq_self)
  next
    case False
    then show ?thesis using uint_sint [of a] sint_lt [of a]
      by (simp add: magnitude_def shown_negative_def take_bit_int_eq_self)
  qed
  then have "int (digits_value 10 ?ds) = \<bar>sint a\<bar>"
    using digits_text_value [of 10 a SIGN] by simp
  then have "(sign_text a SIGN, int (digits_value 10 ?ds)) =
      (if sint a < 0 then (''-'', - sint a) else ([], sint a))"
    by (simp add: sign_text_def shown_negative_def bare_flags)
  then show ?thesis using run digits_text_decimal by blast
qed

subsection \<open>Literal text and the size of the output\<close>

lemma vsprintf_loop_literal:
  "list_all (\<lambda>c. c \<noteq> CHR ''%'') lit \<Longrightarrow>
    vsprintf_loop (lit @ fmt) s = vsprintf_loop fmt (s\<lparr>vout := vout s @ lit\<rparr>)"
  by (induction lit arbitrary: s) auto

definition plain_text :: "string \<Rightarrow> bool" where
  "plain_text t \<longleftrightarrow> list_all (\<lambda>c. c \<noteq> CHR ''%'' \<and> c \<noteq> CHR 0x00) t"

lemma vsprintf_plain: "plain_text t \<Longrightarrow> vsprintf t args m = Inr \<lparr>vout = t, vargs = args, vmem = m\<rparr>"
proof -
  assume t: "plain_text t"
  then have "takeWhile (\<lambda>c. c \<noteq> CHR 0x00) t = t"
    by (simp only: plain_text_def takeWhile_eq_all_conv list_all_iff) simp
  moreover have "list_all (\<lambda>c. c \<noteq> CHR ''%'') t"
    using t by (auto simp: plain_text_def list_all_iff)
  ultimately show ?thesis
    using vsprintf_loop_literal [of t "[]"] by (simp only: vsprintf_def) simp
qed

lemma kprintf_plain:
  assumes "plain_text t"
  shows "map_sum id screen_of (kprintf t [] con) =
    (if length t < 512 then Inr (put_string 0x07 (map char_byte t) (screen_of con))
     else Inl BufferOverflow)"
proof -
  have "con\<lparr>cmem := cmem con\<rparr> = con" by simp
  then show ?thesis
    using assms
    by (simp add: kprintf_def printf_color_def vsprintf_plain screen_of_print WORD_WHITE_def)
qed

text \<open>Text without directives is put on the screen as it is, in white on black, when it fits the
  buffer of 512 bytes with its terminator; longer text overruns that buffer.\<close>

theorem kprintf_plain_text:
  assumes "plain_text t"
  shows "map_sum id screen_of (kprintf t [] con) =
    (if length t < 512 then Inr (put_string 0x07 (map char_byte t) (screen_of con))
     else Inl BufferOverflow)"
  by (rule kprintf_plain [OF assms])

theorem kprintf_plain_text_witness:
  "let con = \<lparr>cmem = (\<lambda>_. 0), cur_x = 0, cur_y = 0\<rparr>
   in map_sum id screen_of (kprintf ''[info] '' [] con) =
        Inr (put_string 0x07 (map char_byte ''[info] '') (screen_of con)) \<and>
      map_sum id screen_of (kprintf (replicate 600 CHR ''a'') [] con) = Inl BufferOverflow"
proof -
  let ?con = "\<lparr>cmem = (\<lambda>_. 0), cur_x = 0, cur_y = 0\<rparr>"
  have "plain_text ''[info] ''" by (simp add: plain_text_def)
  moreover have "plain_text (replicate 600 CHR ''a'')"
    by (simp only: plain_text_def list_all_iff set_replicate_conv_if) simp
  ultimately show ?thesis
    using kprintf_plain_text [of "''[info] ''" ?con]
      kprintf_plain_text [of "replicate 600 CHR ''a''" ?con] by simp
qed

text \<open>The formats the kernel uses for numbers: literal text, \<^verbatim>\<open>%d\<close>, \<^verbatim>\<open>%x\<close> and their \<^verbatim>\<open>l\<close> forms. The count
  is that of the arguments used; \<open>None\<close> is any other format.\<close>

fun number_directives :: "string \<Rightarrow> nat option" where
  "number_directives [] = Some 0"
| "number_directives [c] = (if c = CHR ''%'' then None else Some 0)"
| "number_directives (c # d # fmt) =
     (if c \<noteq> CHR ''%'' then number_directives (d # fmt)
      else if d = CHR ''d'' \<or> d = CHR ''x'' then map_option Suc (number_directives fmt)
      else if d = CHR ''l'' then
        (case fmt of
           e # fmt \<Rightarrow> if e = CHR ''d'' \<or> e = CHR ''x'' then map_option Suc (number_directives fmt)
                      else None
         | [] \<Rightarrow> None)
      else None)"

lemma length_signed_decimal: "length (sign_text n SIGN @ digits_text n 10 SIGN) \<le> 23"
  using length_digits_text(1) [of 10 n SIGN] by (simp add: sign_text_def)

lemma number_conversion:
  assumes "d = CHR ''d'' \<or> d = CHR ''x''" "vargs s = a # args"
  shows "\<exists>t. convert d q (- 1) (- 1) 0 s = Inr (s\<lparr>vargs := args, vout := vout s @ t\<rparr>) \<and> length t \<le> 23"
  using assms length_signed_decimal [of "int_arg q a"] length_digits_text(1) [of 16 "int_arg q a" SMALL]
  by (auto simp: convert_decimal convert_hex)

lemma number_directive:
  assumes "d = CHR ''d'' \<or> d = CHR ''x''" "vargs s = a # args"
  shows "\<exists>t. directive (d # fmt) s = Inr (s\<lparr>vargs := args, vout := vout s @ t\<rparr>, fmt) \<and> length t \<le> 23"
    "\<exists>t. directive (CHR ''l'' # d # fmt) s = Inr (s\<lparr>vargs := args, vout := vout s @ t\<rparr>, fmt) \<and> length t \<le> 23"
proof -
  have "conversion_char d" using assms(1) conversion_chars by auto
  then show "\<exists>t. directive (d # fmt) s = Inr (s\<lparr>vargs := args, vout := vout s @ t\<rparr>, fmt) \<and> length t \<le> 23"
    "\<exists>t. directive (CHR ''l'' # d # fmt) s = Inr (s\<lparr>vargs := args, vout := vout s @ t\<rparr>, fmt) \<and> length t \<le> 23"
    using number_conversion [OF assms, of None] number_conversion [OF assms, of "Some CHR ''l''"]
    by (auto simp: directive_bare directive_long)
qed

lemma vsprintf_loop_numbers:
  assumes "number_directives fmt = Some n" "n \<le> length (vargs s)"
  shows "\<exists>t. vsprintf_loop fmt s = Inr (s\<lparr>vargs := drop n (vargs s), vout := vout s @ t\<rparr>) \<and>
    length t \<le> length fmt + 23 * n"
  using assms
proof (induction fmt arbitrary: s n rule: number_directives.induct)
  case 1
  then show ?case by (intro exI [of _ "[]"]) simp
next
  case (2 c)
  then show ?case by (intro exI [of _ "[c]"]) (auto split: if_splits)
next
  case (3 c d fmt)
  have step: "\<exists>t. vsprintf_loop rest s' = Inr (s\<lparr>vargs := drop n (vargs s), vout := vout s @ t\<rparr>) \<and>
      length t \<le> length rest + 23 * n"
    if t: "s' = s\<lparr>vargs := args, vout := vout s @ t\<rparr>" "length t \<le> 23" and n: "n = Suc k"
      and a: "vargs s = a # args"
      and IH: "\<exists>u. vsprintf_loop rest s' = Inr (s'\<lparr>vargs := drop k (vargs s'), vout := vout s' @ u\<rparr>) \<and>
        length u \<le> length rest + 23 * k" for rest s' args t k a
  proof -
    from IH obtain u where
      "vsprintf_loop rest s' = Inr (s'\<lparr>vargs := drop k (vargs s'), vout := vout s' @ u\<rparr>)"
      "length u \<le> length rest + 23 * k" by blast
    then show ?thesis using t n a by (intro exI [of _ "t @ u"]) simp
  qed
  show ?case
  proof (cases "c = CHR ''%''")
    case False
    then have "number_directives (d # fmt) = Some n" using 3 by simp
    then obtain t where "vsprintf_loop (d # fmt) (s\<lparr>vout := vout s @ [c]\<rparr>) =
        Inr (s\<lparr>vargs := drop n (vargs s), vout := vout s @ c # t\<rparr>)" "length t \<le> Suc (length fmt) + 23 * n"
      using 3(1) [OF False, of n "s\<lparr>vout := vout s @ [c]\<rparr>"] 3(5) by auto
    then show ?thesis using False by (intro exI [of _ "c # t"]) (simp del: vsprintf_loop.simps
        add: vsprintf_loop.simps(2) [of c])
  next
    case True
    then obtain k where k: "n = Suc k" using 3(4) by (auto split: if_splits list.splits)
    then obtain a args where a: "vargs s = a # args" using 3(5) by (cases "vargs s") auto
    consider (short) "d = CHR ''d'' \<or> d = CHR ''x''" "number_directives fmt = Some k"
      | (long) e rest where "d = CHR ''l''" "fmt = e # rest" "e = CHR ''d'' \<or> e = CHR ''x''"
        "number_directives rest = Some k"
      using 3(4) True k by (auto split: if_splits list.splits)
    then show ?thesis
    proof cases
      case short
      from number_directive(1) [OF short(1) a, of fmt] obtain t where
        t: "directive (d # fmt) s = Inr (s\<lparr>vargs := args, vout := vout s @ t\<rparr>, fmt)" "length t \<le> 23"
        by blast
      have "k \<le> length (vargs (s\<lparr>vargs := args, vout := vout s @ t\<rparr>))" using 3(5) a k by simp
      from step [OF refl t(2) k a 3(2) [OF _ short(1,2) this]] True t(1)
      show ?thesis by (auto intro: le_SucI)
    next
      case long
      from number_directive(2) [OF long(3) a, of rest] obtain t where
        t: "directive (d # fmt) s = Inr (s\<lparr>vargs := args, vout := vout s @ t\<rparr>, rest)" "length t \<le> 23"
        unfolding long(1,2) by blast
      have "k \<le> length (vargs (s\<lparr>vargs := args, vout := vout s @ t\<rparr>))" using 3(5) a k by simp
      from step [OF refl t(2) k a 3(3) [OF _ _ long(1,2,3,4) this]] True t(1) long(1,2)
      show ?thesis by (auto intro: le_SucI)
    qed
  qed
qed

lemma vsprintf_numbers:
  assumes "number_directives fmt = Some n" "n \<le> length args" "list_all (\<lambda>c. c \<noteq> CHR 0x00) fmt"
  shows "\<exists>t. vsprintf fmt args m = Inr \<lparr>vout = t, vargs = drop n args, vmem = m\<rparr> \<and>
    length t \<le> length fmt + 23 * n"
proof -
  have "takeWhile (\<lambda>c. c \<noteq> CHR 0x00) fmt = fmt"
    using assms(3) by (simp only: takeWhile_eq_all_conv list_all_iff)
  then show ?thesis
    using vsprintf_loop_numbers [of fmt n "\<lparr>vout = [], vargs = args, vmem = m\<rparr>"] assms(1,2)
    by (simp add: vsprintf_def del: takeWhile_eq_all_conv)
qed

text \<open>C32: A format made of text, %d, %x, %ld and %lx with enough arguments is always printed: no
  argument is missing and the output has at most the format's length plus 23 characters per number.\<close>

theorem number_formats_bounded:
  assumes "number_directives fmt = Some n" "n \<le> length args" "list_all (\<lambda>c. c \<noteq> CHR 0x00) fmt"
  shows "\<exists>t. vsprintf fmt args m = Inr \<lparr>vout = t, vargs = drop n args, vmem = m\<rparr> \<and>
    length t \<le> length fmt + 23 * n"
  by (rule vsprintf_numbers [OF assms])

theorem number_formats_bounded_witness:
  "\<exists>t. vsprintf ''a:%x b:%ld'' [5, 7, 9] (\<lambda>_. 0) =
     Inr \<lparr>vout = t, vargs = [9], vmem = (\<lambda>_. 0)\<rparr> \<and> length t \<le> 56"
  using number_formats_bounded [of "''a:%x b:%ld''" 2 "[5, 7, 9]" "\<lambda>_. 0"] by simp


subsection \<open>numberk against number\<close>

lemma hex_table_nth:
  assumes "d < 16"
  shows "hex_table ! d = lower_digits ! d"
proof -
  have "lower_digits = hex_table @ ''ghijklmnopqrstuvwxyz''" "length hex_table = 16"
    by (simp_all add: lower_digits_def hex_table_def)
  then show ?thesis using assms nth_append_left [of d hex_table] by metis
qed

lemma numberk_loop_digits:
  assumes "0 < n" "n < 2 ^ 63" "2 \<le> base" "base \<le> 16"
  shows "numberk_loop base n p =
    Some (rev (digits_loop lower_digits (word_of_int base) (word_of_int n)) @ p)"
  using assms
proof (induction base n p rule: numberk_loop.induct)
  case (1 base n p)
  have n: "uint (word_of_int n :: u64) = n" "uint (word_of_int base :: u64) = base"
    using 1(2-) by (simp_all add: uint_word_of_int_eq take_bit_int_eq_self)
  have nz: "(word_of_int n :: u64) \<noteq> 0" using n(1) 1(2) by auto
  have b2: "(2 :: u64) \<le> word_of_int base" using n(2) 1 by (simp add: word_le_def)
  have m: "n mod base < 16" "0 \<le> n mod base"
    using pos_mod_bound [of base n] pos_mod_sign [of base n] 1(4,5) by linarith+
  have mod: "unat (word_of_int n mod word_of_int base :: u64) = nat (n mod base)"
    by (simp only: unat_eq_nat_uint uint_mod n)
  have div: "(word_of_int n div word_of_int base :: u64) = word_of_int (n div base)"
    by (simp only: word_div_def n)
  have "digits_loop lower_digits (word_of_int base) (word_of_int n) =
      hex_table ! nat (n mod base) # digits_loop lower_digits (word_of_int base) (word_of_int (n div base))"
    using m by (simp add: digits_loop_step [OF nz b2] mod div hex_table_nth nat_less_iff)
  moreover have "numberk_loop base n p = (if n div base = 0 then Some (hex_table ! nat (n mod base) # p)
      else numberk_loop base (n div base) (hex_table ! nat (n mod base) # p))"
    using 1(2-) m by (subst numberk_loop.simps) (simp add: Let_def)
  moreover have "numberk_loop base (n div base) (hex_table ! nat (n mod base) # p) =
      Some (rev (digits_loop lower_digits (word_of_int base) (word_of_int (n div base))) @
        hex_table ! nat (n mod base) # p)" if "n div base \<noteq> 0"
  proof (rule 1(1) [OF _ refl refl that])
    show "\<not> (base < 2 \<or> 16 \<le> n mod base \<or> n < 0)" using 1(2-) m by simp
    have "0 \<le> n div base" using 1(2,4) by (simp add: pos_imp_zdiv_nonneg_iff)
    then show "0 < n div base" using that by simp
    show "n div base < 2 ^ 63"
      using 1(2-4) int_div_less_self [of n base] by linarith
  qed (use 1 in auto)
  ultimately show ?case by (auto simp: digits_loop_stop)
qed

text \<open>C30: The older printer numberk agrees with number, with the flags of a signed decimal and lower-case digits: for the
  bases 8 to 15 on every 64-bit value but the smallest, and in base 16 on every value that is not negative. (In
  base 16 a negative value indexes the digits with a negative remainder; the formatter uses no base below 8.)\<close>

theorem numberk_agrees_with_number:
  assumes "8 \<le> base" "base \<le> 16" "- (2 ^ 63) < n" "n < 2 ^ 63" "base = 16 \<Longrightarrow> 0 \<le> n"
  shows "numberk n base = number (word_of_int n) base (- 1) (- 1) (SIGN OR SMALL)"
proof -
  have fl: "has (SIGN OR SMALL) SIGN" "has (SIGN OR SMALL) SMALL" "\<not> has (SIGN OR SMALL) PLUS"
    "\<not> has (SIGN OR SMALL) SPACE" "\<not> has (SIGN OR SMALL) SPECIAL" "\<not> has (SIGN OR SMALL) LEFT"
    "\<not> has (SIGN OR SMALL) ZEROPAD"
    by (simp_all add: has_def flag_defs)
  have s: "sint (word_of_int n :: u64) = n"
    using assms(3,4) by (simp add: signed_of_int signed_take_bit_int_eq_self)
  have "number (word_of_int n) base (- 1) (- 1) (SIGN OR SMALL) =
      Some ((if n < 0 then ''-'' else []) @ digits_text (word_of_int n) base (SIGN OR SMALL))"
    using assms(1,2) by (subst number_layout_eq)
      (auto simp: number_layout_def sign_text_def prefix_text_def shown_negative_def fl s)
  moreover have "magnitude (word_of_int n) (SIGN OR SMALL) = word_of_int \<bar>n\<bar>"
    by (simp add: magnitude_def shown_negative_def fl s)
  moreover have "(word_of_int \<bar>n\<bar> :: u64) = 0 \<longleftrightarrow> n = 0"
    using assms(3,4) uint_word_of_int_eq [of "\<bar>n\<bar>", where ?'a = 64]
    by (auto simp: take_bit_int_eq_self)
  moreover have "signed_take_bit 63 (- n) = - n" if "n < 0"
    using that assms(3) by (simp add: signed_take_bit_int_eq_self)
  ultimately show ?thesis
    using assms numberk_loop_digits [of "\<bar>n\<bar>" base "[]"]
    by (auto simp: numberk_def digits_text_def digit_table_def fl Let_def)
qed

theorem numberk_agrees_with_number_witness: "numberk (- 120) 10 = Some ''-120''"
proof -
  have "number (word_of_int (- 120)) 10 (- 1) (- 1) (SIGN OR SMALL) = Some ''-120''"
    by code_simp
  then show ?thesis using numberk_agrees_with_number [of 10 "- 120"] by simp
qed

end
