(* ===== verification/Machine.thy ===== *)
theory Machine
  imports Printf
begin

text \<open>
  What the components outside the console share: the machine they drive through
  \<^verbatim>\<open>kernel/lib/lib.c\<close> and \<^verbatim>\<open>include/lib.h\<close> (port accesses, \<^verbatim>\<open>cli\<close>, \<^verbatim>\<open>sti\<close>, \<^verbatim>\<open>wrmsr\<close>) and the message
  macros of \<^verbatim>\<open>include/kprint.h\<close>. A component's state extends the record \<open>machine\<close>; everything the
  code does to the outside is an event appended to its trace. What the devices answer is a stream
  that the model leaves arbitrary: \<open>dev n\<close> is the value of the n-th port read.
\<close>

datatype event =
    Out8 u16 u8 | Out16 u16 u16 | Out32 u16 u32
  | In8 u16 u8 | In16 u16 u16 | In32 u16 u32
  | Cli | Sti
  | Wrmsr u64 u32 u32
  | Ltr u64
  | ClearScreen
  | Printk u8 string "u64 list"

record machine =
  trace :: "event list"
  dev :: "nat \<Rightarrow> u32"
  reads :: nat

definition emit :: "event \<Rightarrow> 'a machine_scheme \<Rightarrow> 'a machine_scheme" where
  "emit e s = s\<lparr>trace := trace s @ [e]\<rparr>"

subsection \<open>lib.c and lib.h\<close>

definition io_out8 :: "u16 \<Rightarrow> u8 \<Rightarrow> 'a machine_scheme \<Rightarrow> 'a machine_scheme" where
  "io_out8 port v s = emit (Out8 port v) s"

definition io_out16 :: "u16 \<Rightarrow> u16 \<Rightarrow> 'a machine_scheme \<Rightarrow> 'a machine_scheme" where
  "io_out16 port v s = emit (Out16 port v) s"

definition io_out32 :: "u16 \<Rightarrow> u32 \<Rightarrow> 'a machine_scheme \<Rightarrow> 'a machine_scheme" where
  "io_out32 port v s = emit (Out32 port v) s"

text \<open>A narrow read leaves the low bits of the device's answer in the register.\<close>

definition io_in8 :: "u16 \<Rightarrow> 'a machine_scheme \<Rightarrow> u8 \<times> 'a machine_scheme" where
  "io_in8 port s =
     (let v = ucast (dev s (reads s)) in (v, emit (In8 port v) (s\<lparr>reads := Suc (reads s)\<rparr>)))"

definition io_in16 :: "u16 \<Rightarrow> 'a machine_scheme \<Rightarrow> u16 \<times> 'a machine_scheme" where
  "io_in16 port s =
     (let v = ucast (dev s (reads s)) in (v, emit (In16 port v) (s\<lparr>reads := Suc (reads s)\<rparr>)))"

definition io_in32 :: "u16 \<Rightarrow> 'a machine_scheme \<Rightarrow> u32 \<times> 'a machine_scheme" where
  "io_in32 port s =
     (let v = dev s (reads s) in (v, emit (In32 port v) (s\<lparr>reads := Suc (reads s)\<rparr>)))"

definition cli :: "'a machine_scheme \<Rightarrow> 'a machine_scheme" where
  "cli s = emit Cli s"

definition sti :: "'a machine_scheme \<Rightarrow> 'a machine_scheme" where
  "sti s = emit Sti s"

text \<open>\<^verbatim>\<open>wrmsr\<close> passes the value in two halves, \<^verbatim>\<open>edx\<close> and \<^verbatim>\<open>eax\<close>.\<close>

definition wrmsr :: "u64 \<Rightarrow> u64 \<Rightarrow> 'a machine_scheme \<Rightarrow> 'a machine_scheme" where
  "wrmsr address v s = emit (Wrmsr address (ucast (drop_bit 32 v)) (ucast (v AND 0xffffffff))) s"

subsection \<open>kprint.h\<close>

definition log_printf :: "string \<Rightarrow> u64 list \<Rightarrow> 'a machine_scheme \<Rightarrow> 'a machine_scheme" where
  "log_printf fmt args s = emit (Printk WORD_WHITE fmt args) s"

definition log_err_printf :: "string \<Rightarrow> u64 list \<Rightarrow> 'a machine_scheme \<Rightarrow> 'a machine_scheme" where
  "log_err_printf fmt args s = emit (Printk WORD_RED fmt args) s"

definition log_color_printf :: "u8 \<Rightarrow> string \<Rightarrow> u64 list \<Rightarrow> 'a machine_scheme \<Rightarrow> 'a machine_scheme" where
  "log_color_printf color fmt args s = emit (Printk color fmt args) s"

definition newline :: char where
  "newline = CHR 0x0A"

definition kinfo :: "string \<Rightarrow> u64 list \<Rightarrow> 'a machine_scheme \<Rightarrow> 'a machine_scheme" where
  "kinfo fmt args s = log_printf fmt args (log_printf ''[info] '' [] s)"

text \<open>\<open>file\<close> is the address of the string \<^verbatim>\<open>__FILE__\<close>, \<open>nr\<close> the value of \<^verbatim>\<open>__LINE__\<close>.\<close>

definition kdebug :: "u64 \<Rightarrow> u64 \<Rightarrow> string \<Rightarrow> u64 list \<Rightarrow> 'a machine_scheme \<Rightarrow> 'a machine_scheme" where
  "kdebug file nr fmt args s =
     log_color_printf WORD_BROWN fmt args
       (log_color_printf WORD_BROWN ''[debug] (%s:%d) '' [file, nr] s)"

definition kwarn :: "string \<Rightarrow> u64 list \<Rightarrow> 'a machine_scheme \<Rightarrow> 'a machine_scheme" where
  "kwarn fmt args s =
     log_color_printf WORD_YELLOW fmt args (log_color_printf WORD_YELLOW ''[warn] '' [] s)"

definition kerror :: "string \<Rightarrow> u64 list \<Rightarrow> 'a machine_scheme \<Rightarrow> 'a machine_scheme" where
  "kerror fmt args s = log_err_printf fmt args (log_err_printf ''[error] '' [] s)"

text \<open>What the messages of a trace, and a cleared screen, do to the console.\<close>

fun show_event :: "event \<Rightarrow> console \<Rightarrow> perr + console" where
  "show_event (Printk color fmt args) con = kcolor_printf color fmt args con"
| "show_event ClearScreen con = Inr (clear_screen con)"
| "show_event _ con = Inr con"

fun show_events :: "event list \<Rightarrow> console \<Rightarrow> perr + console" where
  "show_events [] con = Inr con"
| "show_events (e # es) con =
     (case show_event e con of Inl x \<Rightarrow> Inl x | Inr con \<Rightarrow> show_events es con)"

lemma show_printf [simp]: "show_event (Printk WORD_WHITE fmt args) con = kprintf fmt args con"
  by (simp add: kprintf_def kcolor_printf_def)

lemma show_err_printf [simp]: "show_event (Printk WORD_RED fmt args) con = kerr_printf fmt args con"
  by (simp add: kerr_printf_def kcolor_printf_def)

lemma show_events_append:
  "show_events (es @ fs) con =
     (case show_events es con of Inl x \<Rightarrow> Inl x | Inr con \<Rightarrow> show_events fs con)"
  by (induction es arbitrary: con) (auto split: sum.splits)

lemma trace_emit [simp]: "trace (emit e s) = trace s @ [e]"
  by (simp add: emit_def)

lemma dev_emit [simp]: "dev (emit e s) = dev s" "reads (emit e s) = reads s"
  by (simp_all add: emit_def)

lemma emit_more [simp]: "machine.more (emit e s) = machine.more s"
  by (simp add: emit_def)

lemmas message_defs = kinfo_def kdebug_def kwarn_def kerror_def log_printf_def log_err_printf_def
  log_color_printf_def

lemmas port_defs = io_out8_def io_out16_def io_out32_def cli_def sti_def wrmsr_def

lemma message_trace [simp]:
  "trace (kinfo fmt args s) = trace s @ [Printk WORD_WHITE ''[info] '' [], Printk WORD_WHITE fmt args]"
  "trace (kerror fmt args s) = trace s @ [Printk WORD_RED ''[error] '' [], Printk WORD_RED fmt args]"
  "machine.more (kinfo fmt args s) = machine.more s"
  "machine.more (kerror fmt args s) = machine.more s"
  "machine.more (kdebug file nr fmt args s) = machine.more s"
  by (simp_all add: message_defs)

end
