(* ===== verification/PageFrame.thy ===== *)
theory PageFrame
  imports Machine
begin

text \<open>
  The page frames of \<^verbatim>\<open>include/mm.h\<close>: the address macros, the records of the memory descriptor
  \<^verbatim>\<open>gmdsc\<close>, and \<^verbatim>\<open>page_init\<close> of \<^verbatim>\<open>mm/mm.c\<close>. The three tables the kernel places behind its image (the
  bitmap, the page structures, the zones) are functions from an index to an element; the
  theory MemInit proves that their places do not overlap. A pointer to a page structure is its index
  from \<^verbatim>\<open>pages_struct\<close> modulo 2 to the 64, so that \<^verbatim>\<open>pages_struct - 1\<close> is the index \<open>- 1\<close>. A pointer to a
  zone is \<open>Some\<close> index, or \<open>None\<close> for the null pointer that a cleared page structure holds; what is
  stored at address 0 is the zone of \<open>None\<close>.
\<close>

subsection \<open>Addresses\<close>

definition KERNEL_VIRADDR :: u64 where "KERNEL_VIRADDR = 0xffff800000000000"
definition PAGE_4K_SIZE :: u64 where "PAGE_4K_SIZE = push_bit 12 1"
definition PAGE_4K_MASK :: u64 where "PAGE_4K_MASK = NOT (PAGE_4K_SIZE - 1)"

definition PAGE_4K_ALIGN :: "u64 \<Rightarrow> u64" where
  "PAGE_4K_ALIGN addr = (addr + PAGE_4K_SIZE - 1) AND PAGE_4K_MASK"

definition PHY2VIR :: "u64 \<Rightarrow> u64" where
  "PHY2VIR addr = KERNEL_VIRADDR OR addr"

definition VIR2PHY :: "u64 \<Rightarrow> u64" where
  "VIR2PHY addr = NOT KERNEL_VIRADDR AND addr"

subsection \<open>The memory descriptor\<close>

record e820_t =
  e820_addr :: u64
  e820_len :: u64
  e820_type :: u32

definition E820_TYPE_AVAILABLE :: u32 where "E820_TYPE_AVAILABLE = 1"

definition PG_PTable_Maped :: u64 where "PG_PTable_Maped = 1"
definition PG_Kernel_Init :: u64 where "PG_Kernel_Init = 2"
definition PG_Referenced :: u64 where "PG_Referenced = 4"
definition PG_Active :: u64 where "PG_Active = 16"
definition PG_Kernel :: u64 where "PG_Kernel = 128"
definition PG_K_Share_To_U :: u64 where "PG_K_Share_To_U = 256"

lemmas page_flag_defs = PG_PTable_Maped_def PG_Kernel_Init_def PG_Referenced_def PG_Active_def
  PG_Kernel_def PG_K_Share_To_U_def

record mm_page =
  phy_addr :: u64
  attribute :: u64
  ref_count :: u64
  age :: u64
  zone :: "u64 option"

record mm_zone =
  pages_group :: u64
  zone_pages_length :: u64
  zone_start_addr :: u64
  zone_end_addr :: u64
  zone_length :: u64
  zone_attribute :: u64
  page_using_count :: u64
  page_free_count :: u64
  total_pages_link :: u64

record mm_descriptor =
  e820 :: "u64 \<Rightarrow> e820_t"
  e820_num :: u64
  e820_available_size :: u64
  page_bits :: u64
  page_bits_size :: u64
  page_bits_length :: u64
  pages_struct :: u64
  pages_size :: u64
  pages_length :: u64
  zones_struct :: u64
  zones_size :: u64
  zones_length :: u64
  total_mem_length :: u64
  kernel_start_phyaddr :: u64
  kernel_end_phyaddr :: u64
  end_of_struct :: u64
  start_text :: u64
  end_text :: u64
  start_data :: u64
  end_data :: u64
  start_rodata :: u64
  end_rodata :: u64
  start_bss :: u64
  end_bss :: u64
  start_stack :: u64

record mm_state = machine +
  Global_CR3 :: u64
  gmdsc :: mm_descriptor
  bits :: "u64 \<Rightarrow> u64"
  pages :: "u64 \<Rightarrow> mm_page"
  zones :: "u64 option \<Rightarrow> mm_zone"

lemma emit_mm [simp]:
  "gmdsc (emit e s) = gmdsc s" "bits (emit e s) = bits s" "pages (emit e s) = pages s"
  "zones (emit e s) = zones s" "Global_CR3 (emit e s) = Global_CR3 s"
  "emit e (s\<lparr>bits := bs\<rparr>) = (emit e s)\<lparr>bits := bs\<rparr>"
  by (simp_all add: emit_def)

subsection \<open>page_init\<close>

text \<open>The bit of the frame at \<open>a\<close> set, as \<^verbatim>\<open>*(page_bits + ((a >> 12) >> 6)) |= 1UL << (a >> 12) % 64\<close>.\<close>

definition frame_bit :: "u64 \<Rightarrow> u64" where
  "frame_bit a = push_bit (unat (drop_bit 12 a mod 64)) 1"

definition mark_frame :: "u64 \<Rightarrow> (u64 \<Rightarrow> u64) \<Rightarrow> u64 \<Rightarrow> u64" where
  "mark_frame a bs = (let w = drop_bit 6 (drop_bit 12 a) in bs(w := bs w OR frame_bit a))"

definition page_init :: "u64 \<Rightarrow> u64 \<Rightarrow> 'a mm_state_scheme \<Rightarrow> 'a mm_state_scheme" where
  "page_init page flags s =
     (let p = pages s page
      in if attribute p = 0 then
           let bs = mark_frame (phy_addr p) (bits s);
               p = p\<lparr>attribute := flags, ref_count := ref_count p + 1\<rparr>;
               z = zones s (zone p);
               z = z\<lparr>page_using_count := page_using_count z + 1,
                     page_free_count := page_free_count z - 1,
                     total_pages_link := total_pages_link z + 1\<rparr>
           in s\<lparr>bits := bs, pages := (pages s)(page := p), zones := (zones s)(zone p := z)\<rparr>
         else if attribute p AND PG_Referenced \<noteq> 0 \<or> attribute p AND PG_K_Share_To_U \<noteq> 0
               \<or> flags AND PG_Referenced \<noteq> 0 \<or> flags AND PG_K_Share_To_U \<noteq> 0 then
           let p = p\<lparr>attribute := attribute p OR flags, ref_count := ref_count p + 1\<rparr>;
               z = zones s (zone p);
               z = z\<lparr>total_pages_link := total_pages_link z + 1\<rparr>
           in s\<lparr>pages := (pages s)(page := p), zones := (zones s)(zone p := z)\<rparr>
         else
           s\<lparr>bits := mark_frame (phy_addr p) (bits s),
             pages := (pages s)(page := p\<lparr>attribute := attribute p OR flags\<rparr>)\<rparr>)"

subsection \<open>Aligning and moving between the address spaces\<close>

lemma PAGE_4K_SIZE_eq: "PAGE_4K_SIZE = 4096"
  by (simp add: PAGE_4K_SIZE_def)

lemma and_page_mask: "a AND PAGE_4K_MASK = push_bit 12 (drop_bit 12 a)"
proof -
  have "a AND NOT (mask 12) = push_bit 12 (drop_bit 12 a)"
    by (rule bit_eqI) (auto simp: bit_simps dest: bit_imp_le_length)
  moreover have "PAGE_4K_MASK = NOT (mask 12)"
    by (simp add: PAGE_4K_MASK_def PAGE_4K_SIZE_def mask_eq_exp_minus_1)
  ultimately show ?thesis by (simp only:)
qed

lemma unat_and_page_mask: "unat (a AND PAGE_4K_MASK) = unat a div 4096 * 4096"
proof -
  have "unat a div 4096 * 4096 < 2 ^ 64"
    using unsigned_less [of a, where ?'a = nat] by simp
  then have "take_bit 64 (unat a div 4096 * 4096) = unat a div 4096 * 4096"
    by (simp only: take_bit_nat_eq_self)
  moreover have "take_bit 64 (unat a) = unat a"
    using unsigned_less [of a, where ?'a = nat] by (simp add: take_bit_nat_eq_self)
  then have "unat (a AND PAGE_4K_MASK) = take_bit 64 (push_bit 12 (drop_bit 12 (unat a)))"
    by (simp only: and_page_mask unsigned_push_bit_eq unsigned_drop_bit_eq) simp
  ultimately show ?thesis by (simp add: push_bit_eq_mult drop_bit_eq_div)
qed

lemma unat_PAGE_4K_ALIGN:
  assumes "unat a + 4095 < 2 ^ 64"
  shows "unat (PAGE_4K_ALIGN a) = (unat a + 4095) div 4096 * 4096"
proof -
  have "unat (a + 4095) = unat a + 4095"
    using assms unat_add_lem [of a "4095 :: u64"] by simp
  then show ?thesis
    by (simp add: PAGE_4K_ALIGN_def unat_and_page_mask PAGE_4K_SIZE_eq add.commute)
qed

lemma PAGE_4K_ALIGN_least:
  assumes "unat a + 4095 < 2 ^ 64"
  shows "4096 dvd unat (PAGE_4K_ALIGN a)" "unat a \<le> unat (PAGE_4K_ALIGN a)"
    "4096 dvd m \<Longrightarrow> unat a \<le> m \<Longrightarrow> unat (PAGE_4K_ALIGN a) \<le> m"
    "unat (PAGE_4K_ALIGN a) < unat a + 4096"
proof -
  note eq = unat_PAGE_4K_ALIGN [OF assms]
  show "4096 dvd unat (PAGE_4K_ALIGN a)" by (simp add: eq)
  show "unat a \<le> unat (PAGE_4K_ALIGN a)" unfolding eq by linarith
  show "unat (PAGE_4K_ALIGN a) < unat a + 4096" unfolding eq by linarith
  show "unat (PAGE_4K_ALIGN a) \<le> m" if m: "4096 dvd m" "unat a \<le> m"
  proof -
    obtain k where "m = 4096 * k" using m(1) by (elim dvdE)
    moreover have "(4096 * k + 4095) div 4096 = k" by simp
    ultimately show ?thesis
      using m(2) div_le_mono [of "unat a + 4095" "4096 * k + 4095" 4096] by (simp add: eq)
  qed
qed

lemma KERNEL_VIRADDR_mask: "KERNEL_VIRADDR = NOT (mask 47)"
  by (simp add: KERNEL_VIRADDR_def mask_eq_exp_minus_1)

lemma VIR2PHY_PHY2VIR: "VIR2PHY (PHY2VIR a) = take_bit 47 a"
  unfolding VIR2PHY_def PHY2VIR_def KERNEL_VIRADDR_mask
  by (rule bit_eqI) (auto simp: bit_simps)

subsection \<open>Frames in the bitmap\<close>

definition frame_used :: "(u64 \<Rightarrow> u64) \<Rightarrow> u64 \<Rightarrow> bool" where
  "frame_used bs f \<longleftrightarrow> bit (bs (drop_bit 6 f)) (unat (f mod 64))"

lemma mod_64_eq: "f mod 64 = take_bit 6 (f :: u64)"
  by (simp add: take_bit_eq_mod)

lemma frame_position: "drop_bit 6 f = drop_bit 6 g \<and> f mod 64 = g mod 64 \<longleftrightarrow> f = (g :: u64)"
  using bits_ident [of 6 f] bits_ident [of 6 g] by (metis mod_64_eq)

lemma frame_used_mark [simp]:
  "frame_used (mark_frame a bs) g \<longleftrightarrow> frame_used bs g \<or> g = drop_bit 12 a"
proof -
  have "unat (g mod 64) < 64" by (simp add: unat_mod)
  then have "bit (frame_bit a) (unat (g mod 64)) \<longleftrightarrow> g mod 64 = drop_bit 12 a mod 64"
    by (auto simp: frame_bit_def bit_simps simp flip: word_unat_eq_iff)
  then show ?thesis
    using frame_position [of g "drop_bit 12 a"]
    by (auto simp: frame_used_def mark_frame_def Let_def bit_or_iff)
qed

lemma push_drop_frame: "drop_bit 12 (push_bit 12 f) = take_bit 52 (f :: u64)"
  by (rule bit_eqI) (auto simp: bit_simps dest: bit_imp_le_length)

subsection \<open>The books of the frames\<close>

text \<open>
  The frames of a zone are those whose page structure points to it. The books are right when every
  such structure holds the address of its frame, the bitmap marks exactly the frames with a nonzero
  attribute, and the zone's counters are the numbers of used and free frames and of references.
\<close>

definition frames_of :: "'a mm_state_scheme \<Rightarrow> u64 option \<Rightarrow> u64 set" where
  "frames_of s z = {f. f < pages_size (gmdsc s) \<and> zone (pages s f) = z}"

definition used_of :: "'a mm_state_scheme \<Rightarrow> u64 option \<Rightarrow> u64 set" where
  "used_of s z = {f \<in> frames_of s z. attribute (pages s f) \<noteq> 0}"

definition owned_frames :: "'a mm_state_scheme \<Rightarrow> u64 set" where
  "owned_frames s = {f. f < pages_size (gmdsc s) \<and> zone (pages s f) \<noteq> None}"

definition used_frames :: "'a mm_state_scheme \<Rightarrow> u64 set" where
  "used_frames s = {f \<in> owned_frames s. attribute (pages s f) \<noteq> 0}"

definition zone_counted :: "'a mm_state_scheme \<Rightarrow> u64 option \<Rightarrow> bool" where
  "zone_counted s z \<longleftrightarrow>
     page_using_count (zones s z) = of_nat (card (used_of s z)) \<and>
     page_free_count (zones s z) = of_nat (card (frames_of s z - used_of s z)) \<and>
     total_pages_link (zones s z) = (\<Sum>f \<in> frames_of s z. ref_count (pages s f))"

definition frame_recorded :: "'a mm_state_scheme \<Rightarrow> u64 \<Rightarrow> bool" where
  "frame_recorded s f \<longleftrightarrow>
     phy_addr (pages s f) = push_bit 12 f \<and> take_bit 52 f = f \<and>
     (frame_used (bits s) f \<longleftrightarrow> attribute (pages s f) \<noteq> 0)"

definition books_right :: "'a mm_state_scheme \<Rightarrow> bool" where
  "books_right s \<longleftrightarrow>
     (\<forall>f \<in> owned_frames s. frame_recorded s f \<and> zone_counted s (zone (pages s f)))"

lemma page_init_simps [simp]:
  "gmdsc (page_init f flags s) = gmdsc s"
  "trace (page_init f flags s) = trace s"
  "zone (pages (page_init f flags s) g) = zone (pages s g)"
  "phy_addr (pages (page_init f flags s) g) = phy_addr (pages s g)"
  "attribute (pages (page_init f flags s) g) =
     (if g = f then attribute (pages s f) OR flags else attribute (pages s g))"
  by (auto simp: page_init_def Let_def)

lemma page_init_frames [simp]:
  "frames_of (page_init f flags s) z = frames_of s z"
  "owned_frames (page_init f flags s) = owned_frames s"
  by (simp_all add: frames_of_def owned_frames_def)

lemma or_eq_0_iff_u64: "a OR b = 0 \<longleftrightarrow> a = 0 \<and> b = (0 :: u64)"
  by (metis or_eq_0_iff)

lemma used_of_page_init:
  assumes "flags \<noteq> 0 \<or> attribute (pages s f) \<noteq> 0"
  shows "used_of (page_init f flags s) z =
    (if f \<in> frames_of s z then insert f (used_of s z) else used_of s z)"
  using assms by (auto simp: used_of_def or_eq_0_iff_u64)

lemma used_frames_page_init:
  assumes "f \<in> owned_frames s"
  shows "used_frames (page_init f flags s) = (if flags = 0 then used_frames s else insert f (used_frames s))"
  using assms by (auto simp: used_frames_def or_eq_0_iff_u64)

text \<open>What one call does to a page's reference count, to the bitmap and to the zone of the page.\<close>

lemma page_init_fresh:
  assumes "attribute (pages s f) = 0"
  shows "ref_count (pages (page_init f flags s) g) =
      (if g = f then ref_count (pages s f) + 1 else ref_count (pages s g))"
    "bits (page_init f flags s) = mark_frame (phy_addr (pages s f)) (bits s)"
    "zones (page_init f flags s) = (zones s)(zone (pages s f) := (zones s (zone (pages s f)))
       \<lparr>page_using_count := page_using_count (zones s (zone (pages s f))) + 1,
        page_free_count := page_free_count (zones s (zone (pages s f))) - 1,
        total_pages_link := total_pages_link (zones s (zone (pages s f))) + 1\<rparr>)"
  using assms by (auto simp: page_init_def Let_def)

definition shared_init :: "u64 \<Rightarrow> u64 \<Rightarrow> bool" where
  "shared_init attr flags \<longleftrightarrow>
     (attr OR flags) AND PG_Referenced \<noteq> 0 \<or> (attr OR flags) AND PG_K_Share_To_U \<noteq> 0"

lemma shared_init_iff:
  "shared_init attr flags \<longleftrightarrow> attr AND PG_Referenced \<noteq> 0 \<or> attr AND PG_K_Share_To_U \<noteq> 0 \<or>
     flags AND PG_Referenced \<noteq> 0 \<or> flags AND PG_K_Share_To_U \<noteq> 0"
  by (auto simp: shared_init_def or_eq_0_iff_u64 bit.conj_disj_distrib2)

lemma page_init_again:
  assumes "attribute (pages s f) \<noteq> 0"
  shows "ref_count (pages (page_init f flags s) g) =
      (if g = f \<and> shared_init (attribute (pages s f)) flags then ref_count (pages s f) + 1
       else ref_count (pages s g))"
    "bits (page_init f flags s) =
      (if shared_init (attribute (pages s f)) flags then bits s
       else mark_frame (phy_addr (pages s f)) (bits s))"
    "zones (page_init f flags s) = (if shared_init (attribute (pages s f)) flags
       then (zones s)(zone (pages s f) := (zones s (zone (pages s f)))
         \<lparr>total_pages_link := total_pages_link (zones s (zone (pages s f))) + 1\<rparr>)
       else zones s)"
  using assms by (auto simp: page_init_def Let_def shared_init_iff)

lemma sum_bump_one:
  assumes "finite F"
  shows "(\<Sum>g\<in>F. if g = f \<and> b then r f + 1 else r g) = (\<Sum>g\<in>F. r g) + (if f \<in> F \<and> b then 1 else (0 :: u64))"
proof -
  have "(\<Sum>g\<in>F. if g = f \<and> b then r f + 1 else r g) = (\<Sum>g\<in>F. r g + (if g = f then if b then 1 else 0 else 0))"
    by (rule sum.cong) auto
  then show ?thesis using assms by (simp add: sum.distrib sum.delta)
qed

lemma zone_counted_page_init:
  assumes ok: "zone_counted s z" and flags: "flags \<noteq> 0 \<or> attribute (pages s f) \<noteq> 0" and f: "f < pages_size (gmdsc s)"
  shows "zone_counted (page_init f flags s) z"
proof -
  let ?F = "frames_of s z" and ?U = "used_of s z" and ?s = "page_init f flags s"
  have fin: "finite ?F" "finite ?U" by simp_all
  show ?thesis
  proof (cases "zone (pages s f) = z")
    case False
    then have out: "f \<notin> ?F" by (simp add: frames_of_def)
    have "ref_count (pages ?s g) = ref_count (pages s g)" if "g \<in> ?F" for g
      using that out by (cases "attribute (pages s f) = 0") (auto simp: page_init_fresh page_init_again)
    moreover have "zones ?s z = zones s z"
      using False by (cases "attribute (pages s f) = 0") (auto simp: page_init_fresh page_init_again)
    ultimately show ?thesis
      using ok out flags by (simp add: zone_counted_def used_of_page_init)
  next
    case True
    then have member: "f \<in> ?F" using f by (simp add: frames_of_def)
    show ?thesis
    proof (cases "attribute (pages s f) = 0")
      case fresh: True
      then have new: "f \<notin> ?U" "insert f ?U \<subseteq> ?F" using member by (auto simp: used_of_def)
      then have "?F - ?U = insert f (?F - insert f ?U)" using member by auto
      then have "card (?F - ?U) = Suc (card (?F - insert f ?U))"
        using fin by (metis Diff_iff card_insert_disjoint finite_Diff insertI1)
      moreover have "card (insert f ?U) = Suc (card ?U)" using new fin by simp
      ultimately show ?thesis
        using ok flags member fin sum_bump_one [OF fin(1), of f True "\<lambda>g. ref_count (pages s g)"]
        by (simp add: zone_counted_def used_of_page_init page_init_fresh [OF fresh] True)
    next
      case again: False
      then have "insert f ?U = ?U" using member by (auto simp: used_of_def)
      then show ?thesis
        using ok flags member fin
          sum_bump_one [OF fin(1), of f "shared_init (attribute (pages s f)) flags" "\<lambda>g. ref_count (pages s g)"]
        by (simp add: zone_counted_def used_of_page_init page_init_again [OF again] True)
    qed
  qed
qed

lemma frame_recorded_page_init:
  assumes "frame_recorded s g" "frame_recorded s f" "flags \<noteq> 0 \<or> attribute (pages s f) \<noteq> 0"
  shows "frame_recorded (page_init f flags s) g"
proof -
  have "drop_bit 12 (phy_addr (pages s f)) = f"
    using assms(2) by (simp add: frame_recorded_def push_drop_frame)
  then show ?thesis
    using assms
    by (cases "attribute (pages s f) = 0")
      (auto simp: frame_recorded_def page_init_fresh page_init_again or_eq_0_iff_u64)
qed

lemma page_init_books:
  assumes "books_right s" "f \<in> owned_frames s"
  shows "books_right (page_init f flags s) \<longleftrightarrow> flags \<noteq> 0 \<or> f \<in> used_frames s"
proof
  assume "flags \<noteq> 0 \<or> f \<in> used_frames s"
  then have "flags \<noteq> 0 \<or> attribute (pages s f) \<noteq> 0" by (auto simp: used_frames_def)
  with assms show "books_right (page_init f flags s)"
    by (auto simp: books_right_def owned_frames_def intro!: frame_recorded_page_init zone_counted_page_init)
next
  assume right: "books_right (page_init f flags s)"
  show "flags \<noteq> 0 \<or> f \<in> used_frames s"
  proof (rule ccontr)
    assume "\<not> (flags \<noteq> 0 \<or> f \<in> used_frames s)"
    then have free: "flags = 0" "attribute (pages s f) = 0" using assms(2) by (auto simp: used_frames_def)
    have "frame_recorded s f" using assms by (auto simp: books_right_def)
    then have "frame_used (bits (page_init f flags s)) f"
      by (simp add: page_init_fresh(2) [OF free(2)] frame_recorded_def push_drop_frame)
    moreover have "frame_recorded (page_init f flags s) f" using right assms(2) by (auto simp: books_right_def)
    ultimately show False using free by (simp add: frame_recorded_def)
  qed
qed

subsection \<open>The contract of page initialisation\<close>

text \<open>
  What the two loops over \<^verbatim>\<open>page_init\<close> need from it, in the construction of the tables and in the
  allocator: it keeps an invariant on the frames a zone owns, and makes exactly its frame a used one.
\<close>

locale frame_store =
  fixes init :: "u64 \<Rightarrow> u64 \<Rightarrow> 's \<Rightarrow> 's"
    and inv :: "'s \<Rightarrow> bool"
    and owned :: "'s \<Rightarrow> u64 set"
    and taken :: "'s \<Rightarrow> u64 set"
  assumes init_owned: "owned (init f flags s) = owned s"
    and init_inv: "inv s \<Longrightarrow> f \<in> owned s \<Longrightarrow> flags \<noteq> 0 \<Longrightarrow> inv (init f flags s)"
    and init_taken: "f \<in> owned s \<Longrightarrow> flags \<noteq> 0 \<Longrightarrow> taken (init f flags s) = insert f (taken s)"
begin

lemma init_all:
  assumes "inv s" "set fs \<subseteq> owned s" "flags \<noteq> 0"
  shows "inv (fold (\<lambda>f. init f flags) fs s)"
    "owned (fold (\<lambda>f. init f flags) fs s) = owned s"
    "taken (fold (\<lambda>f. init f flags) fs s) = set fs \<union> taken s"
  using assms by (induction fs arbitrary: s) (auto simp: init_owned init_inv init_taken)

lemma init_all_again:
  assumes "inv s" "set fs \<subseteq> owned s" "flags \<noteq> 0" "x \<in> owned s" "x \<notin> set fs" "x \<notin> taken s"
  shows "x \<notin> taken (fold (\<lambda>f. init f flags) fs s)"
  using assms by (simp add: init_all)

end

interpretation frames: frame_store page_init books_right owned_frames used_frames
  by unfold_locales (simp_all add: page_init_books used_frames_page_init)

subsection \<open>Properties\<close>

text \<open>PAGE_4K_ALIGN rounds an address up to the least multiple of 4096 that is not below it, for
  every address that a page fits behind.\<close>

theorem page_align_is_least_multiple:
  assumes "unat a + 4095 < 2 ^ 64"
  shows "4096 dvd unat (PAGE_4K_ALIGN a) \<and> unat a \<le> unat (PAGE_4K_ALIGN a) \<and>
    (\<forall>m. 4096 dvd m \<longrightarrow> unat a \<le> m \<longrightarrow> unat (PAGE_4K_ALIGN a) \<le> m)"
  using PAGE_4K_ALIGN_least [OF assms] by blast

theorem page_align_is_least_multiple_witness:
  "PAGE_4K_ALIGN 0x1001 = 0x2000 \<and> 0x1001 \<le> unat (PAGE_4K_ALIGN 0x1001) \<and> 4096 dvd unat (PAGE_4K_ALIGN 0x1001)"
proof -
  have "PAGE_4K_ALIGN 0x1001 = 0x2000" by code_simp
  then show ?thesis using page_align_is_least_multiple [of "0x1001"] by simp
qed

text \<open>Moving a physical address into the kernel half and back gives its low 47 bits, so it is the
  identity on every address below 2 to the 47.\<close>

theorem phy_vir_roundtrip:
  "VIR2PHY (PHY2VIR a) = take_bit 47 a \<and> KERNEL_VIRADDR \<le> PHY2VIR a"
proof -
  have "KERNEL_VIRADDR \<le> PHY2VIR a"
    unfolding PHY2VIR_def by (rule le_word_or2)
  then show ?thesis using VIR2PHY_PHY2VIR by blast
qed

text \<open>A small state for concrete runs: zone 0 owns the frames 64 to 67, all free.\<close>

definition empty_descriptor :: mm_descriptor where
  "empty_descriptor = \<lparr>e820 = (\<lambda>_. \<lparr>e820_addr = 0, e820_len = 0, e820_type = 0\<rparr>), e820_num = 0,
     e820_available_size = 0, page_bits = 0, page_bits_size = 0, page_bits_length = 0,
     pages_struct = 0, pages_size = 0, pages_length = 0, zones_struct = 0, zones_size = 0,
     zones_length = 0, total_mem_length = 0, kernel_start_phyaddr = 0, kernel_end_phyaddr = 0,
     end_of_struct = 0, start_text = 0, end_text = 0, start_data = 0, end_data = 0,
     start_rodata = 0, end_rodata = 0, start_bss = 0, end_bss = 0, start_stack = 0\<rparr>"

definition four_frames :: mm_state where
  "four_frames = \<lparr>trace = [], dev = (\<lambda>_. 0), reads = 0, Global_CR3 = 0,
     gmdsc = empty_descriptor\<lparr>pages_size := 68, zones_size := 1\<rparr>,
     bits = (\<lambda>w. if w = 1 then 0xfffffffffffffff0 else 0xffffffffffffffff),
     pages = (\<lambda>f. \<lparr>phy_addr = push_bit 12 f, attribute = 0, ref_count = 0, age = 0,
                      zone = (if 64 \<le> f \<and> f < 68 then Some 0 else None)\<rparr>),
     zones = (\<lambda>_. \<lparr>pages_group = 64, zone_pages_length = 4, zone_start_addr = 0x40000,
        zone_end_addr = 0x44000, zone_length = 0x4000, zone_attribute = 0, page_using_count = 0,
        page_free_count = 4, total_pages_link = 0\<rparr>)\<rparr>"

lemma four_frames_interval: "{f :: u64. 64 \<le> f \<and> f < 68} = {64, 65, 66, 67}"
  unfolding u64_interval set_upt [symmetric] by (simp add: upt_rec_numeral)

lemma four_frames_fields [simp]:
  "phy_addr (pages four_frames f) = push_bit 12 f" "attribute (pages four_frames f) = 0"
  "ref_count (pages four_frames f) = 0"
  "zone (pages four_frames f) = (if 64 \<le> f \<and> f < 68 then Some 0 else None)"
  "pages_size (gmdsc four_frames) = 68" "zones_size (gmdsc four_frames) = 1"
  "page_using_count (zones four_frames z) = 0" "page_free_count (zones four_frames z) = 4"
  "total_pages_link (zones four_frames z) = 0" "zone_start_addr (zones four_frames z) = 0x40000"
  "zone_end_addr (zones four_frames z) = 0x44000"
  "bits four_frames w = (if w = 1 then 0xfffffffffffffff0 else 0xffffffffffffffff)"
  by (simp_all add: four_frames_def)

lemma four_frames_sets:
  "owned_frames four_frames = {64, 65, 66, 67}" "used_frames four_frames = {}"
  "frames_of four_frames (Some 0) = {64, 65, 66, 67}" "used_of four_frames (Some 0) = {}"
proof -
  have "{f :: u64. f < 68 \<and> 64 \<le> f \<and> f < 68} = {64, 65, 66, 67}"
    unfolding four_frames_interval [symmetric] by blast
  then have *: "{f :: u64. f < 68 \<and> (64 \<le> f \<longrightarrow> f < 68) \<and> 64 \<le> f} = {64, 65, 66, 67}"
    by blast
  show "owned_frames four_frames = {64, 65, 66, 67}" "used_frames four_frames = {}"
    "frames_of four_frames (Some 0) = {64, 65, 66, 67}" "used_of four_frames (Some 0) = {}"
    using four_frames_interval * by (auto simp: owned_frames_def used_frames_def frames_of_def used_of_def)
qed

lemma four_frames_books: "books_right four_frames"
  unfolding books_right_def four_frames_sets
  by (auto simp: frame_recorded_def zone_counted_def four_frames_sets frame_used_def)

text \<open>C22: page_init on a frame that a zone owns keeps the books right exactly when the flags are not 0 or the
  frame is in use already: then the bitmap marks exactly the frames in use and the zone's counts of used and
  free frames and of references stay exact, whether the frame was free, is shared again or is flagged again.
  Flags that are not 0 make it a used frame. The flags 0 on a free frame mark and count a frame whose structure
  still says that it is free.\<close>

theorem page_init_keeps_books:
  assumes "books_right s" "f \<in> owned_frames s"
  shows "(books_right (page_init f flags s) \<longleftrightarrow> flags \<noteq> 0 \<or> f \<in> used_frames s) \<and>
    owned_frames (page_init f flags s) = owned_frames s \<and>
    used_frames (page_init f flags s) = (if flags = 0 then used_frames s else insert f (used_frames s))"
  using page_init_books [OF assms] used_frames_page_init [OF assms(2)] by simp

theorem page_init_keeps_books_witness:
  "books_right (page_init 65 PG_Kernel four_frames) \<and>
   used_frames (page_init 65 PG_Kernel four_frames) = {65} \<and> \<not> books_right (page_init 65 0 four_frames)"
  using page_init_keeps_books [of four_frames 65 PG_Kernel] page_init_keeps_books [of four_frames 65 0]
  by (simp add: four_frames_books four_frames_sets PG_Kernel_def)

end
