(* ===== verification/MemInit.thy ===== *)
theory MemInit
  imports PageFrame
begin

text \<open>
  \<^verbatim>\<open>mm/mm.c\<close>: the placement of the bitmap, the page structures and the zones behind the kernel image,
  and \<^verbatim>\<open>construct_mem_struct\<close>, which builds a zone for every available range of the memory map, frees its
  frames and takes the frames of the kernel. The lemmas show that the tables do not overlap and that the
  books of PageFrame are right when the construction ends.
\<close>

text \<open>The symbols the linker provides, and the address of the string \<^verbatim>\<open>__FILE__\<close> of \<^verbatim>\<open>mm.c\<close>.\<close>

record linker =
  sym_start_kernel :: u64
  sym_end_kernel :: u64
  sym_pml4 :: u64
  sym_start_text :: u64
  sym_end_text :: u64
  sym_start_data :: u64
  sym_end_data :: u64
  sym_start_rodata :: u64
  sym_end_rodata :: u64
  sym_start_bss :: u64
  sym_end_bss :: u64
  sym_mm_file :: u64

text \<open>\<^verbatim>\<open>sizeof(mm_page_t)\<close> and \<^verbatim>\<open>sizeof(mm_zone_t)\<close>.\<close>

definition sizeof_mm_page :: u64 where "sizeof_mm_page = 40"
definition sizeof_mm_zone :: u64 where "sizeof_mm_zone = 72"

subsection \<open>The three tables\<close>

text \<open>\<^verbatim>\<open>memset\<close> on a table: its first \<open>n\<close> elements become \<open>v\<close>.\<close>

definition fill_table :: "u64 \<Rightarrow> 'e \<Rightarrow> (u64 \<Rightarrow> 'e) \<Rightarrow> u64 \<Rightarrow> 'e" where
  "fill_table n v t = (\<lambda>i. if i < n then v else t i)"

definition zero_page :: mm_page where
  "zero_page = \<lparr>phy_addr = 0, attribute = 0, ref_count = 0, age = 0, zone = None\<rparr>"

definition zero_zone :: mm_zone where
  "zero_zone = \<lparr>pages_group = 0, zone_pages_length = 0, zone_start_addr = 0, zone_end_addr = 0,
     zone_length = 0, zone_attribute = 0, page_using_count = 0, page_free_count = 0,
     total_pages_link = 0\<rparr>"

definition page_bitmap_init :: "linker \<Rightarrow> u64 \<Rightarrow> 'a mm_state_scheme \<Rightarrow> 'a mm_state_scheme" where
  "page_bitmap_init ld start_addr s =
     (let e = e820 (gmdsc s) (e820_num (gmdsc s) - 1);
          total_mem = e820_addr e + e820_len e;
          s = kdebug (sym_mm_file ld) 51 (''total memory: %d'' @ [newline]) [total_mem] s;
          g = (gmdsc s)\<lparr>total_mem_length := total_mem,
                page_bits := start_addr,
                page_bits_size := drop_bit 12 total_mem,
                page_bits_length := ((drop_bit 12 total_mem + 8 * 8 - 1) div 8) AND NOT (8 - 1)\<rparr>;
          s = s\<lparr>gmdsc := g\<rparr>;
          s = kinfo (''page_bitmap start_addr:%x page_bits_size:%d page_bits_length:%d'' @ [newline])
                [page_bits g, page_bits_size g, page_bits_length g] s
      in s\<lparr>bits := fill_table (page_bits_length g div 8) 0xffffffffffffffff (bits s)\<rparr>)"

definition pages_struct_init :: "u64 \<Rightarrow> 'a mm_state_scheme \<Rightarrow> 'a mm_state_scheme" where
  "pages_struct_init start_addr s =
     (let sz = drop_bit 12 (total_mem_length (gmdsc s));
          g = (gmdsc s)\<lparr>pages_struct := start_addr,
                pages_size := sz,
                pages_length := (sz * sizeof_mm_page + 8 - 1) AND NOT (8 - 1)\<rparr>;
          s = s\<lparr>gmdsc := g\<rparr>;
          s = kinfo (''pages_struct start_addr:%x pages_size:%d pages_length:%d'' @ [newline])
                [pages_struct g, pages_size g, pages_length g] s
      in s\<lparr>pages := fill_table sz zero_page (pages s)\<rparr>)"

definition zones_struct_init :: "u64 \<Rightarrow> 'a mm_state_scheme \<Rightarrow> 'a mm_state_scheme" where
  "zones_struct_init start_addr s =
     (let sz = e820_available_size (gmdsc s);
          g = (gmdsc s)\<lparr>zones_struct := start_addr,
                zones_size := sz,
                zones_length := (sz * sizeof_mm_zone + 8 - 1) AND NOT (8 - 1)\<rparr>;
          s = s\<lparr>gmdsc := g\<rparr>;
          s = kinfo (''zones_struct start_addr:%x zones_size:%d zones_length:%d'' @ [newline])
                [zones_struct g, zones_size g, zones_length g] s
      in s\<lparr>zones := (\<lambda>z. case z of None \<Rightarrow> zones s None
                             | Some i \<Rightarrow> fill_table sz zero_zone (\<lambda>j. zones s (Some j)) i)\<rparr>)"

subsection \<open>construct_mem_struct\<close>

text \<open>The range of whole frames inside an entry of the memory map.\<close>

definition range_start :: "e820_t \<Rightarrow> u64" where
  "range_start e = PAGE_4K_ALIGN (e820_addr e)"

definition range_end :: "e820_t \<Rightarrow> u64" where
  "range_end e = push_bit 12 (drop_bit 12 (e820_addr e + e820_len e))"

definition zone_of_range :: "u64 \<Rightarrow> u64 \<Rightarrow> mm_zone \<Rightarrow> mm_zone" where
  "zone_of_range start end z =
     z\<lparr>zone_start_addr := start,
       zone_end_addr := end,
       zone_length := end - start,
       page_using_count := 0,
       page_free_count := drop_bit 12 (end - start),
       total_pages_link := 0,
       zone_attribute := 0,
       zone_pages_length := drop_bit 12 (end - start),
       pages_group := drop_bit 12 start\<rparr>"

text \<open>The bit of the frame at \<open>a\<close> flipped, as \<^verbatim>\<open>*(page_bits + ((a >> 12) >> 6)) ^= 1UL << (a >> 12) % 64\<close>.\<close>

definition flip_frame :: "u64 \<Rightarrow> (u64 \<Rightarrow> u64) \<Rightarrow> u64 \<Rightarrow> u64" where
  "flip_frame a bs = (let w = drop_bit 6 (drop_bit 12 a) in bs(w := bs w XOR frame_bit a))"

definition frame_setup :: "u64 \<Rightarrow> u64 \<Rightarrow> u32 \<Rightarrow> u64 \<Rightarrow> 'a mm_state_scheme \<Rightarrow> 'a mm_state_scheme" where
  "frame_setup start z j p s =
     (let a = start + PAGE_4K_SIZE * ucast j
      in s\<lparr>pages := (pages s)(p := (pages s p)\<lparr>zone := Some z, phy_addr := a, attribute := 0,
                                     ref_count := 0, age := 0\<rparr>),
           bits := flip_frame a (bits s)\<rparr>)"

text \<open>\<^verbatim>\<open>for (uint32_t j = 0; j < z->pages_length; j++, p++)\<close>: the counter has 32 bits, the bound 64.\<close>

partial_function (option) frames_loop ::
    "u64 \<Rightarrow> u64 \<Rightarrow> u64 \<Rightarrow> u32 \<Rightarrow> u64 \<Rightarrow> 'a mm_state_scheme \<Rightarrow> 'a mm_state_scheme option" where
  "frames_loop start z len j p s =
     (if ucast j < len then frames_loop start z len (j + 1) (p + 1) (frame_setup start z j p s)
      else Some s)"

definition zone_setup :: "u64 \<Rightarrow> e820_t \<Rightarrow> 'a mm_state_scheme \<Rightarrow> 'a mm_state_scheme option" where
  "zone_setup zone_idx e s =
     (let z = zone_of_range (range_start e) (range_end e) (zones s (Some zone_idx));
          s = s\<lparr>zones := (zones s)(Some zone_idx := z)\<rparr>
      in frames_loop (range_start e) zone_idx (zone_pages_length z) 0 (pages_group z) s)"

partial_function (option) zones_loop ::
    "u32 \<Rightarrow> u32 \<Rightarrow> 'a mm_state_scheme \<Rightarrow> 'a mm_state_scheme option" where
  "zones_loop i zone_idx s =
     (if ucast i < e820_num (gmdsc s) then
        (let e = e820 (gmdsc s) (ucast i)
         in if e820_type e \<noteq> E820_TYPE_AVAILABLE then zones_loop (i + 1) zone_idx s
            else if range_end e \<le> range_start e then zones_loop (i + 1) zone_idx s
            else Option.bind (zone_setup (ucast zone_idx) e s) (zones_loop (i + 1) (zone_idx + 1)))
      else Some s)"

text \<open>\<^verbatim>\<open>int\<close> loop bounds: the frame numbers truncated to 32 bits and read as signed.\<close>

definition kernel_frames :: "mm_descriptor \<Rightarrow> u64 list" where
  "kernel_frames g =
     map word_of_int [slot_int (drop_bit 12 (kernel_start_phyaddr g)) ..
                      slot_int (drop_bit 12 (VIR2PHY (end_of_struct g))) - 1]"

definition kernel_page_flags :: u64 where
  "kernel_page_flags = PG_PTable_Maped OR PG_Kernel_Init OR PG_Active OR PG_Kernel"

definition construct_mem_struct :: "'a mm_state_scheme \<Rightarrow> 'a mm_state_scheme option" where
  "construct_mem_struct s =
     map_option (\<lambda>s. fold (\<lambda>i. page_init i kernel_page_flags) (kernel_frames (gmdsc s)) s)
       (zones_loop 0 0 s)"

subsection \<open>init_memory\<close>

definition link_descriptor :: "linker \<Rightarrow> mm_descriptor \<Rightarrow> mm_descriptor" where
  "link_descriptor ld g =
     g\<lparr>start_text := sym_start_text ld, end_text := sym_end_text ld,
       start_data := sym_start_data ld, end_data := sym_end_data ld,
       start_rodata := sym_start_rodata ld, end_rodata := sym_end_rodata ld,
       start_bss := sym_start_bss ld, end_bss := sym_end_bss ld,
       kernel_start_phyaddr := sym_start_kernel ld, kernel_end_phyaddr := sym_end_kernel ld\<rparr>"

text \<open>The pointer arithmetic scales by the element sizes: 8 for the bitmap (whose length is already in
  bytes), 40 and 72 for the page and zone structures.\<close>

definition place_tables :: "linker \<Rightarrow> 'a mm_state_scheme \<Rightarrow> 'a mm_state_scheme" where
  "place_tables ld s =
     (let s = s\<lparr>Global_CR3 := PHY2VIR (sym_pml4 ld), gmdsc := link_descriptor ld (gmdsc s)\<rparr>;
          s = kinfo (''kernel code start_phyaddr:%x end_phyaddr:%x'' @ [newline])
                [kernel_start_phyaddr (gmdsc s), kernel_end_phyaddr (gmdsc s)] s;
          s = page_bitmap_init ld (PAGE_4K_ALIGN (kernel_end_phyaddr (gmdsc s))) s;
          s = pages_struct_init
                (PAGE_4K_ALIGN (page_bits (gmdsc s) + 8 * page_bits_length (gmdsc s))) s;
          s = zones_struct_init
                (PAGE_4K_ALIGN (pages_struct (gmdsc s) + sizeof_mm_page * pages_size (gmdsc s))) s
      in s\<lparr>gmdsc := (gmdsc s)\<lparr>end_of_struct :=
           PAGE_4K_ALIGN (zones_struct (gmdsc s) + sizeof_mm_zone * zones_size (gmdsc s))\<rparr>\<rparr>)"

definition init_memory :: "linker \<Rightarrow> 'a mm_state_scheme \<Rightarrow> 'a mm_state_scheme option" where
  "init_memory ld s = construct_mem_struct (place_tables ld s)"

subsection \<open>The page loop of one zone\<close>

lemma frame_used_flip [simp]:
  "frame_used (flip_frame a bs) g \<longleftrightarrow> frame_used bs g \<noteq> (g = drop_bit 12 a)"
proof -
  have "unat (g mod 64) < 64" by (simp add: unat_mod)
  then have "bit (frame_bit a) (unat (g mod 64)) \<longleftrightarrow> g mod 64 = drop_bit 12 a mod 64"
    by (auto simp: frame_bit_def bit_simps simp flip: word_unat_eq_iff)
  then show ?thesis
    using frame_position [of g "drop_bit 12 a"]
    by (auto simp: frame_used_def flip_frame_def Let_def bit_xor_iff)
qed

lemma frame_setup_simps [simp]:
  "gmdsc (frame_setup start z j p s) = gmdsc s"
  "zones (frame_setup start z j p s) = zones s"
  "trace (frame_setup start z j p s) = trace s"
  "bits (frame_setup start z j p s) = flip_frame (start + PAGE_4K_SIZE * ucast j) (bits s)"
  "pages (frame_setup start z j p s) = (pages s)(p := \<lparr>phy_addr = start + PAGE_4K_SIZE * ucast j,
     attribute = 0, ref_count = 0, age = 0, zone = Some z\<rparr>)"
proof -
  have "q\<lparr>zone := z, phy_addr := a, attribute := b, ref_count := c, age := d\<rparr> =
      \<lparr>phy_addr = a, attribute = b, ref_count = c, age = d, zone = z\<rparr>" for q :: mm_page and z a b c d
    by (cases q) simp
  then show
    "pages (frame_setup start z j p s) = (pages s)(p := \<lparr>phy_addr = start + PAGE_4K_SIZE * ucast j,
       attribute = 0, ref_count = 0, age = 0, zone = Some z\<rparr>)"
    by (simp only: frame_setup_def Let_def) simp
qed (simp_all add: frame_setup_def Let_def)

lemma frames_loop_descriptor:
  "frames_loop start z len j p s = Some s' \<Longrightarrow> gmdsc s' = gmdsc s"
  by (rule frames_loop.raw_induct [where P = "\<lambda>start z len j p s s'. gmdsc s' = gmdsc s"])
    (auto split: if_splits)

lemma frames_loop_result:
  assumes "unat len < 2 ^ 32" "start = push_bit 12 p0" "unat p0 + unat len \<le> 2 ^ 52" "ucast j \<le> len"
    and "p = p0 + ucast j"
  shows "\<exists>s'. frames_loop start z len j p s = Some s' \<and>
    (\<forall>g. pages s' g = (if ucast j \<le> g - p0 \<and> g - p0 < len
       then \<lparr>phy_addr = push_bit 12 g, attribute = 0, ref_count = 0, age = 0, zone = Some z\<rparr>
       else pages s g)) \<and>
    (\<forall>g. frame_used (bits s') g \<longleftrightarrow> frame_used (bits s) g \<noteq> (ucast j \<le> g - p0 \<and> g - p0 < len)) \<and>
    zones s' = zones s \<and> gmdsc s' = gmdsc s \<and> trace s' = trace s"
  using assms(4,5)
proof (induction "unat len - unat j" arbitrary: j p s)
  case 0
  then have "len = ucast j" by (simp add: word_le_nat_alt word_unat_eq_iff)
  then show ?case by (subst frames_loop.simps) (auto simp: not_less)
next
  case (Suc n)
  then have lt: "ucast j < len" by (simp add: word_less_nat_alt)
  then have "unat j < 2 ^ 32 - 1" using assms(1) by (simp add: word_less_nat_alt)
  then have j1: "unat (j + 1) = unat j + 1"
    using unat_add_lem [of j 1] by simp
  have u1: "ucast (j + 1) = (ucast j + 1 :: u64)"
    using j1 assms(1) lt unat_add_lem [of "ucast j :: u64" 1]
    by (simp add: word_unat_eq_iff word_less_nat_alt)
  have "n = unat len - unat (j + 1)" "ucast (j + 1) \<le> len"
    using Suc.hyps(2) lt j1 by (simp_all add: word_le_nat_alt word_less_nat_alt)
  moreover have "p + 1 = p0 + ucast (j + 1)" using Suc.prems(2) u1 by simp
  ultimately obtain s' where s':
    "frames_loop start z len (j + 1) (p + 1) (frame_setup start z j p s) = Some s'"
    "\<And>g. pages s' g = (if ucast (j + 1) \<le> g - p0 \<and> g - p0 < len
       then \<lparr>phy_addr = push_bit 12 g, attribute = 0, ref_count = 0, age = 0, zone = Some z\<rparr>
       else pages (frame_setup start z j p s) g)"
    "\<And>g. frame_used (bits s') g \<longleftrightarrow> frame_used (bits (frame_setup start z j p s)) g \<noteq>
       (ucast (j + 1) \<le> g - p0 \<and> g - p0 < len)"
    "zones s' = zones s" "gmdsc s' = gmdsc s" "trace s' = trace s"
    using Suc.hyps(1) [of "j + 1" "p + 1" "frame_setup start z j p s"] by auto
  have a: "start + PAGE_4K_SIZE * ucast j = push_bit 12 p"
    using assms(2) Suc.prems(2) by (simp add: PAGE_4K_SIZE_eq push_bit_eq_mult algebra_simps)
  have "unat p = unat p0 + unat j"
    using Suc.prems(2) assms(1,3) lt unat_add_lem [of p0 "ucast j"] by (simp add: word_less_nat_alt)
  then have "unat p < 2 ^ 52" using assms(3) lt by (simp add: word_less_nat_alt)
  then have b: "drop_bit 12 (push_bit 12 p) = p"
    by (simp add: push_drop_frame word_unat_eq_iff unsigned_take_bit_eq take_bit_nat_eq_self)
  have split: "(ucast j \<le> x \<and> x < len) \<longleftrightarrow> (x = ucast j \<or> ucast (j + 1) \<le> x \<and> x < len)" for x
    using lt j1 by (auto simp: word_le_nat_alt word_less_nat_alt word_unat_eq_iff)
  have off: "g - p0 = ucast j \<longleftrightarrow> g = p" for g
    using Suc.prems(2) by (auto simp: algebra_simps)
  have nin: "\<not> (ucast (j + 1) \<le> p - p0 \<and> p - p0 < len)"
    using Suc.prems(2) j1 by (auto simp: word_le_nat_alt)
  have "frames_loop start z len j p s = Some s'"
    using s'(1) lt by (subst frames_loop.simps) simp
  moreover have "pages s' g = (if ucast j \<le> g - p0 \<and> g - p0 < len
       then \<lparr>phy_addr = push_bit 12 g, attribute = 0, ref_count = 0, age = 0, zone = Some z\<rparr>
       else pages s g)" for g
    unfolding split off s'(2) using a by auto
  moreover have "frame_used (bits s') g \<longleftrightarrow>
      frame_used (bits s) g \<noteq> (ucast j \<le> g - p0 \<and> g - p0 < len)" for g
    unfolding split off s'(3) using a b nin by auto
  ultimately show ?case using s'(4-6) by blast
qed

lemma frames_loop_returns:
  assumes "frames_loop start z len j p s = Some s'"
  shows "unat len < 2 ^ 32"
proof (rule frames_loop.raw_induct [where P = "\<lambda>start z len j p s s'. unat len < 2 ^ 32", OF _ assms])
  fix frames_loop :: "u64 \<Rightarrow> u64 \<Rightarrow> u64 \<Rightarrow> u32 \<Rightarrow> u64 \<Rightarrow> 'a mm_state_scheme \<Rightarrow> 'a mm_state_scheme option"
    and start z len p :: u64 and j :: u32 and s s' :: "'a mm_state_scheme"
  assume "\<And>start z len j p s s'. frames_loop start z len j p s = Some s' \<Longrightarrow> unat len < 2 ^ 32"
    and "(if ucast j < len then frames_loop start z len (j + 1) (p + 1) (frame_setup start z j p s)
      else Some s) = Some s'"
  then show "unat len < 2 ^ 32"
    using unsigned_less [of j, where ?'a = nat]
    by (cases "ucast j < len") (simp_all add: not_less word_le_nat_alt)
qed

subsection \<open>One zone\<close>

definition usable :: "e820_t \<Rightarrow> bool" where
  "usable e \<longleftrightarrow> e820_type e = E820_TYPE_AVAILABLE \<and> range_start e < range_end e"

definition range_frames :: "e820_t \<Rightarrow> u64 set" where
  "range_frames e = {f. drop_bit 12 (range_start e) \<le> f \<and> f < drop_bit 12 (range_end e)}"

text \<open>A range the construction can deal with: its frames have page structures, and there are fewer than
  2 to the 32 of them.\<close>

definition range_fits :: "mm_descriptor \<Rightarrow> e820_t \<Rightarrow> bool" where
  "range_fits g e \<longleftrightarrow> drop_bit 12 (range_end e) \<le> pages_size g \<and>
     drop_bit 12 (range_end e) - drop_bit 12 (range_start e) < 0x100000000"

lemma page_aligned_ranges:
  "range_start e = push_bit 12 (drop_bit 12 (range_start e))"
  "range_end e = push_bit 12 (drop_bit 12 (range_end e))"
proof -
  have *: "push_bit 12 (drop_bit 12 (push_bit 12 x)) = push_bit 12 (x :: u64)" for x
    by (rule bit_eqI) (auto simp: bit_simps dest: bit_imp_le_length)
  show "range_start e = push_bit 12 (drop_bit 12 (range_start e))"
    unfolding range_start_def PAGE_4K_ALIGN_def and_page_mask by (simp only: *)
  show "range_end e = push_bit 12 (drop_bit 12 (range_end e))"
    unfolding range_end_def by (simp only: *)
qed

lemma unat_drop_12: "unat (drop_bit 12 (a :: u64)) = unat a div 4096"
  by (simp add: drop_bit_eq_div unat_div)

lemma unat_drop_12_less: "unat (drop_bit 12 (a :: u64)) < 2 ^ 52"
  using unsigned_less [of a, where ?'a = nat] by (simp only: unat_drop_12) simp

lemma unat_push_12: "unat (f :: u64) < 2 ^ 52 \<Longrightarrow> unat (push_bit 12 f) = 4096 * unat f"
  by (simp add: push_bit_eq_mult unat_mult_lem [THEN iffD1, of f 4096] mult.commute)

lemma range_length:
  assumes "range_start e < range_end e"
  shows "drop_bit 12 (range_end e - range_start e) = drop_bit 12 (range_end e) - drop_bit 12 (range_start e)"
    "drop_bit 12 (range_start e) < drop_bit 12 (range_end e)"
proof -
  let ?a = "drop_bit 12 (range_start e)" and ?b = "drop_bit 12 (range_end e)"
  have u: "unat (range_start e) = 4096 * unat ?a" "unat (range_end e) = 4096 * unat ?b"
    using unat_push_12 [OF unat_drop_12_less] page_aligned_ranges [of e] by metis+
  then show lt: "?a < ?b" using assms by (simp add: word_less_nat_alt)
  have "unat (range_end e - range_start e) = unat (range_end e) - unat (range_start e)"
    using assms by (simp add: unat_sub order_less_imp_le)
  then have "unat (range_end e - range_start e) = 4096 * (unat ?b - unat ?a)" using u by simp
  moreover note unat_drop_12
  moreover have "unat (?b - ?a) = unat ?b - unat ?a"
    using lt by (simp add: unat_sub order_less_imp_le)
  ultimately show "drop_bit 12 (range_end e - range_start e) = ?b - ?a"
    by (simp only: word_unat_eq_iff) simp
qed

lemma range_frames_offset:
  assumes "range_start e < range_end e"
  shows "f \<in> range_frames e \<longleftrightarrow>
    f - drop_bit 12 (range_start e) < drop_bit 12 (range_end e) - drop_bit 12 (range_start e)"
proof -
  let ?a = "drop_bit 12 (range_start e)" and ?b = "drop_bit 12 (range_end e)"
  have ab: "unat ?a < unat ?b" using range_length(2) [OF assms] by (simp add: word_less_nat_alt)
  have "unat (?b - ?a) = unat ?b - unat ?a"
    using ab by (simp add: unat_sub word_le_nat_alt)
  moreover have "unat (f - ?a) = (if ?a \<le> f then unat f - unat ?a else unat f + 2 ^ 64 - unat ?a)"
    by (simp add: unat_sub_if' word_le_nat_alt)
  ultimately show ?thesis
    using ab unsigned_less [of ?b, where ?'a = nat]
    by (auto simp: range_frames_def word_le_nat_alt word_less_nat_alt split: if_splits)
qed

lemma zone_setup_result:
  assumes "usable e" "range_fits (gmdsc s) e"
  shows "\<exists>s'. zone_setup z e s = Some s' \<and>
    (\<forall>g. pages s' g = (if g \<in> range_frames e
       then \<lparr>phy_addr = push_bit 12 g, attribute = 0, ref_count = 0, age = 0, zone = Some z\<rparr>
       else pages s g)) \<and>
    (\<forall>g. frame_used (bits s') g \<longleftrightarrow> frame_used (bits s) g \<noteq> (g \<in> range_frames e)) \<and>
    zones s' = (zones s)(Some z := zone_of_range (range_start e) (range_end e) (zones s (Some z))) \<and>
    gmdsc s' = gmdsc s \<and> trace s' = trace s"
proof -
  let ?a = "drop_bit 12 (range_start e)" and ?b = "drop_bit 12 (range_end e)"
  have lt: "range_start e < range_end e" using assms(1) by (simp add: usable_def)
  have "unat (?b - ?a) = unat ?b - unat ?a"
    using range_length(2) [OF lt] by (simp add: unat_sub order_less_imp_le)
  moreover have "unat (?b - ?a) < 2 ^ 32"
    using assms(2) by (simp add: range_fits_def word_less_nat_alt)
  moreover have "unat ?a < unat ?b" using range_length(2) [OF lt] by (simp add: word_less_nat_alt)
  ultimately have *: "unat (?b - ?a) < 2 ^ 32" "unat ?a + unat (?b - ?a) \<le> 2 ^ 52"
    using unat_drop_12_less [of "range_end e"] by simp_all
  show ?thesis
    using frames_loop_result [OF *(1) page_aligned_ranges(1) *(2), of 0 "?a" z
        "s\<lparr>zones := (zones s)(Some z := zone_of_range (range_start e) (range_end e) (zones s (Some z)))\<rparr>"]
    by (auto simp: zone_setup_def Let_def zone_of_range_def range_frames_offset [OF lt] range_length(1) [OF lt])
qed

subsection \<open>All zones\<close>

definition map_entries :: "mm_descriptor \<Rightarrow> nat \<Rightarrow> e820_t list" where
  "map_entries g i = map (\<lambda>i. e820 g (of_nat i)) [i..<unat (e820_num g)]"

fun setup_zones :: "e820_t list \<Rightarrow> u32 \<Rightarrow> 'a mm_state_scheme \<Rightarrow> 'a mm_state_scheme option" where
  "setup_zones [] zone_idx s = Some s"
| "setup_zones (e # es) zone_idx s =
     (if usable e then Option.bind (zone_setup (ucast zone_idx) e s) (setup_zones es (zone_idx + 1))
      else setup_zones es zone_idx s)"

lemma zone_setup_descriptor: "zone_setup z e s = Some s' \<Longrightarrow> gmdsc s' = gmdsc s"
  by (auto simp: zone_setup_def Let_def dest: frames_loop_descriptor)

lemma zones_loop_descriptor: "zones_loop i z s = Some s' \<Longrightarrow> gmdsc s' = gmdsc s"
  by (rule zones_loop.raw_induct [where P = "\<lambda>i z s s'. gmdsc s' = gmdsc s"])
    (auto simp: Let_def bind_eq_Some_conv dest: zone_setup_descriptor split: if_splits)

lemma zones_loop_eq:
  fixes s :: "'a mm_state_scheme"
  assumes "e820_num (gmdsc s) < 0x100000000" "unat i \<le> unat (e820_num (gmdsc s))"
  shows "zones_loop i zone_idx s = setup_zones (map_entries (gmdsc s) (unat i)) zone_idx s"
  using assms
proof (induction "unat (e820_num (gmdsc s)) - unat i" arbitrary: i zone_idx s)
  case 0
  then show ?case
    by (subst zones_loop.simps) (simp add: map_entries_def word_less_nat_alt)
next
  case (Suc n)
  then have lt: "unat i < unat (e820_num (gmdsc s))" by simp
  then have "unat i < 2 ^ 32 - 1" using Suc.prems(1) by (simp add: word_less_nat_alt)
  then have i1: "unat (i + 1) = Suc (unat i)"
    using unat_add_lem [of i 1] by simp
  have IH: "zones_loop (i + 1) z s' = setup_zones (map_entries (gmdsc s) (Suc (unat i))) z s'"
    if "gmdsc s' = gmdsc s" for z and s' :: "'a mm_state_scheme"
    using Suc.hyps(1) [of s' "i + 1" z] Suc.hyps(2) Suc.prems lt i1 that by simp
  have "Option.bind (zone_setup z e s) (zones_loop (i + 1) z') =
      Option.bind (zone_setup z e s) (setup_zones (map_entries (gmdsc s) (Suc (unat i))) z')" for z e z'
    using IH by (cases "zone_setup z e s") (auto dest: zone_setup_descriptor)
  moreover have "map_entries (gmdsc s) (unat i) =
      e820 (gmdsc s) (ucast i) # map_entries (gmdsc s) (Suc (unat i))"
    using lt by (simp add: map_entries_def upt_conv_Cons)
  moreover have "ucast i < e820_num (gmdsc s)" using lt by (simp add: word_less_nat_alt)
  ultimately show ?case
    using IH [OF refl] by (subst zones_loop.simps) (auto simp add: Let_def usable_def)
qed

text \<open>The state of the construction between two zones: nothing is used, every frame outside the zones
  built so far is still marked and belongs to no zone, and the zones have the first indices.\<close>

definition building :: "u32 \<Rightarrow> 'a mm_state_scheme \<Rightarrow> bool" where
  "building n s \<longleftrightarrow> books_right s \<and> used_frames s = {} \<and>
     (\<forall>f < pages_size (gmdsc s). f \<notin> owned_frames s \<longrightarrow> frame_used (bits s) f) \<and>
     (\<forall>f \<in> owned_frames s. \<exists>k < ucast n. zone (pages s f) = Some k)"

lemma used_of_empty: "used_frames s = {} \<Longrightarrow> used_of s (Some z) = {}"
  by (auto simp: used_frames_def used_of_def owned_frames_def frames_of_def)

lemma zone_setup_building:
  assumes b: "building n s" and e: "usable e" "range_fits (gmdsc s) e"
    and new: "range_frames e \<inter> owned_frames s = {}"
    and n: "unat n < 2 ^ 32 - 1"
  shows "\<exists>s'. zone_setup (ucast n) e s = Some s' \<and> building (n + 1) s' \<and>
    owned_frames s' = range_frames e \<union> owned_frames s \<and> gmdsc s' = gmdsc s \<and> trace s' = trace s"
proof -
  let ?R = "range_frames e" and ?n = "ucast n :: u64"
  obtain s' where s': "zone_setup ?n e s = Some s'"
    "\<And>g. pages s' g = (if g \<in> ?R
       then \<lparr>phy_addr = push_bit 12 g, attribute = 0, ref_count = 0, age = 0, zone = Some ?n\<rparr>
       else pages s g)"
    "\<And>g. frame_used (bits s') g \<longleftrightarrow> frame_used (bits s) g \<noteq> (g \<in> ?R)"
    "zones s' = (zones s)(Some ?n := zone_of_range (range_start e) (range_end e) (zones s (Some ?n)))"
    "gmdsc s' = gmdsc s" "trace s' = trace s"
    using zone_setup_result [OF e, of ?n] by auto
  have inside: "f < pages_size (gmdsc s)" if "f \<in> ?R" for f
    using that e(2) by (auto simp: range_frames_def range_fits_def)
  have owned: "owned_frames s' = ?R \<union> owned_frames s"
    using inside by (auto simp: owned_frames_def s'(2,5))
  have used: "used_frames s' = {}"
    using b by (auto simp: used_frames_def owned building_def s'(2) split: if_splits)
  have zone_k: "\<exists>k < ?n. zone (pages s f) = Some k" if "f \<in> owned_frames s" for f
    using b that by (simp add: building_def)
  have frames_n: "frames_of s' (Some ?n) = ?R"
    using inside zone_k by (force simp: frames_of_def s'(2,5) owned_frames_def)
  have frames_k: "frames_of s' (Some k) = frames_of s (Some k)" if "k < ?n" for k
    using that new by (auto simp: frames_of_def s'(2,5) owned_frames_def)
  have "zone_counted s' (Some ?n)"
  proof -
    have lt: "range_start e < range_end e" using e(1) by (simp add: usable_def)
    have "unat (drop_bit 12 (range_end e) - drop_bit 12 (range_start e)) =
        unat (drop_bit 12 (range_end e)) - unat (drop_bit 12 (range_start e))"
      using range_length(2) [OF lt] by (simp add: unat_sub order_less_imp_le)
    then have "of_nat (card ?R) = drop_bit 12 (range_end e) - drop_bit 12 (range_start e)"
      unfolding range_frames_def card_u64_interval by (metis of_nat_unat ucast_id)
    then show ?thesis
      unfolding zone_counted_def frames_n used_of_empty [OF used]
      by (simp add: s'(2,4) zone_of_range_def range_length(1) [OF lt])
  qed
  moreover have "zone_counted s' (Some k)" if "k < ?n" "f \<in> owned_frames s" "zone (pages s f) = Some k" for k f
  proof -
    have "zone_counted s (Some k)" using b that by (metis building_def books_right_def)
    moreover have "ref_count (pages s' g) = ref_count (pages s g)" if "g \<in> frames_of s (Some k)" for g
      using that new by (auto simp: frames_of_def s'(2) owned_frames_def)
    moreover have "zones s' (Some k) = zones s (Some k)" using that(1) s'(4) by auto
    ultimately show ?thesis
      using that(1) used_of_empty [OF used] b
      by (simp add: zone_counted_def frames_k used_of_empty building_def)
  qed
  moreover have "frame_recorded s' f" if "f \<in> ?R" for f
  proof -
    have "f < drop_bit 12 (range_end e)" using that by (simp add: range_frames_def)
    then have "unat f < 2 ^ 52"
      using unat_drop_12_less [of "range_end e"] by (simp add: word_less_nat_alt)
    then have "take_bit 52 f = f"
      by (simp add: word_unat_eq_iff unsigned_take_bit_eq take_bit_nat_eq_self)
    moreover have "frame_used (bits s) f"
      using b new that inside [OF that] by (auto simp: building_def)
    ultimately show ?thesis using that by (simp add: frame_recorded_def s'(2,3))
  qed
  moreover have "frame_recorded s' f" if "f \<in> owned_frames s" for f
    using that b new by (auto simp: building_def books_right_def frame_recorded_def s'(2,3))
  ultimately have books: "books_right s'"
    unfolding books_right_def owned using zone_k new
    by (auto simp: s'(2) split: if_splits) (metis disjoint_iff)
  have n1: "(ucast (n + 1) :: u64) = ?n + 1" "?n < ?n + 1"
  proof -
    have "unat (n + 1) = unat n + 1" using n unat_add_lem [of n 1] by simp
    moreover have "unat (?n + 1) = unat n + 1"
      using n unat_add_lem [of ?n 1] by simp
    ultimately show "(ucast (n + 1) :: u64) = ?n + 1" "?n < ?n + 1"
      by (simp_all add: word_unat_eq_iff word_less_nat_alt)
  qed
  have "building (n + 1) s'"
    unfolding building_def n1(1) owned
  proof (intro conjI books used ballI allI impI)
    show "frame_used (bits s') f" if "f < pages_size (gmdsc s')" "f \<notin> ?R \<union> owned_frames s" for f
      using that b by (auto simp: s'(3,5) building_def)
    show "\<exists>k < ?n + 1. zone (pages s' f) = Some k" if "f \<in> ?R \<union> owned_frames s" for f
      using that n1(2) zone_k [of f] by (cases "f \<in> ?R") (auto simp: s'(2) intro: less_trans)
  qed
  with s'(1,5,6) owned show ?thesis by blast
qed

text \<open>The available ranges of a memory map do not share a frame.\<close>

fun ranges_apart :: "e820_t list \<Rightarrow> bool" where
  "ranges_apart [] \<longleftrightarrow> True"
| "ranges_apart (e # es) \<longleftrightarrow>
     (usable e \<longrightarrow> (\<forall>d \<in> set es. usable d \<longrightarrow>
        range_end e \<le> range_start d \<or> range_end d \<le> range_start e)) \<and> ranges_apart es"

definition usable_frames :: "e820_t list \<Rightarrow> u64 set" where
  "usable_frames es = (\<Union>e \<in> {e \<in> set es. usable e}. range_frames e)"

lemma drop_12_mono: "a \<le> b \<Longrightarrow> drop_bit 12 a \<le> drop_bit 12 (b :: u64)"
  unfolding word_le_nat_alt unat_drop_12 by (rule div_le_mono)

lemma ranges_disjoint:
  assumes "range_end e \<le> range_start d \<or> range_end d \<le> range_start e"
  shows "range_frames e \<inter> range_frames d = {}"
proof -
  have apart: "{f. a \<le> f \<and> f < b} \<inter> {f. c \<le> f \<and> f < d} = {}" if "b \<le> c \<or> d \<le> a" for a b c d :: u64
    using that by force
  show ?thesis
    unfolding range_frames_def by (rule apart) (use assms drop_12_mono in blast)
qed

lemma setup_zones_building:
  assumes "building n s" "ranges_apart es" "\<forall>e \<in> set es. usable e \<longrightarrow> range_fits (gmdsc s) e"
    "usable_frames es \<inter> owned_frames s = {}" "unat n + length es < 2 ^ 32"
  shows "\<exists>s' m. setup_zones es n s = Some s' \<and> building m s' \<and>
    owned_frames s' = usable_frames es \<union> owned_frames s \<and> gmdsc s' = gmdsc s \<and> trace s' = trace s"
  using assms
proof (induction es arbitrary: n s)
  case Nil
  then show ?case by (auto simp: usable_frames_def)
next
  case (Cons e es)
  have frames: "usable_frames (e # es) = (if usable e then range_frames e else {}) \<union> usable_frames es"
    by (auto simp: usable_frames_def)
  show ?case
  proof (cases "usable e")
    case False
    then show ?thesis using Cons.IH [of n s] Cons.prems frames by simp
  next
    case True
    have "unat n < 2 ^ 32 - 1" using Cons.prems(5) by simp
    then have n1: "unat (n + 1) = unat n + 1" using unat_add_lem [of n 1] by simp
    have "range_frames e \<inter> owned_frames s = {}" "range_fits (gmdsc s) e"
      using Cons.prems(3,4) True frames by auto
    from zone_setup_building [OF Cons.prems(1) True this(2,1) \<open>unat n < 2 ^ 32 - 1\<close>]
    obtain s1 where s1: "zone_setup (ucast n) e s = Some s1" "building (n + 1) s1"
      "owned_frames s1 = range_frames e \<union> owned_frames s" "gmdsc s1 = gmdsc s" "trace s1 = trace s"
      by blast
    have "usable_frames es \<inter> range_frames e = {}"
      using Cons.prems(2) True ranges_disjoint by (auto simp: usable_frames_def)
    then have "usable_frames es \<inter> owned_frames s1 = {}"
      using Cons.prems(4) frames s1(3) by auto
    moreover have "\<forall>e \<in> set es. usable e \<longrightarrow> range_fits (gmdsc s1) e" "ranges_apart es"
      "unat (n + 1) + length es < 2 ^ 32"
      using Cons.prems s1(4) n1 by simp_all
    ultimately obtain s' m where s': "setup_zones es (n + 1) s1 = Some s'" "building m s'"
      "owned_frames s' = usable_frames es \<union> owned_frames s1" "gmdsc s' = gmdsc s1" "trace s' = trace s1"
      using Cons.IH [OF s1(2)] by blast
    have "setup_zones (e # es) n s = Some s'" using True s1(1) s'(1) by simp
    moreover have "owned_frames s' = usable_frames (e # es) \<union> owned_frames s"
      using s1(3) s'(3) frames True by auto
    ultimately show ?thesis using s1 s' by (metis (no_types))
  qed
qed

subsection \<open>The whole construction\<close>

lemma page_init_marks: "frame_used (bits s) g \<Longrightarrow> frame_used (bits (page_init f flags s)) g"
  by (simp add: page_init_def Let_def)

lemma page_inits_mark:
  "frame_used (bits s) g \<Longrightarrow> frame_used (bits (fold (\<lambda>f. page_init f flags) fs s)) g"
  by (induction fs arbitrary: s) (auto simp: page_init_marks)

lemma page_inits_simps [simp]:
  "gmdsc (fold (\<lambda>f. page_init f flags) fs s) = gmdsc s"
  "trace (fold (\<lambda>f. page_init f flags) fs s) = trace s"
  by (induction fs arbitrary: s) auto

text \<open>The tables as the three initialisations leave them: every frame marked, every page cleared.\<close>

definition tables_cleared :: "'a mm_state_scheme \<Rightarrow> bool" where
  "tables_cleared s \<longleftrightarrow>
     (\<forall>f < pages_size (gmdsc s). frame_used (bits s) f \<and> pages s f = zero_page)"

definition map_ok :: "mm_descriptor \<Rightarrow> bool" where
  "map_ok g \<longleftrightarrow> e820_num g < 0x100000000 \<and> ranges_apart (map_entries g 0) \<and>
     (\<forall>e \<in> set (map_entries g 0). usable e \<longrightarrow> range_fits g e)"

lemma kernel_page_flags_nonzero: "kernel_page_flags \<noteq> 0"
  by (simp add: kernel_page_flags_def page_flag_defs)

lemma construct_mem_struct_books:
  assumes clear: "tables_cleared s" and ok: "map_ok (gmdsc s)"
    and kernel: "set (kernel_frames (gmdsc s)) \<subseteq> usable_frames (map_entries (gmdsc s) 0)"
  shows "\<exists>s'. construct_mem_struct s = Some s' \<and> books_right s' \<and>
    gmdsc s' = gmdsc s \<and> trace s' = trace s \<and>
    owned_frames s' = usable_frames (map_entries (gmdsc s) 0) \<and>
    used_frames s' = set (kernel_frames (gmdsc s)) \<and>
    (\<forall>f < pages_size (gmdsc s). f \<notin> owned_frames s' \<longrightarrow> frame_used (bits s') f)"
proof -
  let ?es = "map_entries (gmdsc s) 0"
  have none: "owned_frames s = {}"
    using clear by (auto simp: owned_frames_def tables_cleared_def zero_page_def)
  then have b: "building 0 s"
    using clear by (simp add: building_def books_right_def used_frames_def tables_cleared_def)
  have "unat (0 :: u32) + length ?es < 2 ^ 32"
    using ok by (simp add: map_ok_def map_entries_def word_less_nat_alt)
  with setup_zones_building [OF b, of ?es] ok none obtain s1 m where s1:
    "setup_zones ?es 0 s = Some s1" "building m s1" "owned_frames s1 = usable_frames ?es"
    "gmdsc s1 = gmdsc s" "trace s1 = trace s"
    by (auto simp: map_ok_def)
  have "zones_loop 0 0 s = Some s1"
    using zones_loop_eq [of s 0 0] ok s1(1) by (simp add: map_ok_def)
  let ?s = "fold (\<lambda>f. page_init f kernel_page_flags) (kernel_frames (gmdsc s)) s1"
  have "books_right s1" "used_frames s1 = {}"
    "\<forall>f < pages_size (gmdsc s1). f \<notin> owned_frames s1 \<longrightarrow> frame_used (bits s1) f"
    using s1(2) by (simp_all add: building_def)
  moreover have "set (kernel_frames (gmdsc s)) \<subseteq> owned_frames s1" using kernel s1(3) by simp
  note frames.init_all [OF \<open>books_right s1\<close> this kernel_page_flags_nonzero]
  moreover have "construct_mem_struct s = Some ?s"
    using \<open>zones_loop 0 0 s = Some s1\<close> s1(4) by (simp add: construct_mem_struct_def)
  ultimately show ?thesis
    using s1(3-5) page_inits_mark [of s1] by (intro exI [of _ ?s]) auto
qed

subsection \<open>Placing the tables\<close>

text \<open>The size of memory as the kernel takes it: the end of the last entry of the map.\<close>

definition map_end :: "mm_descriptor \<Rightarrow> u64" where
  "map_end g = e820_addr (e820 g (e820_num g - 1)) + e820_len (e820 g (e820_num g - 1))"

definition bitmap_desc :: "u64 \<Rightarrow> mm_descriptor \<Rightarrow> mm_descriptor" where
  "bitmap_desc a g = g\<lparr>total_mem_length := map_end g, page_bits := a,
     page_bits_size := drop_bit 12 (map_end g),
     page_bits_length := ((drop_bit 12 (map_end g) + 8 * 8 - 1) div 8) AND NOT (8 - 1)\<rparr>"

definition pages_desc :: "u64 \<Rightarrow> mm_descriptor \<Rightarrow> mm_descriptor" where
  "pages_desc a g = g\<lparr>pages_struct := a, pages_size := drop_bit 12 (total_mem_length g),
     pages_length := (drop_bit 12 (total_mem_length g) * sizeof_mm_page + 8 - 1) AND NOT (8 - 1)\<rparr>"

definition zones_desc :: "u64 \<Rightarrow> mm_descriptor \<Rightarrow> mm_descriptor" where
  "zones_desc a g = g\<lparr>zones_struct := a, zones_size := e820_available_size g,
     zones_length := (e820_available_size g * sizeof_mm_zone + 8 - 1) AND NOT (8 - 1)\<rparr>"

definition placed :: "linker \<Rightarrow> mm_descriptor \<Rightarrow> mm_descriptor" where
  "placed ld g =
     (let g = bitmap_desc (PAGE_4K_ALIGN (sym_end_kernel ld)) (link_descriptor ld g);
          g = pages_desc (PAGE_4K_ALIGN (page_bits g + 8 * page_bits_length g)) g;
          g = zones_desc (PAGE_4K_ALIGN (pages_struct g + sizeof_mm_page * pages_size g)) g
      in g\<lparr>end_of_struct := PAGE_4K_ALIGN (zones_struct g + sizeof_mm_zone * zones_size g)\<rparr>)"

lemma init_descriptors [simp]:
  "gmdsc (page_bitmap_init ld a s) = bitmap_desc a (gmdsc s)"
  "gmdsc (pages_struct_init a s) = pages_desc a (gmdsc s)"
  "gmdsc (zones_struct_init a s) = zones_desc a (gmdsc s)"
  by (simp_all add: page_bitmap_init_def pages_struct_init_def zones_struct_init_def bitmap_desc_def
      pages_desc_def zones_desc_def map_end_def message_defs Let_def)

lemma init_tables [simp]:
  "bits (page_bitmap_init ld a s) =
     fill_table (page_bits_length (bitmap_desc a (gmdsc s)) div 8) 0xffffffffffffffff (bits s)"
  "bits (pages_struct_init a s) = bits s" "bits (zones_struct_init a s) = bits s"
  "pages (page_bitmap_init ld a s) = pages s"
  "pages (pages_struct_init a s) = fill_table (pages_size (pages_desc a (gmdsc s))) zero_page (pages s)"
  "pages (zones_struct_init a s) = pages s"
  by (simp_all add: page_bitmap_init_def pages_struct_init_def zones_struct_init_def bitmap_desc_def
      pages_desc_def map_end_def message_defs Let_def)

lemma link_fields [simp]:
  "e820 (link_descriptor ld g) = e820 g" "e820_num (link_descriptor ld g) = e820_num g"
  "e820_available_size (link_descriptor ld g) = e820_available_size g"
  "kernel_start_phyaddr (link_descriptor ld g) = sym_start_kernel ld"
  "kernel_end_phyaddr (link_descriptor ld g) = sym_end_kernel ld"
  "map_end (link_descriptor ld g) = map_end g"
  by (simp_all add: link_descriptor_def map_end_def)

lemma gmdsc_place_tables: "gmdsc (place_tables ld s) = placed ld (gmdsc s)"
  by (simp add: place_tables_def placed_def message_defs Let_def)

lemma init_memory_descriptor: "init_memory ld s = Some s' \<Longrightarrow> gmdsc s' = placed ld (gmdsc s)"
  by (auto simp: init_memory_def construct_mem_struct_def gmdsc_place_tables dest: zones_loop_descriptor)

lemma bits_place_tables:
  "bits (place_tables ld s) =
     fill_table (page_bits_length (placed ld (gmdsc s)) div 8) 0xffffffffffffffff (bits s)"
  by (simp add: place_tables_def placed_def message_defs Let_def pages_desc_def zones_desc_def)

lemma pages_place_tables:
  "pages (place_tables ld s) = fill_table (pages_size (placed ld (gmdsc s))) zero_page (pages s)"
  by (simp add: place_tables_def placed_def message_defs Let_def zones_desc_def pages_desc_def)

lemma placed_fields:
  fixes ld g
  defines "g' \<equiv> placed ld g"
  shows "e820 g' = e820 g" "e820_num g' = e820_num g"
    "total_mem_length g' = map_end g"
    "page_bits g' = PAGE_4K_ALIGN (sym_end_kernel ld)"
    "page_bits_length g' = ((drop_bit 12 (map_end g) + 64 - 1) div 8) AND NOT 7"
    "pages_struct g' = PAGE_4K_ALIGN (page_bits g' + 8 * page_bits_length g')"
    "pages_size g' = drop_bit 12 (map_end g)"
    "pages_length g' = (pages_size g' * 40 + 8 - 1) AND NOT 7"
    "zones_struct g' = PAGE_4K_ALIGN (pages_struct g' + 40 * pages_size g')"
    "zones_size g' = e820_available_size g"
    "zones_length g' = (zones_size g' * 72 + 8 - 1) AND NOT 7"
    "end_of_struct g' = PAGE_4K_ALIGN (zones_struct g' + 72 * zones_size g')"
    "kernel_start_phyaddr g' = sym_start_kernel ld" "kernel_end_phyaddr g' = sym_end_kernel ld"
  unfolding g'_def
  by (simp_all add: placed_def Let_def bitmap_desc_def pages_desc_def zones_desc_def
      sizeof_mm_page_def sizeof_mm_zone_def)

lemma unat_and_minus_8: "unat ((a :: u64) AND - 8) = unat a div 8 * 8"
proof -
  have "a AND NOT (mask 3) = push_bit 3 (drop_bit 3 a)"
    by (rule bit_eqI) (auto simp: bit_simps dest: bit_imp_le_length)
  moreover have "- 8 = NOT (mask 3 :: u64)" by (simp add: mask_eq_exp_minus_1)
  ultimately have "a AND - 8 = push_bit 3 (drop_bit 3 a)" by (simp only:)
  also have "\<dots> = a div 8 * 8" by (simp add: push_bit_eq_mult drop_bit_eq_div)
  finally have "a AND - 8 = a div 8 * 8" .
  moreover have "unat (a div 8) * 8 < 2 ^ 64"
    using unsigned_less [of a, where ?'a = nat] by (simp add: unat_div)
  then have "unat (a div 8 * 8) = unat (a div 8) * 8"
    using unat_mult_lem [of "a div 8" 8] by simp
  ultimately show ?thesis by (simp add: unat_div)
qed

lemma unat_bitmap_length:
  "unat (page_bits_length (placed ld g)) = 8 * ((unat (pages_size (placed ld g)) + 63) div 64)"
proof -
  let ?n = "drop_bit 12 (map_end g)"
  have "unat ?n < 2 ^ 52" by (rule unat_drop_12_less)
  then have "unat (?n + 63) = unat ?n + 63" using unat_add_lem [of ?n 63] by simp
  then have "unat ((?n + 63) div 8 AND - 8) = (unat ?n + 63) div 8 div 8 * 8"
    by (simp only: unat_and_minus_8 unat_div) simp
  also have "\<dots> = 8 * ((unat ?n + 63) div 64)" by (simp add: div_mult2_eq [symmetric])
  finally show ?thesis by (simp add: placed_fields add.commute)
qed

lemma tables_cleared_place_tables: "tables_cleared (place_tables ld s)"
proof -
  let ?g = "placed ld (gmdsc s)"
  have "drop_bit 6 f < page_bits_length ?g div 8" if "f < pages_size ?g" for f
  proof -
    have "unat (page_bits_length ?g div 8) = (unat (pages_size ?g) + 63) div 64"
      by (simp only: unat_div unat_bitmap_length) simp
    moreover have "unat (drop_bit 6 f) = unat f div 64" by (simp add: drop_bit_eq_div unat_div)
    moreover have "unat f + 64 \<le> unat (pages_size ?g) + 63" using that by (simp add: word_less_nat_alt)
    then have "unat f div 64 < (unat (pages_size ?g) + 63) div 64"
      using div_le_mono [of "unat f + 64" _ 64] by fastforce
    ultimately show ?thesis by (simp add: word_less_nat_alt)
  qed
  moreover have "bit (0xffffffffffffffff :: u64) (unat (f mod 64))" for f :: u64
  proof -
    have "(0xffffffffffffffff :: u64) = mask 64" by (simp add: mask_eq_exp_minus_1)
    moreover have "unat (f mod 64) < 64" by (simp add: unat_mod)
    ultimately show ?thesis by (simp only: bit_mask_iff) simp
  qed
  ultimately show ?thesis
    by (auto simp: tables_cleared_def gmdsc_place_tables bits_place_tables pages_place_tables
        fill_table_def frame_used_def)
qed

text \<open>Sizes for which no address of the tables wraps: the image ends below 2 to the 46, memory below
  2 to the 47 and there are fewer than 2 to the 32 zones.\<close>

definition sizes_fit :: "linker \<Rightarrow> mm_descriptor \<Rightarrow> bool" where
  "sizes_fit ld g \<longleftrightarrow> unat (sym_end_kernel ld) < 2 ^ 46 \<and> unat (map_end g) < 2 ^ 47 \<and>
     unat (e820_available_size g) < 2 ^ 32"

lemma next_table:
  fixes b c n :: u64
  assumes "unat b + unat c * unat n + 4095 < 2 ^ 64"
  shows "unat b + unat c * unat n \<le> unat (PAGE_4K_ALIGN (b + c * n))"
    "unat (PAGE_4K_ALIGN (b + c * n)) < unat b + unat c * unat n + 4096"
    "4096 dvd unat (PAGE_4K_ALIGN (b + c * n))"
proof -
  have "unat (c * n) = unat c * unat n" using assms unat_mult_lem [of c n] by simp
  then have e: "unat (b + c * n) = unat b + unat c * unat n"
    using assms unat_add_lem [of b "c * n"] by simp
  with assms have "unat (b + c * n) + 4095 < 2 ^ 64" by simp
  note PAGE_4K_ALIGN_least [OF this]
  with e show "unat b + unat c * unat n \<le> unat (PAGE_4K_ALIGN (b + c * n))"
    "unat (PAGE_4K_ALIGN (b + c * n)) < unat b + unat c * unat n + 4096"
    "4096 dvd unat (PAGE_4K_ALIGN (b + c * n))" by simp_all
qed

lemma table_length:
  fixes c n :: u64
  assumes "unat n * unat c + 7 < 2 ^ 64" "8 dvd unat c"
  shows "unat ((n * c + 8 - 1) AND NOT 7) = unat c * unat n"
proof -
  have "unat (n * c) = unat n * unat c" using assms unat_mult_lem [of n c] by simp
  then have "unat (n * c + 7) = unat n * unat c + 7"
    using assms unat_add_lem [of "n * c" 7] by simp
  moreover obtain d where d: "unat c = 8 * d" using assms(2) by (elim dvdE)
  then have "(unat n * unat c + 7) div 8 * 8 = unat c * unat n"
    using div_mult_self1 [of 8 7 "unat n * d"] by (simp add: algebra_simps)
  ultimately show ?thesis by (simp add: unat_and_minus_8 add.commute)
qed

lemma table_places:
  assumes "sizes_fit ld g"
  defines "g' \<equiv> placed ld g"
  shows "unat (sym_end_kernel ld) \<le> unat (page_bits g')"
    "unat (page_bits g') + unat (page_bits_length g') \<le> unat (pages_struct g')"
    "unat (pages_struct g') + unat (pages_length g') \<le> unat (zones_struct g')"
    "unat (zones_struct g') + unat (zones_length g') \<le> unat (end_of_struct g')"
    "unat (end_of_struct g') < 2 ^ 47"
    "unat (pages_length g') = 40 * unat (pages_size g')"
    "unat (zones_length g') = 72 * unat (zones_size g')"
    "4096 dvd unat (page_bits g')" "4096 dvd unat (pages_struct g')"
    "4096 dvd unat (zones_struct g')" "4096 dvd unat (end_of_struct g')"
proof -
  have n: "unat (pages_size g') < 2 ^ 35"
    using assms less_mult_imp_div_less [of "unat (map_end g)" "2 ^ 35" 4096]
    by (simp add: placed_fields sizes_fit_def unat_drop_12)
  have z: "unat (zones_size g') < 2 ^ 32" using assms by (simp add: placed_fields sizes_fit_def)
  have k: "unat (sym_end_kernel ld) < 2 ^ 46" using assms by (simp add: sizes_fit_def)
  have len: "unat (page_bits_length g') \<le> unat (pages_size g') + 64"
    unfolding g'_def unat_bitmap_length by linarith
  note eqs = placed_fields(4,6,9,12) [of ld g, folded g'_def]
  note t1 = next_table [of "sym_end_kernel ld" 0 0, simplified, folded eqs(1)]
  note t2 = next_table [of "page_bits g'" 8 "page_bits_length g'", folded eqs(2), simplified]
  note t3 = next_table [of "pages_struct g'" 40 "pages_size g'", folded eqs(3), simplified]
  note t4 = next_table [of "zones_struct g'" 72 "zones_size g'", folded eqs(4), simplified]
  have b1: "unat (page_bits g') < 2 ^ 46 + 2 ^ 12" using t1(2) k by simp
  have b2: "unat (pages_struct g') < 2 ^ 46 + 2 ^ 39" using t2(2) b1 len n by simp
  have b3: "unat (zones_struct g') < 2 ^ 46 + 2 ^ 42" using t3(2) b2 n by simp
  show "unat (sym_end_kernel ld) \<le> unat (page_bits g')" "4096 dvd unat (page_bits g')"
    using t1 k by simp_all
  show "unat (page_bits g') + unat (page_bits_length g') \<le> unat (pages_struct g')"
    "4096 dvd unat (pages_struct g')" using t2 b1 len n by simp_all
  show pl: "unat (pages_length g') = 40 * unat (pages_size g')"
    using table_length [of "pages_size g'" 40] n unfolding g'_def placed_fields(8) by simp
  show zl: "unat (zones_length g') = 72 * unat (zones_size g')"
    using table_length [of "zones_size g'" 72] z unfolding g'_def placed_fields(11) by simp
  show "unat (pages_struct g') + unat (pages_length g') \<le> unat (zones_struct g')"
    "4096 dvd unat (zones_struct g')" using t3 b2 n pl by simp_all
  show "unat (zones_struct g') + unat (zones_length g') \<le> unat (end_of_struct g')"
    "4096 dvd unat (end_of_struct g')" "unat (end_of_struct g') < 2 ^ 47"
    using t4 b3 z zl by simp_all
qed

subsection \<open>What the zones describe\<close>

definition zone_range :: "mm_zone \<Rightarrow> u64 \<times> u64 \<times> u64" where
  "zone_range z = (zone_start_addr z, zone_end_addr z, zone_length z)"

definition entry_range :: "e820_t \<Rightarrow> u64 \<times> u64 \<times> u64" where
  "entry_range e = (range_start e, range_end e, range_end e - range_start e)"

lemma frames_loop_zones:
  "frames_loop start z len j p s = Some s' \<Longrightarrow> zones s' = zones s"
  by (rule frames_loop.raw_induct [where P = "\<lambda>start z len j p s s'. zones s' = zones s"])
    (auto split: if_splits)

lemma zone_setup_zones:
  "zone_setup z e s = Some s' \<Longrightarrow> j \<noteq> z \<Longrightarrow> zones s' (Some j) = zones s (Some j)"
  "zone_setup z e s = Some s' \<Longrightarrow> zone_range (zones s' (Some z)) = entry_range e"
  by (auto simp: zone_setup_def Let_def zone_of_range_def zone_range_def entry_range_def
      dest: frames_loop_zones)

lemma setup_zones_ranges:
  assumes "setup_zones es n s = Some s'" "unat n + length es < 2 ^ 32"
  shows "(\<forall>k < length (filter usable es).
      zone_range (zones s' (Some (ucast n + of_nat k))) = entry_range (filter usable es ! k)) \<and>
    (\<forall>j < ucast n. zones s' (Some j) = zones s (Some j))"
  using assms
proof (induction es arbitrary: n s)
  case (Cons e es)
  show ?case
  proof (cases "usable e")
    case True
    have "unat n < 2 ^ 32 - 1" using Cons.prems(2) by simp
    then have n1: "unat (n + 1) = unat n + 1" "unat (ucast n + 1 :: u64) = unat n + 1"
      using unat_add_lem [of n 1] unat_add_lem [of "ucast n :: u64" 1] by simp_all
    then have u1: "(ucast (n + 1) :: u64) = ucast n + 1" by (simp add: word_unat_eq_iff)
    obtain s1 where s1: "zone_setup (ucast n) e s = Some s1" "setup_zones es (n + 1) s1 = Some s'"
      using Cons.prems(1) True by (auto simp: bind_eq_Some_conv)
    have IH: "\<And>k. k < length (filter usable es) \<Longrightarrow>
        zone_range (zones s' (Some (ucast n + 1 + of_nat k))) = entry_range (filter usable es ! k)"
      "\<And>j. j < ucast n + 1 \<Longrightarrow> zones s' (Some j) = zones s1 (Some j)"
      using Cons.IH [OF s1(2)] Cons.prems(2) n1 u1 by simp_all
    have "zone_range (zones s' (Some (ucast n + of_nat k))) = entry_range (filter usable (e # es) ! k)"
      if "k < length (filter usable (e # es))" for k
    proof (cases k)
      case 0
      have "ucast n < (ucast n + 1 :: u64)" using n1(2) by (simp add: word_less_nat_alt)
      then show ?thesis using 0 True IH(2) zone_setup_zones(2) [OF s1(1)] by simp
    next
      case (Suc k')
      then show ?thesis using that True IH(1) [of k'] by (simp add: algebra_simps)
    qed
    moreover have "zones s' (Some j) = zones s (Some j)" if "j < ucast n" for j
    proof -
      have "j < ucast n + 1" using that n1(2) by (simp add: word_less_nat_alt)
      then show ?thesis using that IH(2) zone_setup_zones(1) [OF s1(1), of j] by auto
    qed
    ultimately show ?thesis by blast
  next
    case False
    then show ?thesis using Cons by simp
  qed
qed simp

lemma page_init_range [simp]: "zone_range (zones (page_init f flags s) z) = zone_range (zones s z)"
  by (simp add: page_init_def Let_def zone_range_def)

lemma page_inits_range [simp]:
  "zone_range (zones (fold (\<lambda>f. page_init f flags) fs s) z) = zone_range (zones s z)"
  by (induction fs arbitrary: s) auto

lemma construct_mem_struct_ranges:
  assumes "construct_mem_struct s = Some s'" "e820_num (gmdsc s) < 0x100000000"
    and "k < length (filter usable (map_entries (gmdsc s) 0))"
  shows "zone_range (zones s' (Some (of_nat k))) = entry_range (filter usable (map_entries (gmdsc s) 0) ! k)"
proof -
  obtain s1 where s1: "setup_zones (map_entries (gmdsc s) 0) 0 s = Some s1"
    "s' = fold (\<lambda>i. page_init i kernel_page_flags) (kernel_frames (gmdsc s1)) s1"
    using assms(1) zones_loop_eq [of s 0 0] assms(2) by (auto simp: construct_mem_struct_def)
  then show ?thesis
    using setup_zones_ranges [OF s1(1)] assms(2,3)
    by (simp add: map_entries_def word_less_nat_alt)
qed

text \<open>A usable range with 2 to the 32 frames or more is never finished.\<close>

lemma setup_zones_returns:
  assumes "setup_zones es n s = Some s'" "e \<in> set es" "usable e"
  shows "drop_bit 12 (range_end e) - drop_bit 12 (range_start e) < 0x100000000"
  using assms
proof (induction es arbitrary: n s)
  case (Cons d es)
  show ?case
  proof (cases "d = e")
    case True
    then obtain s1 where "zone_setup (ucast n) e s = Some s1"
      using Cons.prems by (auto simp: bind_eq_Some_conv)
    then have "unat (drop_bit 12 (range_end e - range_start e)) < 2 ^ 32"
      by (auto simp: zone_setup_def Let_def zone_of_range_def dest!: frames_loop_returns)
    then show ?thesis
      using range_length(1) [of e] assms(3) by (simp add: usable_def word_less_nat_alt)
  next
    case False
    then show ?thesis
      using Cons by (auto simp: bind_eq_Some_conv split: if_splits)
  qed
qed simp

subsection \<open>init_memory\<close>

lemma map_entries_placed [simp]: "map_entries (placed ld g) i = map_entries g i"
  by (simp add: map_entries_def placed_fields)

lemma slot_int_small: "unat a < 2 ^ 31 \<Longrightarrow> slot_int a = int (unat a)"
proof -
  assume a: "unat a < 2 ^ 31"
  then have "int (unat a) < int (2 ^ 31)" by (simp only: of_nat_less_iff)
  then have "uint a < 2 ^ 31" by simp
  then have "uint (ucast a :: u32) = uint a"
    by (simp add: unsigned_ucast_eq take_bit_int_eq_self)
  moreover have "signed_take_bit 31 (uint a) = uint a"
    using \<open>uint a < 2 ^ 31\<close> unsigned_greater_eq [of a, where ?'a = int]
    by (intro signed_take_bit_int_eq_self) linarith+
  ultimately show ?thesis by (simp add: slot_int_def sint_uint)
qed

lemma set_kernel_frames:
  assumes "unat (drop_bit 12 (kernel_start_phyaddr g)) < 2 ^ 31" "unat (drop_bit 12 (VIR2PHY (end_of_struct g))) < 2 ^ 31"
  shows "set (kernel_frames g) =
    {f. drop_bit 12 (kernel_start_phyaddr g) \<le> f \<and> f < drop_bit 12 (VIR2PHY (end_of_struct g))}"
    (is "_ = {f. ?a \<le> f \<and> f < ?b}")
proof -
  have "set (kernel_frames g) = word_of_int ` {int (unat ?a)..<int (unat ?b)}"
    unfolding kernel_frames_def slot_int_small [OF assms(1)] slot_int_small [OF assms(2)]
    by (simp only: set_map set_upto) (rule arg_cong, auto)
  also have "\<dots> = of_nat ` {unat ?a..<unat ?b}"
    unfolding image_int_atLeastLessThan [symmetric] image_image by simp
  finally show ?thesis by (simp only: u64_interval)
qed

text \<open>The frames of the kernel image and its tables.\<close>

definition kernel_range :: "linker \<Rightarrow> mm_descriptor \<Rightarrow> u64 set" where
  "kernel_range ld g =
     {f. drop_bit 12 (sym_start_kernel ld) \<le> f \<and> f < drop_bit 12 (end_of_struct (placed ld g))}"

lemma kernel_frames_placed:
  assumes "unat (sym_start_kernel ld) < 2 ^ 43" "unat (end_of_struct (placed ld g)) < 2 ^ 43"
  shows "set (kernel_frames (placed ld g)) = kernel_range ld g"
proof -
  have e: "VIR2PHY (end_of_struct (placed ld g)) = end_of_struct (placed ld g)"
  proof -
    have "VIR2PHY a = take_bit 47 a" for a
      unfolding VIR2PHY_def KERNEL_VIRADDR_mask by (rule bit_eqI) (auto simp: bit_simps)
    moreover have "take_bit 47 (unat (end_of_struct (placed ld g))) = unat (end_of_struct (placed ld g))"
      using assms(2) by (simp add: take_bit_nat_eq_self)
    ultimately show ?thesis by (simp add: word_unat_eq_iff unsigned_take_bit_eq)
  qed
  have "unat (drop_bit 12 a) < 2 ^ 31" if "unat a < 2 ^ 43" for a :: u64
    using that less_mult_imp_div_less [of "unat a" "2 ^ 31" 4096] by (simp only: unat_drop_12) simp
  then show ?thesis
    using assms set_kernel_frames [of "placed ld g"] by (simp add: e placed_fields(13) kernel_range_def)
qed

lemma init_memory_books:
  assumes "map_ok (placed ld (gmdsc s))"
    and "unat (sym_start_kernel ld) < 2 ^ 43" "unat (end_of_struct (placed ld (gmdsc s))) < 2 ^ 43"
    and "kernel_range ld (gmdsc s) \<subseteq> usable_frames (map_entries (gmdsc s) 0)"
  shows "\<exists>s'. init_memory ld s = Some s' \<and> books_right s' \<and> gmdsc s' = placed ld (gmdsc s) \<and>
    owned_frames s' = usable_frames (map_entries (gmdsc s) 0) \<and>
    used_frames s' = kernel_range ld (gmdsc s) \<and>
    (\<forall>f < pages_size (placed ld (gmdsc s)). f \<notin> owned_frames s' \<longrightarrow> frame_used (bits s') f)"
  using construct_mem_struct_books [OF tables_cleared_place_tables, of ld s] assms
  by (auto simp: init_memory_def gmdsc_place_tables kernel_frames_placed)

lemma init_memory_ranges:
  assumes "init_memory ld s = Some s'" "map_ok (placed ld (gmdsc s))"
    and "k < length (filter usable (map_entries (gmdsc s) 0))"
  shows "zone_range (zones s' (Some (of_nat k))) = entry_range (filter usable (map_entries (gmdsc s) 0) ! k)"
  using construct_mem_struct_ranges [of "place_tables ld s" s' k] assms
  by (simp add: init_memory_def gmdsc_place_tables map_ok_def)

subsection \<open>Properties\<close>

text \<open>The bitmap table of the model is what the byte-level memset of page_bitmap_init leaves in memory:
  the words below the length become all ones and every other word keeps its value.\<close>

theorem memset_fills_bitmap:
  assumes "unat n < 2 ^ 61" "unat i < 2 ^ 61"
  shows "load_le 8 (memset p 0xff (8 * n) m) (p + 8 * i) =
    fill_table n 0xffffffffffffffff (\<lambda>i. load_le 8 m (p + 8 * i)) i"
proof -
  have "word_of_bytes (replicate 8 0xff) = 0xffffffffffffffff" by code_simp
  then show ?thesis
    using kstring.fill_words [OF assms, of p "0xff" m] by (simp add: load_le_def fill_table_def)
qed

theorem memset_fills_bitmap_witness:
  "load_le 8 (memset 0x1000 0xff 16 (\<lambda>_. 7)) 0x1008 = 0xffffffffffffffff \<and>
   load_le 8 (memset 0x1000 0xff 16 (\<lambda>_. 7)) 0x1010 = 0x0707070707070707"
proof -
  have "load_le 8 (\<lambda>_. 7) 0x1010 = 0x0707070707070707" by code_simp
  then show ?thesis
    using memset_fills_bitmap [of 2 1 "0x1000" "\<lambda>_. 7"] memset_fills_bitmap [of 2 2 "0x1000" "\<lambda>_. 7"]
    by (simp add: fill_table_def)
qed

text \<open>C24: When init_memory returns, the descriptor's tables lie behind the kernel image in the order bitmap, page
  structures, zones, each on a page boundary, none reaching into the next, and they have room for a bit per frame,
  40 bytes per frame and 72 bytes per available range; end_of_struct is behind them. This is for a kernel that ends
  below 2 to the 46, memory below 2 to the 47 and fewer than 2 to the 32 ranges, so that no address wraps.\<close>

theorem tables_do_not_overlap:
  assumes "init_memory ld s = Some s'" "unat (sym_end_kernel ld) < 2 ^ 46"
    and "unat (map_end (gmdsc s)) < 2 ^ 47" "unat (e820_available_size (gmdsc s)) < 2 ^ 32"
  shows "let g = gmdsc s'
    in unat (sym_end_kernel ld) \<le> unat (page_bits g) \<and>
       unat (page_bits g) + unat (page_bits_length g) \<le> unat (pages_struct g) \<and>
       unat (pages_struct g) + 40 * unat (pages_size g) \<le> unat (zones_struct g) \<and>
       unat (zones_struct g) + 72 * unat (zones_size g) \<le> unat (end_of_struct g) \<and>
       8 * unat (page_bits_length g) \<ge> unat (pages_size g) \<and> pages_size g = drop_bit 12 (map_end (gmdsc s)) \<and>
       zones_size g = e820_available_size (gmdsc s) \<and> 4096 dvd unat (page_bits g) \<and>
       4096 dvd unat (pages_struct g) \<and> 4096 dvd unat (zones_struct g) \<and> 4096 dvd unat (end_of_struct g)"
proof -
  let ?g = "placed ld (gmdsc s)"
  have "unat (pages_size ?g) \<le> 8 * unat (page_bits_length ?g)" unfolding unat_bitmap_length by linarith
  moreover have "sizes_fit ld (gmdsc s)" using assms(2-4) by (simp add: sizes_fit_def)
  moreover have "pages_size ?g = drop_bit 12 (map_end (gmdsc s))" "zones_size ?g = e820_available_size (gmdsc s)"
    by (simp_all add: placed_fields)
  ultimately show ?thesis
    unfolding init_memory_descriptor [OF assms(1)] Let_def using table_places [of ld "gmdsc s"] by simp
qed

text \<open>One megabyte of memory in one available range, a kernel image from 64 to 96 kilobytes.\<close>

definition small_linker :: linker where
  "small_linker = \<lparr>sym_start_kernel = 0x10000, sym_end_kernel = 0x18000, sym_pml4 = 0x10000,
     sym_start_text = 0, sym_end_text = 0, sym_start_data = 0, sym_end_data = 0,
     sym_start_rodata = 0, sym_end_rodata = 0, sym_start_bss = 0, sym_end_bss = 0, sym_mm_file = 0\<rparr>"

definition small_map :: mm_descriptor where
  "small_map = empty_descriptor\<lparr>e820 := (\<lambda>_. \<lparr>e820_addr = 0, e820_len = 0x100000, e820_type = 1\<rparr>),
     e820_num := 1, e820_available_size := 1\<rparr>"

definition before_init :: mm_state where
  "before_init = \<lparr>trace = [], dev = (\<lambda>_. 0), reads = 0, Global_CR3 = 0, gmdsc = small_map,
     bits = (\<lambda>_. 0), pages = (\<lambda>_. zero_page), zones = (\<lambda>_. zero_zone)\<rparr>"

lemma small_fields [simp]:
  "sym_start_kernel small_linker = 0x10000" "sym_end_kernel small_linker = 0x18000"
  "e820_available_size small_map = 1" "e820_num small_map = 1" "map_end small_map = 0x100000"
  "e820 small_map i = \<lparr>e820_addr = 0, e820_len = 0x100000, e820_type = 1\<rparr>"
  "gmdsc before_init = small_map"
  by (simp_all add: small_linker_def small_map_def map_end_def before_init_def)

lemma small_places:
  "pages_size (placed small_linker small_map) = 0x100"
  "page_bits (placed small_linker small_map) = 0x18000"
  "pages_struct (placed small_linker small_map) = 0x19000"
  "zones_struct (placed small_linker small_map) = 0x1c000"
  "end_of_struct (placed small_linker small_map) = 0x1d000"
proof -
  have a: "PAGE_4K_ALIGN 0x18000 = 0x18000" "PAGE_4K_ALIGN 0x18100 = 0x19000"
    "PAGE_4K_ALIGN 0x1b800 = 0x1c000" "PAGE_4K_ALIGN 0x1c048 = 0x1d000"
    by (simp_all add: PAGE_4K_ALIGN_def PAGE_4K_MASK_def PAGE_4K_SIZE_def)
  have l: "page_bits_length (placed small_linker small_map) = 0x20" by (simp add: placed_fields)
  show sz: "pages_size (placed small_linker small_map) = 0x100" by (simp add: placed_fields)
  show pb: "page_bits (placed small_linker small_map) = 0x18000" by (simp add: placed_fields a)
  show ps: "pages_struct (placed small_linker small_map) = 0x19000"
    unfolding placed_fields(6) pb l using a by simp
  show zs: "zones_struct (placed small_linker small_map) = 0x1c000"
    unfolding placed_fields(9) ps sz using a by simp
  show "end_of_struct (placed small_linker small_map) = 0x1d000"
    unfolding placed_fields(12) zs placed_fields(10) using a by simp
qed

lemma small_entries: "map_entries small_map 0 = [\<lparr>e820_addr = 0, e820_len = 0x100000, e820_type = 1\<rparr>]"
  by (simp add: map_entries_def)

lemma small_range:
  "range_start \<lparr>e820_addr = 0, e820_len = 0x100000, e820_type = 1\<rparr> = 0"
  "range_end \<lparr>e820_addr = 0, e820_len = 0x100000, e820_type = 1\<rparr> = 0x100000"
  by (simp_all add: range_start_def range_end_def PAGE_4K_ALIGN_def PAGE_4K_MASK_def PAGE_4K_SIZE_def)

lemma small_usable: "usable \<lparr>e820_addr = 0, e820_len = 0x100000, e820_type = 1\<rparr>"
  by (simp add: usable_def small_range E820_TYPE_AVAILABLE_def)

lemma small_map_ok: "map_ok (placed small_linker small_map)"
  using small_places(1)
  by (simp add: map_ok_def placed_fields(2) small_entries range_fits_def small_range)

lemma small_usable_frames: "usable_frames (map_entries small_map 0) = {f. f < 0x100}"
  using small_usable by (auto simp: usable_frames_def small_entries range_frames_def small_range)

lemma small_kernel_range: "kernel_range small_linker small_map = {f. 0x10 \<le> f \<and> f < 0x1d}"
  by (simp add: kernel_range_def small_places)

text \<open>C4: init_memory returns with right books: the frames the zones own are those of the available
  ranges, and the used ones are exactly the frames from the start of the kernel to the end of its
  tables; every other frame stays marked in the bitmap. This is for a map whose available ranges are apart, within
  the memory size taken from its last entry and of fewer than 2 to the 32 frames, and for a kernel that lies,
  with its tables, in available memory below 2 to the 43.\<close>

theorem init_memory_takes_the_kernel:
  assumes "map_ok (placed ld (gmdsc s))"
    and "unat (sym_start_kernel ld) < 2 ^ 43" "unat (end_of_struct (placed ld (gmdsc s))) < 2 ^ 43"
    and "kernel_range ld (gmdsc s) \<subseteq> usable_frames (map_entries (gmdsc s) 0)"
  shows "\<exists>s'. init_memory ld s = Some s' \<and> books_right s' \<and> gmdsc s' = placed ld (gmdsc s) \<and>
    owned_frames s' = usable_frames (map_entries (gmdsc s) 0) \<and>
    used_frames s' = kernel_range ld (gmdsc s) \<and>
    (\<forall>f < pages_size (placed ld (gmdsc s)). f \<notin> owned_frames s' \<longrightarrow> frame_used (bits s') f)"
  by (rule init_memory_books [OF assms])

lemma small_kernel_inside:
  "kernel_range small_linker small_map \<subseteq> usable_frames (map_entries small_map 0)"
  unfolding small_kernel_range small_usable_frames
proof (rule subsetI)
  fix f :: u64 assume "f \<in> {f. 0x10 \<le> f \<and> f < 0x1d}"
  then have "f < 0x1d" by simp
  moreover have "(0x1d :: u64) < 0x100" by simp
  ultimately have "f < 0x100" by (rule less_trans)
  then show "f \<in> {f. f < 0x100}" by simp
qed

theorem tables_do_not_overlap_witness:
  "\<exists>s'. init_memory small_linker before_init = Some s' \<and> unat (page_bits (gmdsc s')) \<ge> 0x18000 \<and>
    4096 dvd unat (page_bits (gmdsc s')) \<and> pages_size (gmdsc s') = 0x100"
proof -
  obtain s' where s': "init_memory small_linker before_init = Some s'"
    using init_memory_books [of small_linker before_init] small_kernel_inside
    unfolding small_fields small_usable_frames small_kernel_range by (auto simp: small_map_ok small_places)
  from tables_do_not_overlap [OF this] have "let g = gmdsc s' in 0x18000 \<le> unat (page_bits g) \<and>
      4096 dvd unat (page_bits g) \<and> pages_size g = 0x100"
    by (simp add: Let_def)
  with s' show ?thesis by (auto simp: Let_def)
qed

theorem init_memory_takes_the_kernel_witness:
  "\<exists>s'. init_memory small_linker before_init = Some s' \<and> books_right s' \<and>
    owned_frames s' = {f. f < 0x100} \<and> used_frames s' = {f. 0x10 \<le> f \<and> f < 0x1d}"
  using init_memory_takes_the_kernel [of small_linker before_init] small_kernel_inside
  unfolding small_fields small_usable_frames small_kernel_range
  by (auto simp: small_map_ok small_places)

text \<open>C23: The zones are the available ranges of the memory map, cut to whole frames, in the order of the
  map: zone k holds the start, the end and the length of the k-th of them, and ranges without a whole
  frame get no zone; for a map that is sane as in the property before.\<close>

theorem zones_are_the_available_ranges:
  assumes "init_memory ld s = Some s'" "map_ok (placed ld (gmdsc s))"
    and "k < length (filter usable (map_entries (gmdsc s) 0))"
  shows "zone_range (zones s' (Some (of_nat k))) = entry_range (filter usable (map_entries (gmdsc s) 0) ! k)"
  by (rule init_memory_ranges [OF assms])

theorem zones_are_the_available_ranges_witness:
  "\<exists>s'. init_memory small_linker before_init = Some s' \<and>
     zone_range (zones s' (Some 0)) = (0, 0x100000, 0x100000)"
proof -
  obtain s' where s': "init_memory small_linker before_init = Some s'"
    using init_memory_books [of small_linker before_init] small_kernel_inside
    by (auto simp: small_map_ok small_places)
  have "zone_range (zones s' (Some (of_nat 0))) = entry_range (filter usable (map_entries small_map 0) ! 0)"
    using zones_are_the_available_ranges [OF s', of 0] small_map_ok
    by (simp add: small_entries small_usable)
  with s' show ?thesis
    by (simp add: small_entries small_usable entry_range_def small_range)
qed

text \<open>C39: An available range of 2 to the 32 frames (16 terabytes) or more makes init_memory loop forever: its
  page counter j has 32 bits and never reaches the 64-bit number of pages.\<close>

theorem huge_range_never_returns:
  assumes "e820_num (gmdsc s) < 0x100000000"
    and "e \<in> set (map_entries (gmdsc s) 0)" "usable e"
    and "0x100000000 \<le> drop_bit 12 (range_end e) - drop_bit 12 (range_start e)"
  shows "init_memory ld s = None"
proof (cases "init_memory ld s")
  case (Some s')
  then obtain s1 where "setup_zones (map_entries (gmdsc s) 0) 0 (place_tables ld s) = Some s1"
    using assms(1) zones_loop_eq [of "place_tables ld s" 0 0]
    by (auto simp: init_memory_def construct_mem_struct_def gmdsc_place_tables placed_fields)
  from setup_zones_returns [OF this assms(2,3)] assms(4) show ?thesis
    by (simp add: not_less [symmetric])
qed

theorem huge_range_never_returns_witness:
  "init_memory small_linker (before_init\<lparr>gmdsc := small_map
     \<lparr>e820 := (\<lambda>_. \<lparr>e820_addr = 0, e820_len = 0x100000000000, e820_type = 1\<rparr>)\<rparr>\<rparr>) = None"
proof -
  let ?e = "\<lparr>e820_addr = 0, e820_len = 0x100000000000, e820_type = 1\<rparr>"
  have r: "range_start ?e = 0" "range_end ?e = 0x100000000000"
    by (simp_all add: range_start_def range_end_def PAGE_4K_ALIGN_def PAGE_4K_MASK_def PAGE_4K_SIZE_def)
  then have "usable ?e" by (simp add: usable_def E820_TYPE_AVAILABLE_def)
  then show ?thesis
    using r huge_range_never_returns [of "before_init\<lparr>gmdsc := small_map\<lparr>e820 := (\<lambda>_. ?e)\<rparr>\<rparr>" ?e small_linker]
    by (simp add: map_entries_def)
qed

end
