(* ===== verification/PageAlloc.thy ===== *)
theory PageAlloc
  imports MemInit
begin

text \<open>
  \<^verbatim>\<open>mm/alloc.c\<close>: \<^verbatim>\<open>alloc_pages\<close> scans the bitmap of the selected zones for a run of free frames and takes
  the pages with \<^verbatim>\<open>page_init\<close>. Frame numbers are natural numbers in the scan: they come from addresses
  shifted right by 12, so they stay below 2 to the 52 and the loop counter never wraps. The lemmas
  relate the shifted words the loop tests to the bits of the bitmap, and so find which pages the
  function returns: the page one below the run it has tested, when the scan stands on a word boundary.
\<close>

definition ZONE_DMA :: int where "ZONE_DMA = 1"
definition ZONE_NORMAL :: int where "ZONE_NORMAL = 2"
definition ZONE_UNMAPED :: int where "ZONE_UNMAPED = 4"

text \<open>The global indices, which no code assigns.\<close>

definition ZONE_DMA_INDEX :: int where "ZONE_DMA_INDEX = 0"
definition ZONE_NORMAL_INDEX :: int where "ZONE_NORMAL_INDEX = 0"
definition ZONE_UNMAPED_INDEX :: int where "ZONE_UNMAPED_INDEX = 0"

subsection \<open>The scan\<close>

text \<open>\<^verbatim>\<open>n == 64 ? 0xffffffffffffffffUL : ((1UL << n) - 1)\<close>, with the shift count modulo 64 as the
  processor takes it.\<close>

definition run_mask :: "int \<Rightarrow> u64" where
  "run_mask n = (if n = 64 then 0xffffffffffffffff else push_bit (nat (n mod 64)) 1 - 1)"

text \<open>\<^verbatim>\<open>!(((*p >> k) | (*(p + 1) << (64 - k))) & mask)\<close> for \<open>k < 64\<close>.\<close>

definition run_free :: "u64 \<Rightarrow> u64 \<Rightarrow> nat \<Rightarrow> int \<Rightarrow> bool" where
  "run_free p0 p1 k n \<longleftrightarrow>
     (drop_bit k p0 OR push_bit ((64 - k) mod 64) p1) AND run_mask n = 0"

text \<open>The inner loop \<^verbatim>\<open>for (k = shift; k < 64 - shift; k++)\<close> at frame \<open>j\<close>.\<close>

definition scan_word :: "(u64 \<Rightarrow> u64) \<Rightarrow> int \<Rightarrow> nat \<Rightarrow> nat option" where
  "scan_word bs n j =
     (let p = of_nat (j div 64); shift = j mod 64
      in List.find (\<lambda>k. run_free (bs p) (bs (p + 1)) k n) [shift..<64 - shift])"

text \<open>The outer loop \<^verbatim>\<open>for (j = start; j <= end; j += j % 64 ? tmp : 64)\<close>: the \<open>j\<close> and \<open>k\<close> found.\<close>

function scan_frames :: "(u64 \<Rightarrow> u64) \<Rightarrow> int \<Rightarrow> nat \<Rightarrow> nat \<Rightarrow> nat \<Rightarrow> (nat \<times> nat) option" where
  "scan_frames bs n start stop j =
     (if j \<le> stop then
        case scan_word bs n j of
          Some k \<Rightarrow> Some (j, k)
        | None \<Rightarrow> scan_frames bs n start stop (j + (if j mod 64 \<noteq> 0 then 64 - start mod 64 else 64))
      else None)"
  by pat_completeness auto
termination
proof (relation "measure (\<lambda>(bs, n, start, stop, j). Suc stop - j)", goal_cases)
  case (2 bs n start stop j)
  have "start mod 64 < 64" by simp
  then have "0 < (if j mod 64 \<noteq> 0 then 64 - start mod 64 else 64)" by simp
  with 2 show ?case by simp
qed simp

declare scan_frames.simps [simp del]

subsection \<open>alloc_pages\<close>

text \<open>The zone indices searched, or \<open>None\<close> for an unknown selector. The last index is an \<^verbatim>\<open>int\<close> made
  from a 64-bit count.\<close>

definition zone_window :: "int \<Rightarrow> mm_descriptor \<Rightarrow> (int \<times> int) option" where
  "zone_window zone_select g =
     (if zone_select = ZONE_DMA then Some (0, ZONE_DMA_INDEX)
      else if zone_select = ZONE_NORMAL then Some (ZONE_DMA_INDEX, ZONE_NORMAL_INDEX)
      else if zone_select = ZONE_UNMAPED then Some (ZONE_UNMAPED_INDEX, slot_int (zones_size g - 1))
      else None)"

text \<open>The page index \<^verbatim>\<open>j + k - 1\<close> of the first zone with enough free pages and a free run. The count \<open>n\<close>
  is an \<^verbatim>\<open>int\<close> compared as an unsigned 64-bit number.\<close>

fun search_zones :: "'a mm_state_scheme \<Rightarrow> int \<Rightarrow> int list \<Rightarrow> u64 option" where
  "search_zones s n [] = None"
| "search_zones s n (i # is) =
     (let z = zones s (Some (word_of_int i))
      in if page_free_count z < word_of_int n then search_zones s n is
         else let start = unat (drop_bit 12 (zone_start_addr z)); stop = unat (drop_bit 12 (zone_end_addr z))
              in case scan_frames (bits s) n start stop start of
                   Some (j, k) \<Rightarrow> Some (of_nat j + of_nat k - 1)
                 | None \<Rightarrow> search_zones s n is)"

definition take_pages :: "u64 \<Rightarrow> int \<Rightarrow> u64 \<Rightarrow> 'a mm_state_scheme \<Rightarrow> 'a mm_state_scheme" where
  "take_pages page n flags s =
     fold (\<lambda>f. page_init f flags) (map (\<lambda>l. page + of_nat l) [0..<unat (word_of_int n :: u64)]) s"

definition alloc_pages :: "int \<Rightarrow> int \<Rightarrow> u64 \<Rightarrow> 'a mm_state_scheme \<Rightarrow> u64 option \<times> 'a mm_state_scheme" where
  "alloc_pages zone_select n flags s =
     (case zone_window zone_select (gmdsc s) of
        None \<Rightarrow> (None, kerror (''alloc_pages error zone_select index'' @ [newline]) [] s)
      | Some (zone_start, zone_end) \<Rightarrow>
          (case search_zones s n [zone_start..zone_end] of
             None \<Rightarrow> (None, s)
           | Some page \<Rightarrow> (Some page, take_pages page n flags s)))"

subsection \<open>The bits a test looks at\<close>

definition free_run :: "(u64 \<Rightarrow> u64) \<Rightarrow> nat \<Rightarrow> nat \<Rightarrow> bool" where
  "free_run bs t n \<longleftrightarrow> (\<forall>i < n. \<not> frame_used bs (of_nat (t + i)))"

lemma frame_used_nat:
  assumes "t < 2 ^ 64"
  shows "frame_used bs (of_nat t) \<longleftrightarrow> bit (bs (of_nat (t div 64))) (t mod 64)"
proof -
  have t: "unat (of_nat t :: u64) = t" by (rule unat_of_nat_u64 [OF assms])
  have "unat (of_nat t mod 64 :: u64) = t mod 64" by (simp only: unat_mod t) simp
  moreover have "drop_bit 6 (of_nat t :: u64) = of_nat (t div 64)"
  proof -
    have "t div 64 < 2 ^ 64" using assms by (rule le_less_trans [OF div_le_dividend])
    then have "unat (of_nat (t div 64) :: u64) = t div 64" by (rule unat_of_nat_u64)
    moreover have "unat (drop_bit 6 (of_nat t) :: u64) = t div 64"
      by (simp only: drop_bit_eq_div unat_div t) simp
    ultimately show ?thesis by (simp only: word_unat_eq_iff)
  qed
  ultimately show ?thesis by (simp only: frame_used_def)
qed

lemma run_mask_eq: "n \<le> 64 \<Longrightarrow> run_mask (int n) = mask n"
  by (cases "n = 64") (auto simp: run_mask_def mask_eq_exp_minus_1 push_bit_eq_mult)

lemma and_mask_0: "n \<le> 64 \<Longrightarrow> (w :: u64) AND mask n = 0 \<longleftrightarrow> (\<forall>i < n. \<not> bit w i)"
  by (auto simp: bit_eq_iff bit_simps) (metis order_less_le_trans)

lemma run_free_bits:
  assumes "0 < k" "k < 64" "n \<le> 64"
  shows "run_free p0 p1 k (int n) \<longleftrightarrow>
    (\<forall>i < n. \<not> (if k + i < 64 then bit p0 (k + i) else bit p1 (k + i - 64)))"
proof -
  have "(64 - k) mod 64 = 64 - k" using assms by simp
  moreover have "bit (drop_bit k p0 OR push_bit (64 - k) p1) i \<longleftrightarrow>
      (if k + i < 64 then bit p0 (k + i) else bit p1 (k + i - 64))" if "i < 64" for i
    using that assms by (auto simp: bit_simps add.commute dest: bit_imp_le_length)
  ultimately show ?thesis
    using assms by (auto simp: run_free_def run_mask_eq and_mask_0)
qed

lemma run_free_bits_0:
  "n \<le> 64 \<Longrightarrow> run_free p0 p1 0 (int n) \<longleftrightarrow> (\<forall>i < n. \<not> bit p0 i \<and> \<not> bit p1 i)"
  by (auto simp: run_free_def run_mask_eq and_mask_0 bit_simps)

lemma frame_at:
  assumes "i < 64" "v < 2 ^ 58"
  shows "frame_used bs (of_nat (64 * v + i)) \<longleftrightarrow> bit (bs (of_nat v)) i"
proof -
  have "64 * v + i < 2 ^ 64" using assms by simp
  from frame_used_nat [OF this, of bs] assms show ?thesis by simp
qed

text \<open>A test at bit \<open>k\<close> of word \<open>w\<close> is about the frames from \<open>64 * w + k\<close>; at bit 0 the 64-bit shift by
  64 is a shift by 0, and the test wants the same frames of the next word free as well.\<close>

lemma run_free_frames:
  assumes "0 < k" "k < 64" "n \<le> 64" "w < 2 ^ 57"
  shows "run_free (bs (of_nat w)) (bs (of_nat w + 1)) k (int n) \<longleftrightarrow> free_run bs (64 * w + k) n"
proof -
  have "frame_used bs (of_nat (64 * w + k + i)) \<longleftrightarrow>
      (if k + i < 64 then bit (bs (of_nat w)) (k + i) else bit (bs (of_nat w + 1)) (k + i - 64))"
    if "i < n" for i
  proof (cases "k + i < 64")
    case True
    then show ?thesis
      using frame_at [of "k + i" w bs] assms by (simp add: add.assoc del: of_nat_add of_nat_mult)
  next
    case False
    define r where "r = k + i - 64"
    have r: "r < 64" "64 * w + k + i = 64 * Suc w + r" using assms that False by (simp_all add: r_def)
    have "of_nat (Suc w) = (of_nat w + 1 :: u64)" by simp
    then show ?thesis
      unfolding r(2) using frame_at [OF r(1), of "Suc w" bs] assms False
      by (simp add: r_def del: of_nat_add of_nat_mult of_nat_Suc mult_Suc_right)
  qed
  then show ?thesis by (simp add: run_free_bits assms free_run_def)
qed

lemma run_free_frames_0:
  assumes "n \<le> 64" "w < 2 ^ 57"
  shows "run_free (bs (of_nat w)) (bs (of_nat w + 1)) 0 (int n) \<longleftrightarrow>
    free_run bs (64 * w) n \<and> free_run bs (64 * Suc w) n"
proof -
  have s: "of_nat (Suc w) = (of_nat w + 1 :: u64)" by simp
  have "free_run bs (64 * w) n \<longleftrightarrow> (\<forall>i < n. \<not> bit (bs (of_nat w)) i)"
    using assms by (simp add: free_run_def frame_at del: of_nat_add of_nat_mult)
  moreover have "free_run bs (64 * Suc w) n \<longleftrightarrow> (\<forall>i < n. \<not> bit (bs (of_nat w + 1)) i)"
    unfolding free_run_def s [symmetric] using assms frame_at [of _ "Suc w" bs]
    by (simp del: of_nat_add of_nat_mult of_nat_Suc mult_Suc_right)
  ultimately show ?thesis using assms by (auto simp: run_free_bits_0)
qed

subsection \<open>What the scan finds\<close>

lemma scan_word_Some:
  "scan_word bs n j = Some k \<Longrightarrow>
    j mod 64 \<le> k \<and> k < 64 - j mod 64 \<and> run_free (bs (of_nat (j div 64))) (bs (of_nat (j div 64) + 1)) k n"
  by (auto simp: scan_word_def Let_def find_Some_iff)

lemma scan_word_None:
  "scan_word bs n (64 * w) = None \<longleftrightarrow>
    (\<forall>k < 64. \<not> run_free (bs (of_nat w)) (bs (of_nat w + 1)) k n)"
  by (auto simp: scan_word_def Let_def find_None_iff)

lemma scan_frames_step:
  "j \<le> stop \<Longrightarrow> scan_word bs n j = None \<Longrightarrow> scan_frames bs n start stop j =
    scan_frames bs n start stop (j + (if j mod 64 \<noteq> 0 then 64 - start mod 64 else 64))"
  "j \<le> stop \<Longrightarrow> scan_word bs n j = Some k \<Longrightarrow> scan_frames bs n start stop j = Some (j, k)"
  "stop < j \<Longrightarrow> scan_frames bs n start stop j = None"
  by (subst scan_frames.simps, simp)+

lemma scan_frames_sound:
  assumes "scan_frames bs n start stop j = Some (j', k)" "j mod 64 = 0 \<or> j mod 64 = start mod 64"
  shows "j \<le> j' \<and> j' \<le> stop \<and> scan_word bs n j' = Some k \<and> (j' mod 64 = 0 \<or> j' mod 64 = start mod 64)"
  using assms
proof (induction bs n start stop j rule: scan_frames.induct)
  case (1 bs n start stop j)
  show ?case
  proof (cases "j \<le> stop \<and> scan_word bs n j = None")
    case True
    let ?j = "j + (if j mod 64 \<noteq> 0 then 64 - start mod 64 else 64)"
    have "?j mod 64 = 0"
    proof (cases "j mod 64 = 0")
      case False
      then have "start mod 64 = j mod 64" using 1(3) by simp
      moreover have "(j + (64 - j mod 64)) mod 64 = 0" by presburger
      ultimately show ?thesis using False by simp
    qed simp
    then show ?thesis
      using 1(1) 1(2) True scan_frames_step(1) [of j stop bs n start] by auto
  next
    case False
    then show ?thesis
      using 1(2,3) scan_frames_step(2,3) [where bs = bs and n = n and start = start and stop = stop]
      by (cases "stop < j") (auto simp: not_less)
  qed
qed






lemma scan_frames_complete:
  assumes "scan_frames bs n start stop j = None" "j mod 64 = 0" "j \<le> 64 * w" "64 * w \<le> stop"
  shows "scan_word bs n (64 * w) = None"
  using assms
proof (induction bs n start stop j rule: scan_frames.induct)
  case (1 bs n start stop j)
  have "j \<le> stop" using 1(4,5) by simp
  then have none: "scan_word bs n j = None" "scan_frames bs n start stop (j + 64) = None"
    using 1(2,3) scan_frames_step(1,2) [OF \<open>j \<le> stop\<close>, where bs = bs and n = n and start = start]
    by (cases "scan_word bs n j"; simp)+
  show ?case
  proof (cases "j = 64 * w")
    case False
    obtain v where "j = 64 * v" using 1(3) by (auto simp: mod_eq_0_iff_dvd)
    with 1(4) False have "j + 64 \<le> 64 * w" by simp
    then show ?thesis
      using 1(1) [OF \<open>j \<le> stop\<close> none(1)] none(2) 1(3,5) by simp
  qed (use none in simp)
qed

subsection \<open>One zone\<close>

lemma search_one_zone:
  assumes "scan_frames (bits s) n start stop start = r"
    and "start = unat (drop_bit 12 (zone_start_addr (zones s (Some 0))))"
    and "stop = unat (drop_bit 12 (zone_end_addr (zones s (Some 0))))"
  shows "search_zones s n [0..0] =
    (if page_free_count (zones s (Some 0)) < word_of_int n then None
     else map_option (\<lambda>(j, k). of_nat j + of_nat k - 1) r)"
  using assms by (auto simp: Let_def split: option.splits)

lemma alloc_normal:
  "alloc_pages ZONE_NORMAL n flags s =
    (case search_zones s n [0..0] of
       None \<Rightarrow> (None, s) | Some page \<Rightarrow> (Some page, take_pages page n flags s))"
  by (simp add: alloc_pages_def zone_window_def ZONE_DMA_def ZONE_NORMAL_def ZONE_DMA_INDEX_def
      ZONE_NORMAL_INDEX_def del: search_zones.simps)

definition zone_first :: "'a mm_state_scheme \<Rightarrow> nat" where
  "zone_first s = unat (drop_bit 12 (zone_start_addr (zones s (Some 0))))"

definition zone_last :: "'a mm_state_scheme \<Rightarrow> nat" where
  "zone_last s = unat (drop_bit 12 (zone_end_addr (zones s (Some 0))))"

lemma zone_bounds: "zone_first s < 2 ^ 52" "zone_last s < 2 ^ 52"
  unfolding zone_first_def zone_last_def by (rule unat_drop_12_less)+

lemma alloc_normal_Some:
  assumes "alloc_pages ZONE_NORMAL (int n) flags s = (Some page, s')" "n \<le> 64"
  shows "\<exists>t d. page = of_nat (t + d) - 1 \<and> (d = 0 \<or> d = zone_first s mod 64) \<and> d < 32 \<and>
    zone_first s \<le> t + d \<and> t \<le> zone_last s + 63 \<and> free_run (bits s) t n \<and>
    s' = take_pages page (int n) flags s"
proof -
  obtain j k where jk: "scan_frames (bits s) (int n) (zone_first s) (zone_last s) (zone_first s) = Some (j, k)"
    "page = of_nat j + of_nat k - 1" "s' = take_pages page (int n) flags s"
    using assms(1) search_one_zone [OF refl zone_first_def zone_last_def, of s "int n"]
    by (auto simp: alloc_normal simp del: search_zones.simps split: option.splits if_splits)
  from scan_frames_sound [OF jk(1)] scan_word_Some [of "bits s" "int n" j k]
  have j: "zone_first s \<le> j" "j \<le> zone_last s" "j mod 64 = 0 \<or> j mod 64 = zone_first s mod 64"
    "j mod 64 \<le> k" "k < 64 - j mod 64"
    "run_free (bits s (of_nat (j div 64))) (bits s (of_nat (j div 64) + 1)) k (int n)"
    by auto
  have "j div 64 < 2 ^ 52"
    using div_le_dividend [of j 64] j(2) zone_bounds(2) [of s] by (rule le_less_trans [OF order_trans])
  then have w: "j div 64 < 2 ^ 57" by simp
  have "free_run (bits s) (64 * (j div 64) + k) n"
  proof (cases "k = 0")
    case True
    then show ?thesis using j(6) run_free_frames_0 [OF assms(2) w] by simp
  next
    case False
    then show ?thesis using j(5,6) run_free_frames [of k n "j div 64"] assms(2) w by simp
  qed
  moreover have "64 * (j div 64) + j mod 64 = j" by simp
  ultimately show ?thesis
    using j jk(2,3) by (intro exI [of _ "64 * (j div 64) + k"] exI [of _ "j mod 64"])
      (auto simp flip: of_nat_add simp: algebra_simps)
qed

lemma alloc_normal_finds:
  assumes run: "free_run (bits s) (64 * w + k) n" "0 < k" "k < 64"
    and zone: "zone_first s mod 64 = 0" "zone_first s \<le> 64 * w" "64 * w \<le> zone_last s"
    and count: "\<not> page_free_count (zones s (Some 0)) < of_nat n" "n \<le> 64"
  shows "\<exists>page. alloc_pages ZONE_NORMAL (int n) flags s = (Some page, take_pages page (int n) flags s)"
proof (cases "scan_frames (bits s) (int n) (zone_first s) (zone_last s) (zone_first s)")
  case None
  have "64 * w < 2 ^ 52" using zone(3) zone_bounds(2) [of s] by (rule le_less_trans)
  then have "w < 2 ^ 57" by simp
  then have "run_free (bits s (of_nat w)) (bits s (of_nat w + 1)) k (int n)"
    using run run_free_frames count(2) by blast
  moreover have "scan_word (bits s) (int n) (64 * w) = None"
    by (rule scan_frames_complete [OF None zone])
  ultimately show ?thesis using run(3) by (simp add: scan_word_None)
next
  case (Some jk)
  then show ?thesis
    using search_one_zone [OF refl zone_first_def zone_last_def, of s "int n"] count(1)
    by (cases jk) (simp add: alloc_normal del: search_zones.simps)
qed

text \<open>The pages taken are the \<open>n\<close> pages from the returned one.\<close>

definition page_block :: "u64 \<Rightarrow> nat \<Rightarrow> u64 set" where
  "page_block page n = (\<lambda>l. page + of_nat l) ` {0..<n}"

lemma take_pages_fold:
  assumes "n < 2 ^ 63"
  shows "take_pages page (int n) flags s =
    fold (\<lambda>f. page_init f flags) (map (\<lambda>l. page + of_nat l) [0..<n]) s"
  using assms by (simp add: take_pages_def unat_of_nat_u64)

lemma take_pages_books:
  assumes "books_right s" "page_block page n \<subseteq> owned_frames s" "flags \<noteq> 0" "n < 2 ^ 63"
  shows "books_right (take_pages page (int n) flags s)"
    "used_frames (take_pages page (int n) flags s) = page_block page n \<union> used_frames s"
    "owned_frames (take_pages page (int n) flags s) = owned_frames s"
proof -
  have "set (map (\<lambda>l. page + of_nat l) [0..<n]) = page_block page n"
    by (simp add: page_block_def)
  with assms frames.init_all [OF assms(1), of "map (\<lambda>l. page + of_nat l) [0..<n]" flags]
  show "books_right (take_pages page (int n) flags s)"
    "used_frames (take_pages page (int n) flags s) = page_block page n \<union> used_frames s"
    "owned_frames (take_pages page (int n) flags s) = owned_frames s"
    by (simp_all add: take_pages_fold)
qed

lemma page_block_last: "n < 2 ^ 63 \<Longrightarrow> page + of_nat n \<notin> page_block page n"
proof
  assume n: "n < 2 ^ 63" and "page + of_nat n \<in> page_block page n"
  then obtain l where "l < n" "(of_nat n :: u64) = of_nat l" by (auto simp: page_block_def)
  moreover have "n < 2 ^ 64" "l < 2 ^ 64" using n \<open>l < n\<close> by simp_all
  ultimately show False using unat_of_nat_u64 by (metis less_irrefl)
qed

lemma free_run_unused:
  assumes "books_right s" "free_run (bits s) t n" "i < n"
  shows "of_nat (t + i) \<notin> used_frames s"
  using assms by (auto simp: books_right_def frame_recorded_def used_frames_def free_run_def)

subsection \<open>What the pages taken do to the bitmap\<close>

lemma frame_used_page_init:
  "frame_used (bits s) g \<Longrightarrow> frame_used (bits (page_init f flags s)) g"
  "frame_used (bits (page_init f flags s)) g \<Longrightarrow>
    frame_used (bits s) g \<or> g = drop_bit 12 (phy_addr (pages s f))"
  by (cases "attribute (pages s f) = 0"; simp add: page_init_fresh page_init_again split: if_splits)+

lemma frame_used_page_inits:
  "frame_used (bits s) g \<Longrightarrow> frame_used (bits (fold (\<lambda>f. page_init f flags) fs s)) g"
  "frame_used (bits (fold (\<lambda>f. page_init f flags) fs s)) g \<Longrightarrow>
    frame_used (bits s) g \<or> g \<in> (\<lambda>f. drop_bit 12 (phy_addr (pages s f))) ` set fs"
proof -
  show "frame_used (bits s) g \<Longrightarrow> frame_used (bits (fold (\<lambda>f. page_init f flags) fs s)) g"
    by (induction fs arbitrary: s) (auto dest: frame_used_page_init)
  show "frame_used (bits (fold (\<lambda>f. page_init f flags) fs s)) g \<Longrightarrow>
    frame_used (bits s) g \<or> g \<in> (\<lambda>f. drop_bit 12 (phy_addr (pages s f))) ` set fs"
  proof (induction fs arbitrary: s)
    case (Cons f fs)
    from Cons.IH [of "page_init f flags s"] Cons.prems
    have "frame_used (bits (page_init f flags s)) g \<or> g \<in> (\<lambda>f. drop_bit 12 (phy_addr (pages s f))) ` set fs"
      by simp
    then show ?case using frame_used_page_init(2) [of f flags s g] by auto
  qed simp
qed

lemma owned_frame_address: "books_right s \<Longrightarrow> f \<in> owned_frames s \<Longrightarrow> drop_bit 12 (phy_addr (pages s f)) = f"
  by (auto simp: books_right_def frame_recorded_def push_drop_frame)


lemma page_inits_without_flags:
  assumes "books_right s" "set fs \<subseteq> owned_frames s"
  shows "used_frames (fold (\<lambda>f. page_init f 0) fs s) = used_frames s"
    and "books_right (fold (\<lambda>f. page_init f 0) fs s) \<longleftrightarrow> set fs \<subseteq> used_frames s"
proof -
  have kept: "attribute (pages (fold (\<lambda>f. page_init f 0) fs s) g) = attribute (pages s g) \<and>
      owned_frames (fold (\<lambda>f. page_init f 0) fs s) = owned_frames s" for fs g and s :: "'a mm_state_scheme"
    by (induction fs arbitrary: s) simp_all
  then show "used_frames (fold (\<lambda>f. page_init f 0) fs s) = used_frames s" by (simp add: used_frames_def)
  show "books_right (fold (\<lambda>f. page_init f 0) fs s) \<longleftrightarrow> set fs \<subseteq> used_frames s"
    using assms
  proof (induction fs arbitrary: s)
    case (Cons f fs)
    let ?s = "page_init f 0 s"
    show ?case
    proof (cases "f \<in> used_frames s")
      case True
      then have "books_right ?s" "used_frames ?s = used_frames s"
        using Cons.prems page_init_books [of s f 0] used_frames_page_init [of f s 0] by simp_all
      then show ?thesis using Cons.IH [of ?s] Cons.prems True by simp
    next
      case False
      let ?t = "fold (\<lambda>f. page_init f 0) fs ?s"
      have free: "attribute (pages s f) = 0" using False Cons.prems by (auto simp: used_frames_def)
      then have "frame_used (bits ?s) f"
        using Cons.prems owned_frame_address [of s f] by (simp add: page_init_fresh)
      then have "frame_used (bits ?t) f" by (rule frame_used_page_inits)
      moreover have "attribute (pages ?t f) = 0" "f \<in> owned_frames ?t"
        using kept [of fs ?s f] free Cons.prems by simp_all
      ultimately have "\<not> books_right ?t" by (auto simp: books_right_def frame_recorded_def)
      then show ?thesis using False by simp
    qed
  qed simp
qed





subsection \<open>Concrete runs\<close>

lemma four_frames_zone: "zone_first four_frames = 64" "zone_last four_frames = 68"
  by (simp_all add: zone_first_def zone_last_def)

lemma four_frames_scan:
  "scan_word (\<lambda>w. if w = 1 then 0xfffffffffffffff0 else 0xffffffffffffffff) 2 64 = Some 1"
  "scan_word (\<lambda>w. if w = 1 then 0xfffffffffffffff3 else 0xffffffffffffffff) 2 64 = Some 2"
  by code_simp+

definition after_first :: mm_state where
  "after_first = take_pages 64 2 PG_Kernel four_frames"

lemma four_frames_alloc:
  "alloc_pages ZONE_NORMAL 2 PG_Kernel four_frames = (Some 64, after_first)"
proof -
  have "bits four_frames = (\<lambda>w. if w = 1 then 0xfffffffffffffff0 else 0xffffffffffffffff)"
    by (rule ext) simp
  then have "scan_frames (bits four_frames) 2 64 68 64 = Some (64, 1)"
    using scan_frames_step(2) [of 64 68] four_frames_scan(1) by simp
  from search_one_zone [OF this] show ?thesis
    by (simp add: alloc_normal after_first_def del: search_zones.simps)
qed

lemma upt_two: "[0..<2] = [0, 1]"
  by (simp add: upt_rec)

lemma after_first_eq: "after_first = page_init 65 PG_Kernel (page_init 64 PG_Kernel four_frames)"
  by (simp add: after_first_def take_pages_def upt_two)

lemma after_first_zone [simp]:
  "zone_start_addr (zones after_first (Some 0)) = 0x40000" "zone_end_addr (zones after_first (Some 0)) = 0x44000"
  "page_free_count (zones after_first (Some 0)) = 2"
  by (simp_all add: after_first_eq page_init_def Let_def PG_Kernel_def)

lemma after_first_bits: "bits after_first = (\<lambda>w. if w = 1 then 0xfffffffffffffff3 else 0xffffffffffffffff)"
proof -
  have f: "phy_addr (pages four_frames f) = push_bit 12 f" for f by simp
  have "drop_bit 6 (drop_bit 12 (push_bit 12 (64 :: u64))) = 1" "drop_bit 6 (drop_bit 12 (push_bit 12 (65 :: u64))) = 1"
    "frame_bit (push_bit 12 64) = 1" "frame_bit (push_bit 12 65) = 2"
    by code_simp+
  then show ?thesis
    by (intro ext) (simp add: after_first_eq page_init_fresh(2) mark_frame_def Let_def fun_upd_def)
qed

lemma after_first_alloc:
  "alloc_pages ZONE_NORMAL 2 PG_Kernel after_first = (Some 65, take_pages 65 2 PG_Kernel after_first)"
proof -
  have "scan_frames (bits after_first) 2 64 68 64 = Some (64, 2)"
    using scan_frames_step(2) [of 64 68] four_frames_scan(2) by (simp add: after_first_bits)
  from search_one_zone [OF this] show ?thesis by (simp add: alloc_normal del: search_zones.simps)
qed

subsection \<open>Properties\<close>

text \<open>C9: What alloc_pages returns from the normal zone, for up to 64 pages. The scan has found a run of n
  free frames from t; the function returns page t + d - 1 and takes n pages from there, where d is 0 or
  the position of the zone's first frame in its bitmap word. So the pages taken are the tested ones only
  when d is 1.\<close>

theorem alloc_pages_result:
  assumes "alloc_pages ZONE_NORMAL (int n) flags s = (Some page, s')" "n \<le> 64"
  shows "\<exists>t d. page = of_nat (t + d) - 1 \<and> (d = 0 \<or> d = zone_first s mod 64) \<and> d < 32 \<and>
    zone_first s \<le> t + d \<and> t \<le> zone_last s + 63 \<and> free_run (bits s) t n \<and>
    s' = take_pages page (int n) flags s"
  by (rule alloc_normal_Some [OF assms])

theorem alloc_pages_result_witness:
  "\<exists>t d. (64 :: u64) = of_nat (t + d) - 1 \<and> d = 0 \<and> free_run (bits four_frames) t 2"
  using alloc_pages_result [of 2 PG_Kernel four_frames 64 after_first] four_frames_alloc
  by (auto simp: four_frames_zone)


text \<open>C1: With right books, in a zone that starts on a bitmap word, alloc_pages of 1 to 64 pages takes exactly the n pages from the
  one it returns, when these belong to a zone. For flags that are not 0 they are used afterwards and the books
  are right; with the flags 0 nothing becomes used, and the books stay right only if the page was a single one
  and in use already. The n frames that were tested are those one further on: they were free, and the last
  of them, the frame behind the block, stays free.\<close>

theorem alloc_pages_books:
  assumes "alloc_pages ZONE_NORMAL (int n) flags s = (Some page, s')" "0 < n" "n \<le> 64"
    and "zone_first s mod 64 = 0" "books_right s" "page_block page n \<subseteq> owned_frames s"
  shows "(books_right s' \<longleftrightarrow> flags \<noteq> 0 \<or> n = 1 \<and> page \<in> used_frames s) \<and> owned_frames s' = owned_frames s \<and>
    used_frames s' = (if flags = 0 then used_frames s else page_block page n \<union> used_frames s) \<and>
    (\<forall>i. 1 \<le> i \<and> i \<le> n \<longrightarrow> page + of_nat i \<notin> used_frames s) \<and> page + of_nat n \<notin> used_frames s'"
proof -
  obtain t where t: "page = of_nat t - 1" "free_run (bits s) t n" "s' = take_pages page (int n) flags s"
    using alloc_normal_Some [OF assms(1,3)] assms(4) by auto
  have n: "n < 2 ^ 63" using assms(3) by simp
  have tested: "page + of_nat i \<notin> used_frames s" if "1 \<le> i \<and> i \<le> n" for i
  proof -
    have "page + of_nat i = of_nat (t + (i - 1))" using t(1) that by (simp add: of_nat_diff)
    moreover have "of_nat (t + (i - 1)) \<notin> used_frames s" using that by (intro free_run_unused [OF assms(5) t(2)]) linarith
    ultimately show ?thesis by simp
  qed
  show ?thesis
  proof (cases "flags = 0")
    case False
    then show ?thesis
      using tested take_pages_books [OF assms(5,6) _ n] page_block_last [OF n] assms(2) t(3) by auto
  next
    case True
    have "page_block page n \<subseteq> used_frames s \<longleftrightarrow> n = 1 \<and> page \<in> used_frames s"
    proof (cases "n = 1")
      case False
      then have "page + of_nat 1 \<in> page_block page n" unfolding page_block_def using assms(2) by (intro imageI) simp
      then show ?thesis using tested [of 1] assms(2) False by auto
    qed (simp add: page_block_def)
    moreover have "set (map (\<lambda>l. page + of_nat l) [0..<n]) = page_block page n" by (simp add: page_block_def)
    moreover have "owned_frames (fold (\<lambda>f. page_init f 0) fs u) = owned_frames u" for fs and u :: "'a mm_state_scheme"
      by (induction fs arbitrary: u) simp_all
    ultimately show ?thesis
      using page_inits_without_flags [OF assms(5), of "map (\<lambda>l. page + of_nat l) [0..<n]"] assms(2,6) tested True
      by (simp add: t(3) take_pages_fold [OF n])
  qed
qed

lemma block_64: "page_block 64 2 = {64, 65}"
  unfolding page_block_def set_upt [symmetric] upt_two by simp

theorem alloc_pages_books_witness:
  "books_right after_first \<and> used_frames after_first = {64, 65} \<and> 66 \<notin> used_frames after_first"
  using alloc_pages_books [of 2 PG_Kernel four_frames 64 after_first] four_frames_alloc
  by (simp add: four_frames_zone four_frames_books four_frames_sets block_64 PG_Kernel_def)


text \<open>C12: alloc_pages succeeds whenever the normal zone starts on a bitmap word, counts enough free pages and
  has a run of n free frames, at most 64, that does not begin on a bitmap word.\<close>

theorem alloc_pages_finds_run:
  assumes "free_run (bits s) (64 * w + k) n" "0 < k" "k < 64"
    and "zone_first s mod 64 = 0" "zone_first s \<le> 64 * w" "64 * w \<le> zone_last s"
    and "\<not> page_free_count (zones s (Some 0)) < of_nat n" "n \<le> 64"
  shows "\<exists>page. alloc_pages ZONE_NORMAL (int n) flags s = (Some page, take_pages page (int n) flags s)"
  by (rule alloc_normal_finds [OF assms])

theorem alloc_pages_finds_run_witness:
  "\<exists>page. alloc_pages ZONE_NORMAL 2 PG_Kernel four_frames = (Some page, take_pages page 2 PG_Kernel four_frames)"
proof -
  have "free_run (bits four_frames) (64 * 1 + 1) 2"
    by (auto simp: free_run_def less_2_cases_iff frame_used_def)
  from alloc_pages_finds_run [OF this, of PG_Kernel] show ?thesis
    by (simp add: four_frames_zone)
qed


text \<open>The DMA zone is the normal zone: the index that should separate them is never set, so both
  selectors search the first zone of the memory map and nothing else.\<close>

theorem dma_zone_is_normal_zone:
  "alloc_pages ZONE_DMA n flags s = alloc_pages ZONE_NORMAL n flags s"
  by (simp add: alloc_pages_def zone_window_def ZONE_DMA_def ZONE_NORMAL_def ZONE_DMA_INDEX_def
      ZONE_NORMAL_INDEX_def)



text \<open>A normal zone at physical address 0, as on every PC, gives out the page structure before the table:
  while the first frames of its first two bitmap words are free, alloc_pages returns pages_struct - 1.\<close>

theorem zone_at_zero_returns_page_minus_one:
  assumes "zone_first s = 0" "n \<le> 64" "free_run (bits s) 0 n" "free_run (bits s) 64 n"
    and "\<not> page_free_count (zones s (Some 0)) < of_nat n"
  shows "alloc_pages ZONE_NORMAL (int n) flags s = (Some (- 1), take_pages (- 1) (int n) flags s)"
proof -
  have "run_free (bits s (of_nat 0)) (bits s (of_nat 0 + 1)) 0 (int n)"
    using run_free_frames_0 [OF assms(2), of 0 "bits s"] assms(3,4) by simp
  then have "scan_word (bits s) (int n) 0 = Some 0"
    by (simp add: scan_word_def Let_def upt_rec)
  then have "scan_frames (bits s) (int n) (zone_first s) (zone_last s) (zone_first s) = Some (0, 0)"
    using scan_frames_step(2) assms(1) by simp
  from search_one_zone [OF this zone_first_def zone_last_def] assms(5) show ?thesis
    by (simp add: alloc_normal del: search_zones.simps)
qed

theorem zone_at_zero_returns_page_minus_one_witness:
  "let z = \<lparr>pages_group = 0, zone_pages_length = 159, zone_start_addr = 0, zone_end_addr = 0x9f000,
        zone_length = 0x9f000, zone_attribute = 0, page_using_count = 0, page_free_count = 159,
        total_pages_link = 0\<rparr>;
       s = four_frames\<lparr>bits := (\<lambda>w. if w < 2 then 0 else 0xffffffffffffffff), zones := (\<lambda>_. z)\<rparr>
   in fst (alloc_pages ZONE_NORMAL 8 PG_Kernel s) = Some (- 1)"
proof -
  let ?z = "\<lparr>pages_group = 0, zone_pages_length = 159, zone_start_addr = 0, zone_end_addr = 0x9f000,
     zone_length = 0x9f000, zone_attribute = 0, page_using_count = 0, page_free_count = 159,
     total_pages_link = 0\<rparr>"
  let ?s = "four_frames\<lparr>bits := (\<lambda>w. if w < 2 then 0 else 0xffffffffffffffff), zones := (\<lambda>_. ?z)\<rparr>"
  have "free_run (bits ?s) 0 8" "free_run (bits ?s) 64 8"
    unfolding free_run_def
    using frame_at [of _ 0 "bits ?s"] frame_at [of _ 1 "bits ?s"] by simp_all
  moreover have "zone_first ?s = 0" by (simp add: zone_first_def)
  ultimately show ?thesis
    using zone_at_zero_returns_page_minus_one [of ?s 8 PG_Kernel] by simp
qed

end
