(* ===== verification/Multiboot.thy ===== *)
theory Multiboot
  imports PageFrame
begin

text \<open>
  \<^verbatim>\<open>parse_sys_info\<close> and \<^verbatim>\<open>_init_memory\<close> of \<^verbatim>\<open>kernel/kernel.c\<close>: the walk over the tags of the Multiboot2
  information and the copy of its memory map into \<^verbatim>\<open>gmdsc.e820\<close>. The information is read from the byte
  memory. A walk that does not end is \<open>None\<close>; a write past the 32 elements of \<^verbatim>\<open>e820\<close>, which in C
  overwrites the fields behind the array, is the error \<open>E820Overflow\<close>.
\<close>

datatype boot_error = E820Overflow

definition MULTIBOOT_TAG_ALIGN :: u64 where "MULTIBOOT_TAG_ALIGN = 8"
definition MULTIBOOT_TAG_TYPE_END :: u32 where "MULTIBOOT_TAG_TYPE_END = 0"
definition MULTIBOOT_TAG_TYPE_MMAP :: u32 where "MULTIBOOT_TAG_TYPE_MMAP = 6"
definition MULTIBOOT2_BOOTLOADER_MAGIC :: u64 where "MULTIBOOT2_BOOTLOADER_MAGIC = 0x36d76289"

definition load32 :: "mem \<Rightarrow> u64 \<Rightarrow> u32" where
  "load32 m a = ucast (load_le 4 m a)"

definition load64 :: "mem \<Rightarrow> u64 \<Rightarrow> u64" where
  "load64 m a = load_le 8 m a"

subsection \<open>_init_memory\<close>

definition mmap_entry :: "mem \<Rightarrow> u64 \<Rightarrow> e820_t" where
  "mmap_entry m entry = \<lparr>e820_addr = load64 m entry, e820_len = load64 m (entry + 8),
     e820_type = load32 m (entry + 16)\<rparr>"

definition record_entry :: "u32 \<Rightarrow> e820_t \<Rightarrow> 'a mm_state_scheme \<Rightarrow> 'a mm_state_scheme" where
  "record_entry i e s =
     log_printf (''[info] e820 memory: addr:%x len:%d type:%d'' @ [newline])
       [e820_addr e, e820_len e, ucast (e820_type e)]
       (s\<lparr>gmdsc := (gmdsc s)\<lparr>e820 := (e820 (gmdsc s))(ucast i := e)\<rparr>\<rparr>)"

partial_function (option) entries_loop ::
    "mem \<Rightarrow> u64 \<Rightarrow> u64 \<Rightarrow> u32 \<Rightarrow> u32 \<Rightarrow> 'a mm_state_scheme
      \<Rightarrow> (boot_error + u32 \<times> u32 \<times> 'a mm_state_scheme) option" where
  "entries_loop m mmap entry i available_size s =
     (if entry < mmap + ucast (load32 m (mmap + 4)) then
        if 32 \<le> i then Some (Inl E820Overflow)
        else entries_loop m mmap (entry + ucast (load32 m (mmap + 8))) (i + 1)
               (if e820_type (mmap_entry m entry) = E820_TYPE_AVAILABLE then available_size + 1
                else available_size)
               (record_entry i (mmap_entry m entry) s)
      else Some (Inr (i, available_size, s)))"

definition init_memory_map ::
    "mem \<Rightarrow> u64 \<Rightarrow> 'a mm_state_scheme \<Rightarrow> (boot_error + 'a mm_state_scheme) option" where
  "init_memory_map m tag s =
     map_option (map_sum id (\<lambda>(i, available_size, s).
         s\<lparr>gmdsc := (gmdsc s)\<lparr>e820_num := ucast i, e820_available_size := ucast available_size\<rparr>\<rparr>))
       (entries_loop m tag (tag + 16) 0 0 s)"

subsection \<open>parse_sys_info\<close>

definition next_tag :: "mem \<Rightarrow> u64 \<Rightarrow> u64" where
  "next_tag m tag = tag + ucast ((load32 m (tag + 4) + 7) AND NOT 7)"

partial_function (option) parse_tags ::
    "mem \<Rightarrow> u64 \<Rightarrow> 'a mm_state_scheme \<Rightarrow> (boot_error + 'a mm_state_scheme) option" where
  "parse_tags m tag s =
     (if load32 m tag = MULTIBOOT_TAG_TYPE_END then Some (Inr s)
      else if load32 m tag = MULTIBOOT_TAG_TYPE_MMAP then
        Option.bind (init_memory_map m tag s)
          (\<lambda>r. case r of Inl e \<Rightarrow> Some (Inl e) | Inr s \<Rightarrow> parse_tags m (next_tag m tag) s)
      else parse_tags m (next_tag m tag) s)"

definition parse_sys_info ::
    "mem \<Rightarrow> u64 \<Rightarrow> 'a mm_state_scheme \<Rightarrow> (boot_error + 'a mm_state_scheme) option" where
  "parse_sys_info m mb2_info_addr s = parse_tags m (mb2_info_addr + MULTIBOOT_TAG_ALIGN) s"

subsection \<open>The layout a boot loader writes\<close>

datatype boot_tag =
    MemoryMap "e820_t list"
  | OtherTag u32 "u8 list"

definition entry_bytes :: "e820_t \<Rightarrow> u8 list" where
  "entry_bytes e = bytes_of 8 (e820_addr e) @ bytes_of 8 (e820_len e) @
     bytes_of 4 (ucast (e820_type e)) @ bytes_of 4 0"

definition pad8 :: "u8 list \<Rightarrow> u8 list" where
  "pad8 bs = bs @ replicate ((8 - length bs mod 8) mod 8) 0"

fun tag_bytes :: "boot_tag \<Rightarrow> u8 list" where
  "tag_bytes (MemoryMap es) =
     bytes_of 4 6 @ bytes_of 4 (of_nat (16 + 24 * length es)) @ bytes_of 4 24 @ bytes_of 4 0 @
     concat (map entry_bytes es)"
| "tag_bytes (OtherTag ty payload) =
     bytes_of 4 (ucast ty) @ bytes_of 4 (of_nat (8 + length payload)) @ pad8 payload"

definition info_bytes :: "boot_tag list \<Rightarrow> u8 list" where
  "info_bytes tags = concat (map tag_bytes tags) @ bytes_of 4 0 @ bytes_of 4 8"

text \<open>What the kernel takes from the tags.\<close>

fun count_available :: "e820_t list \<Rightarrow> u32" where
  "count_available [] = 0"
| "count_available (e # es) = (if e820_type e = E820_TYPE_AVAILABLE then 1 else 0) + count_available es"

fun record_entries :: "u32 \<Rightarrow> e820_t list \<Rightarrow> 'a mm_state_scheme \<Rightarrow> 'a mm_state_scheme" where
  "record_entries i [] s = s"
| "record_entries i (e # es) s = record_entries (i + 1) es (record_entry i e s)"

fun take_tag :: "boot_tag \<Rightarrow> 'a mm_state_scheme \<Rightarrow> 'a mm_state_scheme" where
  "take_tag (OtherTag ty payload) s = s"
| "take_tag (MemoryMap es) s =
     (let s = record_entries 0 es s
      in s\<lparr>gmdsc := (gmdsc s)\<lparr>e820_num := of_nat (length es),
                               e820_available_size := ucast (count_available es)\<rparr>\<rparr>)"

fun tag_ok :: "boot_tag \<Rightarrow> bool" where
  "tag_ok (MemoryMap es) \<longleftrightarrow> length es \<le> 32"
| "tag_ok (OtherTag ty payload) \<longleftrightarrow> ty \<noteq> 0 \<and> ty \<noteq> 6 \<and> length payload < 2 ^ 31"

subsection \<open>Reading a block of bytes\<close>

definition holds :: "mem \<Rightarrow> u64 \<Rightarrow> u8 list \<Rightarrow> bool" where
  "holds m a bs \<longleftrightarrow> load_bytes m a (length bs) = bs"

lemma holds_append:
  "holds m a (xs @ ys) \<longleftrightarrow> holds m a xs \<and> holds m (a + of_nat (length xs)) ys"
  by (simp add: holds_def load_bytes_add)

lemma holds_word: "holds m a (bytes_of k w) \<Longrightarrow> k \<le> 8 \<Longrightarrow> load_le k m a = take_bit (8 * k) w"
  by (simp add: holds_def load_le_def word_of_bytes_bytes_of)

lemma holds_load32: "holds m a (bytes_of 4 (ucast (w :: u32))) \<Longrightarrow> load32 m a = w"
proof -
  assume "holds m a (bytes_of 4 (ucast w))"
  then have "load_le 4 m a = take_bit 32 (ucast w)" using holds_word [of m a 4 "ucast w"] by simp
  then show ?thesis by (simp add: load32_def) (rule bit_word_eqI, simp add: bit_simps)
qed

lemma holds_load64: "holds m a (bytes_of 8 w) \<Longrightarrow> load64 m a = w"
  using holds_word [of m a 8 w] by (simp add: load64_def take_bit_word_eq_self)

lemma holds_load32_nat: "holds m a (bytes_of 4 (of_nat n)) \<Longrightarrow> load32 m a = of_nat n"
proof -
  assume "holds m a (bytes_of 4 (of_nat n))"
  then have "load_le 4 m a = take_bit 32 (of_nat n)" using holds_word [of m a 4 "of_nat n"] by simp
  moreover have "(ucast (take_bit 32 (of_nat n :: u64)) :: u32) = of_nat n"
    by (rule bit_word_eqI) (simp add: bit_simps)
  ultimately show ?thesis by (simp add: load32_def)
qed

lemma length_entry_bytes [simp]: "length (entry_bytes e) = 24"
  by (simp add: entry_bytes_def)

lemma length_entries [simp]: "length (concat (map entry_bytes es)) = 24 * length es"
  by (induction es) auto

lemma mmap_entry_holds: "holds m a (entry_bytes e) \<Longrightarrow> mmap_entry m a = e"
  by (cases e) (auto simp: entry_bytes_def holds_append mmap_entry_def add.commute
      intro: holds_load64 holds_load32)

subsection \<open>The memory map\<close>

lemma entries_loop_step:
  assumes "holds m entry (concat (map entry_bytes (e # es)))" "load32 m (mmap + 8) = 24"
    and "entry + of_nat (24 * length (e # es)) = mmap + ucast (load32 m (mmap + 4))"
    and "unat entry + 24 * length (e # es) < 2 ^ 64"
  shows "entries_loop m mmap entry i av s =
      (if 32 \<le> i then Some (Inl E820Overflow)
       else entries_loop m mmap (entry + 24) (i + 1)
              (if e820_type e = E820_TYPE_AVAILABLE then av + 1 else av) (record_entry i e s))"
    "holds m (entry + 24) (concat (map entry_bytes es))"
    "entry + 24 + of_nat (24 * length es) = mmap + ucast (load32 m (mmap + 4))"
    "unat (entry + 24) + 24 * length es < 2 ^ 64"
proof -
  have e: "mmap_entry m entry = e" "holds m (entry + 24) (concat (map entry_bytes es))"
    using assms(1) by (simp_all add: holds_append mmap_entry_holds)
  show "holds m (entry + 24) (concat (map entry_bytes es))" by (rule e)
  show "entry + 24 + of_nat (24 * length es) = mmap + ucast (load32 m (mmap + 4))"
    using assms(3) by (simp add: algebra_simps)
  have "unat (entry + of_nat 24) = unat entry + 24"
    using assms(4) by (intro unat_add_nat_u64) simp
  moreover have "unat (entry + of_nat (24 * length (e # es))) = unat entry + 24 * length (e # es)"
    by (rule unat_add_nat_u64 [OF assms(4)])
  ultimately have less: "entry < mmap + ucast (load32 m (mmap + 4))" and
    fits: "unat (entry + 24) + 24 * length es < 2 ^ 64"
    unfolding assms(3) [symmetric] using assms(4)
    by (simp_all only: word_less_nat_alt) simp_all
  show "unat (entry + 24) + 24 * length es < 2 ^ 64" by (rule fits)
  show "entries_loop m mmap entry i av s =
      (if 32 \<le> i then Some (Inl E820Overflow)
       else entries_loop m mmap (entry + 24) (i + 1)
              (if e820_type e = E820_TYPE_AVAILABLE then av + 1 else av) (record_entry i e s))"
    using less e(1) assms(2) by (subst entries_loop.simps) simp
qed

lemma entries_loop_map:
  assumes "holds m entry (concat (map entry_bytes es))" "load32 m (mmap + 8) = 24"
    and "entry + of_nat (24 * length es) = mmap + ucast (load32 m (mmap + 4))"
    and "unat entry + 24 * length es < 2 ^ 64" "unat i \<le> 32"
  shows "entries_loop m mmap entry i av s =
    (if unat i + length es \<le> 32
     then Some (Inr (i + of_nat (length es), av + count_available es, record_entries i es s))
     else Some (Inl E820Overflow))"
  using assms(1,3-)
proof (induction es arbitrary: entry i av s)
  case Nil
  then show ?case by (subst entries_loop.simps) simp
next
  case (Cons e es)
  note step = entries_loop_step [OF Cons.prems(1) assms(2) Cons.prems(2,3)]
  show ?case
  proof (cases "32 \<le> i")
    case True
    then show ?thesis using step(1) [of i av s] by (simp add: word_le_nat_alt)
  next
    case False
    then have i: "unat i < 32" by (simp add: word_le_nat_alt)
    then have i1: "unat (i + 1) = unat i + 1" using unat_add_lem [of i 1] by simp
    then have "unat (i + 1) \<le> 32" using i by simp
    from Cons.IH [OF step(2-4) this, of "if e820_type e = E820_TYPE_AVAILABLE then av + 1 else av"
        "record_entry i e s"] step(1) [of i av s] False i1
    show ?thesis by simp
  qed
qed

lemma record_entry_simps [simp]:
  "e820 (gmdsc (record_entry i e s)) = (e820 (gmdsc s))(ucast i := e)"
  "e820_num (gmdsc (record_entry i e s)) = e820_num (gmdsc s)"
  by (simp_all add: record_entry_def message_defs)

lemma record_entries_other:
  "unat i + length es \<le> 2 ^ 32 \<Longrightarrow> unat k < unat i \<or> unat i + length es \<le> unat k \<Longrightarrow>
    e820 (gmdsc (record_entries i es s)) k = e820 (gmdsc s) k"
proof (induction es arbitrary: i s)
  case (Cons e es)
  have "ucast i \<noteq> k" using Cons.prems(2) by auto
  moreover have "unat (i + 1) = unat i + 1 \<or> es = []"
    using Cons.prems(1) unat_add_lem [of i 1] by (cases es) auto
  ultimately show ?case
    using Cons.IH [of "i + 1" "record_entry i e s"] Cons.prems by auto
qed simp

lemma record_entries_at:
  assumes "unat i + length es \<le> 2 ^ 31" "j < length es"
  shows "e820 (gmdsc (record_entries i es s)) (ucast i + of_nat j) = es ! j"
  using assms
proof (induction es arbitrary: i s j)
  case (Cons e es)
  have i1: "unat (i + 1) = unat i + 1" using Cons.prems(1) unat_add_lem [of i 1] by simp
  have u1: "(ucast (i + 1) :: u64) = ucast i + 1"
    using i1 Cons.prems(1) unat_add_lem [of "ucast i :: u64" 1] by (simp add: word_unat_eq_iff)
  show ?case
  proof (cases j)
    case 0
    then show ?thesis
      using record_entries_other [of "i + 1" es "ucast i" "record_entry i e s"] i1 Cons.prems by simp
  next
    case (Suc j')
    then show ?thesis
      using Cons.IH [of "i + 1" j' "record_entry i e s"] Cons.prems i1 u1 by (simp add: algebra_simps)
  qed
qed simp

lemma init_memory_map_tag:
  assumes "holds m tag (tag_bytes (MemoryMap es))" "length es < 2 ^ 27" "unat tag + 16 + 24 * length es < 2 ^ 64"
  shows "init_memory_map m tag s =
      (if length es \<le> 32 then Some (Inr (take_tag (MemoryMap es) s)) else Some (Inl E820Overflow))"
    "load32 m tag = 6" "load32 m (tag + 4) = of_nat (16 + 24 * length es)"
proof -
  have h: "holds m tag (bytes_of 4 (of_nat 6))" "holds m (tag + 4) (bytes_of 4 (of_nat (16 + 24 * length es)))"
    "holds m (tag + 8) (bytes_of 4 (of_nat 24))" "holds m (tag + 16) (concat (map entry_bytes es))"
    using assms(1) by (simp_all add: holds_append algebra_simps)
  show "load32 m tag = 6" using holds_load32_nat [OF h(1)] by simp
  show size: "load32 m (tag + 4) = of_nat (16 + 24 * length es)" by (rule holds_load32_nat [OF h(2)])
  have "load32 m (tag + 8) = 24" using holds_load32_nat [OF h(3)] by simp
  moreover have "(ucast (of_nat (16 + 24 * length es) :: u32) :: u64) = of_nat (16 + 24 * length es)"
    using assms(2) by (intro ucast_of_nat_u32) simp
  then have "tag + 16 + of_nat (24 * length es) = tag + ucast (load32 m (tag + 4))"
    unfolding size by simp
  moreover have "unat (tag + 16) = unat tag + 16" using assms(3) unat_add_lem [of tag 16] by simp
  ultimately have "entries_loop m tag (tag + 16) 0 0 s = (if length es \<le> 32
      then Some (Inr (of_nat (length es), count_available es, record_entries 0 es s))
      else Some (Inl E820Overflow))"
    using entries_loop_map [OF h(4), of tag 0 0 s] assms(2,3) by simp
  moreover have "(ucast (of_nat (length es) :: u32) :: u64) = of_nat (length es)"
    using assms(2) by (intro ucast_of_nat_u32) simp
  ultimately show "init_memory_map m tag s =
      (if length es \<le> 32 then Some (Inr (take_tag (MemoryMap es) s)) else Some (Inl E820Overflow))"
    by (simp add: init_memory_map_def Let_def)
qed

subsection \<open>The walk over the tags\<close>

definition tag_size :: "boot_tag \<Rightarrow> nat" where
  "tag_size t = (case t of MemoryMap es \<Rightarrow> 16 + 24 * length es | OtherTag ty payload \<Rightarrow> 8 + length payload)"

lemma length_pad8: "length (pad8 bs) = (length bs + 7) div 8 * 8"
proof -
  have "8 * q + r + (8 - r) mod 8 = (8 * q + r + 7) div 8 * 8" if "r < 8" for q r :: nat
  proof (cases "r = 0")
    case False
    then have "(8 * q + r + 7) div 8 = q + 1" using that by (intro div_nat_eqI) simp_all
    then show ?thesis using that False by simp
  qed simp
  from this [of "length bs mod 8" "length bs div 8"] show ?thesis
    by (simp add: pad8_def)
qed

lemma length_tag_bytes: "length (tag_bytes t) = (tag_size t + 7) div 8 * 8"
proof (cases t)
  case (MemoryMap es)
  have "(16 + 24 * length es + 7) div 8 * 8 = 16 + 24 * length es" by presburger
  then show ?thesis using MemoryMap by (simp add: tag_size_def)
next
  case (OtherTag ty payload)
  have "(8 + length payload + 7) div 8 * 8 = 8 + (length payload + 7) div 8 * 8" by presburger
  then show ?thesis using OtherTag by (simp add: tag_size_def length_pad8)
qed

lemma unat_and_minus_8_u32: "unat ((a :: u32) AND NOT 7) = unat a div 8 * 8"
proof -
  have "a AND NOT (mask 3) = push_bit 3 (drop_bit 3 a)"
    by (rule bit_eqI) (auto simp: bit_simps dest: bit_imp_le_length)
  moreover have "NOT 7 = NOT (mask 3 :: u32)" by (simp add: mask_eq_exp_minus_1)
  ultimately have "a AND NOT 7 = push_bit 3 (drop_bit 3 a)" by (simp only:)
  also have "\<dots> = a div 8 * 8" by (simp add: push_bit_eq_mult drop_bit_eq_div)
  finally have "a AND NOT 7 = a div 8 * 8" .
  moreover have "unat (a div 8) * 8 < 2 ^ 32"
    using unsigned_less [of a, where ?'a = nat] by (simp add: unat_div)
  then have "unat (a div 8 * 8) = unat (a div 8) * 8"
    using unat_mult_lem [of "a div 8" 8] by simp
  ultimately show ?thesis by (simp only: unat_div) simp
qed

lemma next_tag_eq:
  assumes "load32 m (tag + 4) = of_nat k" "k + 7 < 2 ^ 32"
  shows "next_tag m tag = tag + of_nat ((k + 7) div 8 * 8)"
proof -
  have "(of_nat k + 7 :: u32) = of_nat (k + 7)" by simp
  moreover have "unat (of_nat (k + 7) :: u32) = k + 7"
    using assms(2) by (simp only: unat_of_nat) simp
  ultimately have "unat ((of_nat k + 7 :: u32) AND NOT 7) = (k + 7) div 8 * 8"
    by (simp only: unat_and_minus_8_u32)
  moreover have "ucast (w :: u32) = (of_nat (unat w) :: u64)" for w by simp
  ultimately show ?thesis unfolding next_tag_def assms(1) by metis
qed

lemma tag_header:
  assumes "holds m tag (tag_bytes t)" "tag_ok t" "unat tag + length (tag_bytes t) < 2 ^ 64"
  shows "next_tag m tag = tag + of_nat (length (tag_bytes t))"
    "parse_tags m tag s = parse_tags m (tag + of_nat (length (tag_bytes t))) (take_tag t s)"
proof -
  have "load32 m (tag + 4) = of_nat (tag_size t)"
  proof (cases t)
    case (MemoryMap es)
    then show ?thesis
      using init_memory_map_tag(3) [of m tag es] assms by (simp add: tag_size_def)
  next
    case (OtherTag ty payload)
    then have "holds m (tag + 4) (bytes_of 4 (of_nat (8 + length payload)))"
      using assms(1) by (simp add: holds_append)
    from holds_load32_nat [OF this] OtherTag show ?thesis by (simp add: tag_size_def)
  qed
  moreover have "tag_size t + 7 < 2 ^ 32"
    using assms(2) by (cases t) (auto simp: tag_size_def)
  ultimately show nt: "next_tag m tag = tag + of_nat (length (tag_bytes t))"
    unfolding length_tag_bytes by (rule next_tag_eq)
  show "parse_tags m tag s = parse_tags m (tag + of_nat (length (tag_bytes t))) (take_tag t s)"
  proof (cases t)
    case (MemoryMap es)
    moreover have "length (tag_bytes (MemoryMap es)) = 16 + 24 * length es" by simp
    ultimately show ?thesis
      using init_memory_map_tag(1) [of m tag es s] init_memory_map_tag(2) [of m tag es] assms nt
      by (subst parse_tags.simps)
        (simp add: MULTIBOOT_TAG_TYPE_END_def MULTIBOOT_TAG_TYPE_MMAP_def del: take_tag.simps tag_bytes.simps)
  next
    case (OtherTag ty payload)
    then have "holds m tag (bytes_of 4 (ucast ty))" using assms(1) by (simp add: holds_append)
    from holds_load32 [OF this] OtherTag assms(2) nt show ?thesis
      by (subst parse_tags.simps)
        (simp add: MULTIBOOT_TAG_TYPE_END_def MULTIBOOT_TAG_TYPE_MMAP_def del: tag_bytes.simps)
  qed
qed

lemma parse_tags_info:
  assumes "holds m tag (info_bytes tags)" "list_all tag_ok tags" "unat tag + length (info_bytes tags) < 2 ^ 64"
  shows "parse_tags m tag s = Some (Inr (fold take_tag tags s))"
  using assms
proof (induction tags arbitrary: tag s)
  case Nil
  then have "holds m tag (bytes_of 4 (of_nat 0))" by (simp add: info_bytes_def holds_append)
  from holds_load32_nat [OF this] show ?case
    by (subst parse_tags.simps) (simp add: MULTIBOOT_TAG_TYPE_END_def)
next
  case (Cons t tags)
  have split: "info_bytes (t # tags) = tag_bytes t @ info_bytes tags" by (simp add: info_bytes_def)
  have h: "holds m tag (tag_bytes t)" "holds m (tag + of_nat (length (tag_bytes t))) (info_bytes tags)"
    using Cons.prems(1) by (simp_all add: split holds_append)
  have "unat (tag + of_nat (length (tag_bytes t))) = unat tag + length (tag_bytes t)"
    using Cons.prems(3) by (intro unat_add_nat_u64) (simp add: split)
  then have "parse_tags m (tag + of_nat (length (tag_bytes t))) (take_tag t s) =
      Some (Inr (fold take_tag tags (take_tag t s)))"
    using Cons.IH [OF h(2)] Cons.prems(2,3) by (simp add: split)
  then show ?case
    using tag_header(2) [OF h(1), of s] Cons.prems(2,3) by (simp add: split)
qed

subsection \<open>The map that results\<close>

text \<open>The entries of the last memory map tag, \<open>None\<close> without one.\<close>

fun last_map :: "boot_tag list \<Rightarrow> e820_t list option" where
  "last_map [] = None"
| "last_map (t # tags) =
     (case last_map tags of
        Some es \<Rightarrow> Some es
      | None \<Rightarrow> (case t of MemoryMap es \<Rightarrow> Some es | OtherTag ty payload \<Rightarrow> None))"

lemma count_available_eq: "count_available es = of_nat (length (filter (\<lambda>e. e820_type e = E820_TYPE_AVAILABLE) es))"
  by (induction es) auto

definition map_taken :: "mm_descriptor \<Rightarrow> e820_t list \<Rightarrow> bool" where
  "map_taken g es \<longleftrightarrow> e820_num g = of_nat (length es) \<and>
     (\<forall>j < length es. e820 g (of_nat j) = es ! j) \<and>
     e820_available_size g = of_nat (length (filter (\<lambda>e. e820_type e = E820_TYPE_AVAILABLE) es))"

lemma take_tag_map:
  assumes "length es \<le> 32"
  shows "map_taken (gmdsc (take_tag (MemoryMap es) s)) es"
proof -
  have "e820 (gmdsc (record_entries 0 es s)) (of_nat j) = es ! j" if "j < length es" for j
    using record_entries_at [of 0 es j s] that assms by simp
  moreover have "length (filter (\<lambda>e. e820_type e = E820_TYPE_AVAILABLE) es) < 2 ^ 32"
    using assms by (rule le_less_trans [OF order_trans [OF length_filter_le]]) simp
  then have "(ucast (count_available es) :: u64) = of_nat (length (filter (\<lambda>e. e820_type e = E820_TYPE_AVAILABLE) es))"
    unfolding count_available_eq by (rule ucast_of_nat_u32)
  ultimately show ?thesis by (simp add: map_taken_def Let_def)
qed

lemma take_tags_map:
  "list_all tag_ok tags \<Longrightarrow> last_map tags = Some es \<Longrightarrow> map_taken (gmdsc (fold take_tag tags s)) es"
proof (induction tags arbitrary: s rule: rev_induct)
  case (snoc t tags)
  have snoc_map: "last_map (tags @ [t]) =
      (case t of MemoryMap es \<Rightarrow> Some es | OtherTag ty payload \<Rightarrow> last_map tags)" for tags
    by (induction tags) (auto split: option.splits boot_tag.splits)
  then show ?case
    using snoc take_tag_map by (cases t) auto
qed simp

subsection \<open>Properties\<close>

text \<open>C8: The walk over a well-formed Multiboot2 information, with tags of any kind before and behind the
  memory map and at most 32 entries in each map, returns, and gmdsc holds the entries of the last memory map in order, their number and
  the number of available ones, as the boot loader wrote them.\<close>

theorem parse_sys_info_reads_map:
  assumes "holds m (info + 8) (info_bytes tags)" "list_all tag_ok tags"
    and "unat (info + 8) + length (info_bytes tags) < 2 ^ 64" "last_map tags = Some es"
  shows "\<exists>s'. parse_sys_info m info s = Some (Inr s') \<and> map_taken (gmdsc s') es"
  using parse_tags_info [OF assms(1-3), of s] take_tags_map [OF assms(2,4), of s]
  by (simp add: parse_sys_info_def MULTIBOOT_TAG_ALIGN_def)

definition sample_tags :: "boot_tag list" where
  "sample_tags = [OtherTag 2 [0x47, 0x52, 0x55, 0x42, 0],
     MemoryMap [\<lparr>e820_addr = 0, e820_len = 0x9f000, e820_type = 1\<rparr>,
                \<lparr>e820_addr = 0x100000, e820_len = 0x7ef0000, e820_type = 1\<rparr>,
                \<lparr>e820_addr = 0xfffc0000, e820_len = 0x40000, e820_type = 2\<rparr>]]"

theorem parse_sys_info_reads_map_witness:
  "\<exists>s'. parse_sys_info (store_bytes (\<lambda>_. 0) 0x10008 (info_bytes sample_tags)) 0x10000 four_frames = Some (Inr s') \<and>
     e820_num (gmdsc s') = 3 \<and> e820_available_size (gmdsc s') = 2 \<and> e820_addr (e820 (gmdsc s') 1) = 0x100000"
proof -
  let ?m = "store_bytes (\<lambda>_. 0) 0x10008 (info_bytes sample_tags)"
  have len: "length (info_bytes sample_tags) = 112"
    by (simp add: info_bytes_def sample_tags_def pad8_def)
  then have "holds ?m (0x10000 + 8) (info_bytes sample_tags)"
    using load_store_bytes [of "info_bytes sample_tags" "\<lambda>_. 0" "0x10008"] by (simp add: holds_def)
  moreover have "list_all tag_ok sample_tags" by (simp add: sample_tags_def)
  ultimately obtain s' where "parse_sys_info ?m 0x10000 four_frames = Some (Inr s')"
    "map_taken (gmdsc s') [\<lparr>e820_addr = 0, e820_len = 0x9f000, e820_type = 1\<rparr>,
       \<lparr>e820_addr = 0x100000, e820_len = 0x7ef0000, e820_type = 1\<rparr>,
       \<lparr>e820_addr = 0xfffc0000, e820_len = 0x40000, e820_type = 2\<rparr>]"
    using parse_sys_info_reads_map [of ?m "0x10000" sample_tags _ four_frames] len
    by (fastforce simp: sample_tags_def)
  moreover from this(2) have "e820_addr (e820 (gmdsc s') (of_nat 1)) = 0x100000"
    unfolding map_taken_def by (metis One_nat_def e820_t.select_convs(1) length_Cons nth_Cons_0 nth_Cons_Suc zero_less_Suc Suc_less_eq)
  ultimately show ?thesis
    by (intro exI [of _ s']) (simp add: map_taken_def E820_TYPE_AVAILABLE_def)
qed

text \<open>C40: A memory map with more than 32 entries is written past the end of gmdsc.e820: the copy has no
  bound, so the 33rd entry goes behind the array.\<close>

theorem large_map_overflows:
  assumes "holds m tag (tag_bytes (MemoryMap es))" "32 < length es" "length es < 2 ^ 27"
    and "unat tag + 16 + 24 * length es < 2 ^ 64"
  shows "init_memory_map m tag s = Some (Inl E820Overflow)"
  using init_memory_map_tag(1) [OF assms(1,3,4)] assms(2) by simp

theorem large_map_overflows_witness:
  "let es = replicate 33 \<lparr>e820_addr = 0, e820_len = 0x1000, e820_type = 2\<rparr>
   in init_memory_map (store_bytes (\<lambda>_. 0) 0x10000 (tag_bytes (MemoryMap es))) 0x10000 four_frames =
        Some (Inl E820Overflow)"
proof -
  let ?es = "replicate 33 \<lparr>e820_addr = 0, e820_len = 0x1000, e820_type = 2\<rparr>"
  have len: "length (tag_bytes (MemoryMap ?es)) = 808"
    unfolding tag_bytes.simps length_append length_entries by simp
  then have "holds (store_bytes (\<lambda>_. 0) 0x10000 (tag_bytes (MemoryMap ?es))) 0x10000 (tag_bytes (MemoryMap ?es))"
    using load_store_bytes [of "tag_bytes (MemoryMap ?es)" "\<lambda>_. 0" "0x10000"]
    unfolding holds_def by (simp del: tag_bytes.simps)
  then show ?thesis
    using large_map_overflows [of _ "0x10000" ?es four_frames] by (simp del: tag_bytes.simps)
qed

end
