(* ===== verification/KList.thy ===== *)
theory KList
  imports Prelude
begin

text \<open>
  The circular doubly linked lists of \<^verbatim>\<open>include/list.h\<close>. The links of all list heads form a store from
  addresses to addresses, so that aliasing is visible; \<open>ring\<close> is the abstract list that starts at a
  head. The lemmas say where the two insertions put a new element.
\<close>

record links =
  nxt :: "u64 \<Rightarrow> u64"
  prv :: "u64 \<Rightarrow> u64"

definition list_init :: "u64 \<Rightarrow> links \<Rightarrow> links" where
  "list_init head h = h\<lparr>prv := (prv h)(head := head), nxt := (nxt h)(head := head)\<rparr>"

text \<open>\<^verbatim>\<open>__list_add\<close>: four assignments, in this order.\<close>

definition list_add :: "u64 \<Rightarrow> u64 \<Rightarrow> u64 \<Rightarrow> links \<Rightarrow> links" where
  "list_add new prev next h =
     (let h = h\<lparr>nxt := (nxt h)(prev := new)\<rparr>;
          h = h\<lparr>nxt := (nxt h)(new := next)\<rparr>;
          h = h\<lparr>prv := (prv h)(new := prev)\<rparr>
      in h\<lparr>prv := (prv h)(next := new)\<rparr>)"

definition list_add_tail :: "u64 \<Rightarrow> u64 \<Rightarrow> links \<Rightarrow> links" where
  "list_add_tail new head h = list_add new head (nxt h head) h"

definition list_add_head :: "u64 \<Rightarrow> u64 \<Rightarrow> links \<Rightarrow> links" where
  "list_add_head new head h = list_add new (prv h head) head h"

definition list_next :: "u64 \<Rightarrow> links \<Rightarrow> u64" where
  "list_next entry h = nxt h entry"

subsection \<open>Rings\<close>

text \<open>\<open>chain h a ys b\<close>: from \<open>a\<close> the elements \<open>ys\<close> follow, then \<open>b\<close>, with the links set both ways.\<close>

fun chain :: "links \<Rightarrow> u64 \<Rightarrow> u64 list \<Rightarrow> u64 \<Rightarrow> bool" where
  "chain h a [] b \<longleftrightarrow> nxt h a = b \<and> prv h b = a"
| "chain h a (y # ys) b \<longleftrightarrow> nxt h a = y \<and> prv h y = a \<and> chain h y ys b"

fun ring :: "links \<Rightarrow> u64 list \<Rightarrow> bool" where
  "ring h [] \<longleftrightarrow> False"
| "ring h (a # ys) \<longleftrightarrow> distinct (a # ys) \<and> chain h a ys a"

lemma chain_append: "chain h a (xs @ y # ys) b \<longleftrightarrow> chain h a xs y \<and> chain h y ys b"
  by (induction xs arbitrary: a) auto

lemma chain_cong:
  assumes "\<And>x. x \<in> set (a # ys) \<Longrightarrow> nxt h' x = nxt h x" "\<And>x. x \<in> set (ys @ [b]) \<Longrightarrow> prv h' x = prv h x"
  shows "chain h' a ys b = chain h a ys b"
  using assms by (induction ys arbitrary: a) auto

lemma ring_rotate: "ring h (xs @ ys) \<Longrightarrow> ring h (ys @ xs)"
  by (cases xs; cases ys) (auto simp: chain_append)

lemma ring_next: "ring h (a # ys) \<Longrightarrow> nxt h a = hd (ys @ [a])"
  by (cases ys) auto

lemma ring_prev: "ring h (a # ys) \<Longrightarrow> prv h a = last (a # ys)"
proof (cases ys rule: rev_cases)
  case (snoc zs z)
  then show "ring h (a # ys) \<Longrightarrow> prv h a = last (a # ys)" by (simp add: chain_append)
qed simp

text \<open>The one insertion behind both operations: a new element goes after \<open>a\<close>.\<close>

lemma list_add_after:
  assumes "ring h (a # ys)" "new \<notin> set (a # ys)"
  shows "ring (list_add new a (nxt h a) h) (a # new # ys)"
proof (cases ys)
  case Nil
  then show ?thesis using assms by (simp add: list_add_def)
next
  case (Cons y zs)
  have "chain (list_add new a y h) y zs a = chain h y zs a"
    by (rule chain_cong) (use assms Cons in \<open>auto simp: list_add_def\<close>)
  then show ?thesis using assms Cons by (auto simp: list_add_def)
qed

lemma list_add_tail_ring:
  "ring h (head # ys) \<Longrightarrow> new \<notin> set (head # ys) \<Longrightarrow> ring (list_add_tail new head h) (head # new # ys)"
  unfolding list_add_tail_def by (rule list_add_after)

lemma list_add_head_ring:
  assumes "ring h (head # ys)" "new \<notin> set (head # ys)"
  shows "ring (list_add_head new head h) (head # ys @ [new])"
proof (cases ys rule: rev_cases)
  case Nil
  then show ?thesis
    using list_add_after [of h head "[]" new] assms by (simp add: list_add_head_def)
next
  case (snoc zs z)
  then have r: "ring h (z # head # zs)" using assms(1) ring_rotate [of h "head # zs" "[z]"] by simp
  have "prv h head = z" using ring_prev [OF assms(1)] snoc by simp
  moreover have "nxt h z = head" using ring_next [OF r] by simp
  ultimately have "ring (list_add_head new head h) (z # new # head # zs)"
    using list_add_after [OF r, of new] assms(2) snoc by (simp add: list_add_head_def)
  then show ?thesis
    using ring_rotate [of "list_add_head new head h" "[z, new]" "head # zs"] snoc
    by (simp del: ring.simps)
qed

lemma list_init_ring: "ring (list_init a h) [a]"
  by (simp add: list_init_def)

lemma list_init_other: "a \<notin> set ys \<Longrightarrow> ring (list_init a h) ys = ring h ys"
proof (cases ys)
  case (Cons y zs)
  have "chain (list_init a h) y zs y = chain h y zs y" if "a \<notin> set ys"
    by (rule chain_cong) (use that Cons in \<open>auto simp: list_init_def\<close>)
  then show "a \<notin> set ys \<Longrightarrow> ring (list_init a h) ys = ring h ys"
    using Cons by simp
qed simp

subsection \<open>The contract of a task ring\<close>

text \<open>What a user of the lists relies on: initialisation makes a ring of one element and leaves rings it
  is not part of alone, and insertion after a member adds exactly the new element.\<close>

locale ring_store =
  fixes is_ring :: "'h \<Rightarrow> u64 list \<Rightarrow> bool"
    and init :: "u64 \<Rightarrow> 'h \<Rightarrow> 'h"
    and insert_after :: "u64 \<Rightarrow> u64 \<Rightarrow> 'h \<Rightarrow> 'h"
  assumes init_ring: "is_ring (init a h) [a]"
    and insert_ring: "is_ring h (a # ys) \<Longrightarrow> x \<notin> set (a # ys) \<Longrightarrow>
      is_ring (insert_after x a h) (a # x # ys)"
begin

lemma build_ring:
  assumes "distinct (a # xs)"
  shows "is_ring (fold (\<lambda>x. insert_after x a) xs (init a h)) (a # rev xs)"
  using assms by (induction xs rule: rev_induct) (auto intro: init_ring insert_ring)

end

interpretation rings: ring_store ring list_init list_add_tail
  by unfold_locales (auto intro: list_init_ring list_add_tail_ring simp del: ring.simps)

subsection \<open>Properties\<close>

text \<open>The names of the two insertions are swapped: list_add_tail puts the new element first, directly
  behind the head, and list_add_head puts it last, before the head. Both keep the ring intact in both
  directions.\<close>

theorem insertions_are_swapped:
  assumes "ring h (head # ys)" "new \<notin> set (head # ys)"
  shows "ring (list_add_tail new head h) (head # new # ys) \<and>
    ring (list_add_head new head h) (head # ys @ [new])"
  using list_add_tail_ring [OF assms] list_add_head_ring [OF assms] by blast

theorem insertions_are_swapped_witness:
  "let h = list_add_tail 2 1 (list_init 1 \<lparr>nxt = (\<lambda>_. 0), prv = (\<lambda>_. 0)\<rparr>)
   in ring (list_add_tail 3 1 h) [1, 3, 2] \<and> ring (list_add_head 3 1 h) [1, 2, 3]"
proof -
  let ?h = "list_add_tail 2 1 (list_init 1 \<lparr>nxt = (\<lambda>_. 0), prv = (\<lambda>_. 0)\<rparr>)"
  have "ring ?h [1, 2]" using rings.build_ring [of 1 "[2]"] by simp
  then show ?thesis using insertions_are_swapped [of ?h 1 "[2]" 3] by simp
qed

end
