(* ===== verification/Gate.thy ===== *)
theory Gate
  imports PageFrame
begin

text \<open>
  \<^verbatim>\<open>include/gate.h\<close>: the interrupt gates of the IDT, which the inline assembly of \<^verbatim>\<open>_set_gate\<close> packs into
  two quadwords, and the task state segment. The gate functions of the processor's manual that take a
  gate apart are the specification of the packing.
\<close>

record gate_state = mm_state +
  IDT_Table :: "u32 \<Rightarrow> u64 \<times> u64"
  TSS64_Table :: "nat \<Rightarrow> u32"

lemma emit_gate [simp]:
  "IDT_Table (emit e s) = IDT_Table s" "TSS64_Table (emit e s) = TSS64_Table s"
  by (simp_all add: emit_def)

text \<open>\<^verbatim>\<open>ltr\<close> loads the task register with the selector of descriptor \<open>n\<close>.\<close>

definition load_TR :: "u64 \<Rightarrow> 'a machine_scheme \<Rightarrow> 'a machine_scheme" where
  "load_TR n s = emit (Ltr (push_bit 3 n)) s"

subsection \<open>Gates\<close>

text \<open>The registers after each instruction of \<^verbatim>\<open>_set_gate\<close>: \<open>rax\<close> starts as the code selector
  \<^verbatim>\<open>0x8 << 16\<close>, \<open>rdx\<close> as the address of the handler, \<open>rcx\<close> as the stack index.\<close>

definition gate_words :: "u64 \<Rightarrow> u8 \<Rightarrow> u64 \<Rightarrow> u64 \<times> u64" where
  "gate_words attr ist code_addr =
     (let rax = push_bit 16 0x8; rdx = code_addr; rcx = ucast ist;
          rax = (rax AND NOT 0xffff) OR (rdx AND 0xffff);
          rcx = rcx AND 0x7;
          rcx = rcx + push_bit 8 attr;
          rcx = push_bit 32 rcx;
          rax = rax + rcx;
          rcx = rdx AND 0xffffffff;
          rcx = drop_bit 16 rcx;
          rcx = push_bit 48 rcx;
          rax = rax + rcx;
          rdx = drop_bit 32 rdx
      in (rax, rdx))"

definition set_gate :: "u32 \<Rightarrow> u64 \<Rightarrow> u8 \<Rightarrow> u64 \<Rightarrow> 'a gate_state_scheme \<Rightarrow> 'a gate_state_scheme" where
  "set_gate n attr ist code_addr s =
     s\<lparr>IDT_Table := (IDT_Table s)(n := gate_words attr ist code_addr)\<rparr>"

definition set_intr_gate :: "u32 \<Rightarrow> u8 \<Rightarrow> u64 \<Rightarrow> 'a gate_state_scheme \<Rightarrow> 'a gate_state_scheme" where
  "set_intr_gate n ist addr s = set_gate n 0x8E ist addr s"

definition set_trap_gate :: "u32 \<Rightarrow> u8 \<Rightarrow> u64 \<Rightarrow> 'a gate_state_scheme \<Rightarrow> 'a gate_state_scheme" where
  "set_trap_gate n ist addr s = set_gate n 0x8F ist addr s"

definition set_system_gate :: "u32 \<Rightarrow> u8 \<Rightarrow> u64 \<Rightarrow> 'a gate_state_scheme \<Rightarrow> 'a gate_state_scheme" where
  "set_system_gate n ist addr s = set_gate n 0xEF ist addr s"

definition set_system_intr_gate :: "u32 \<Rightarrow> u8 \<Rightarrow> u64 \<Rightarrow> 'a gate_state_scheme \<Rightarrow> 'a gate_state_scheme" where
  "set_system_intr_gate n ist addr s = set_gate n 0xEE ist addr s"

subsection \<open>The task state segment\<close>

definition store_tss :: "nat \<Rightarrow> u64 \<Rightarrow> (nat \<Rightarrow> u32) \<Rightarrow> nat \<Rightarrow> u32" where
  "store_tss i v t = t(i := ucast v, Suc i := ucast (drop_bit 32 v))"

definition load_tss :: "(nat \<Rightarrow> u32) \<Rightarrow> nat \<Rightarrow> u64" where
  "load_tss t i = ucast (t i) OR push_bit 32 (ucast (t (Suc i)))"

definition set_tss64 ::
    "u64 \<Rightarrow> u64 \<Rightarrow> u64 \<Rightarrow> u64 \<Rightarrow> u64 \<Rightarrow> u64 \<Rightarrow> u64 \<Rightarrow> u64 \<Rightarrow> u64 \<Rightarrow> u64
      \<Rightarrow> 'a gate_state_scheme \<Rightarrow> 'a gate_state_scheme" where
  "set_tss64 rsp0 rsp1 rsp2 ist1 ist2 ist3 ist4 ist5 ist6 ist7 s =
     (let t = TSS64_Table s;
          t = store_tss 1 rsp0 t;
          t = store_tss 3 rsp1 t;
          t = store_tss 5 rsp2 t;
          t = store_tss 9 ist1 t;
          t = store_tss 11 ist2 t;
          t = store_tss 13 ist3 t;
          t = store_tss 15 ist4 t;
          t = store_tss 17 ist5 t;
          t = store_tss 19 ist6 t;
          t = store_tss 21 ist7 t
      in s\<lparr>TSS64_Table := t\<rparr>)"

lemma load_store_tss:
  "load_tss (store_tss i v t) i = v"
  "j \<noteq> i \<Longrightarrow> j \<noteq> Suc i \<Longrightarrow> Suc j \<noteq> i \<Longrightarrow> load_tss (store_tss i v t) j = load_tss t j"
proof -
  have "ucast (ucast v :: u32) OR push_bit 32 (ucast (ucast (drop_bit 32 v) :: u32)) = v"
    by (rule bit_word_eqI) (auto simp: bit_simps)
  then show "load_tss (store_tss i v t) i = v" by (simp add: load_tss_def store_tss_def)
qed (simp add: load_tss_def store_tss_def)

subsection \<open>What the processor reads from a gate\<close>

definition gate_offset :: "u64 \<times> u64 \<Rightarrow> u64" where
  "gate_offset g = (fst g AND 0xffff) OR push_bit 16 (drop_bit 48 (fst g)) OR push_bit 32 (snd g)"

definition gate_selector :: "u64 \<times> u64 \<Rightarrow> u64" where
  "gate_selector g = drop_bit 16 (fst g) AND 0xffff"

definition gate_ist :: "u64 \<times> u64 \<Rightarrow> u64" where
  "gate_ist g = drop_bit 32 (fst g) AND 0x7"

definition gate_attr :: "u64 \<times> u64 \<Rightarrow> u64" where
  "gate_attr g = drop_bit 40 (fst g) AND 0xff"

text \<open>The sums of the assembly add parts that share no bit.\<close>

lemma masks_u64: "(0xffff :: u64) = mask 16" "(0xffffffff :: u64) = mask 32" "(0x7 :: u64) = mask 3"
  "(0xff :: u64) = mask 8"
  by (simp_all add: mask_eq_exp_minus_1)

lemma bit_8_int: "bit (8 :: int) n \<longleftrightarrow> n = 3"
proof -
  have "(8 :: int) = push_bit 3 1" by simp
  then show ?thesis by (simp only: bit_push_bit_iff) (auto simp: bit_1_iff)
qed

lemma bit_8_shift: "bit (push_bit 16 (0x8 :: u64)) n \<longleftrightarrow> n = 19" "bit (0x80000 :: int) n \<longleftrightarrow> n = 19"
proof -
  have "(0x80000 :: u64) = push_bit 19 1" "(0x80000 :: int) = push_bit 19 1" by simp_all
  then have *: "bit (0x80000 :: u64) n \<longleftrightarrow> n = 19" "bit (0x80000 :: int) n \<longleftrightarrow> n = 19"
    by (simp_all only: bit_push_bit_iff) (auto simp: bit_1_iff)
  then show "bit (0x80000 :: int) n \<longleftrightarrow> n = 19" by blast
  have "push_bit 16 (0x8 :: u64) = 0x80000" by simp
  then show "bit (push_bit 16 (0x8 :: u64)) n \<longleftrightarrow> n = 19" by (simp only: *)
qed

lemma gate_words_bits:
  assumes "attr < 0x100"
  shows "gate_words attr ist a =
    ((a AND 0xffff) OR push_bit 16 0x8 OR push_bit 32 (ucast ist AND 0x7) OR push_bit 40 attr OR
       push_bit 48 (drop_bit 16 (a AND 0xffffffff)), drop_bit 32 a)"
proof -
  have attr: "\<not> bit attr n" if "8 \<le> n" for n
  proof -
    have "attr = take_bit 8 attr"
      using assms by (simp add: word_unat_eq_iff unsigned_take_bit_eq take_bit_nat_eq_self word_less_nat_alt)
    then show ?thesis using that by (metis bit_take_bit_iff not_less)
  qed
  have sum1: "(ucast ist AND 0x7) + push_bit 8 attr = (ucast ist AND 0x7) OR push_bit 8 attr"
    unfolding masks_u64 by (rule disjunctive_add) (auto simp: bit_simps)
  have base: "(push_bit 16 0x8 AND NOT 0xffff) OR (a AND 0xffff) = (a AND 0xffff) OR push_bit 16 (0x8 :: u64)"
    unfolding masks_u64 by (rule bit_word_eqI) (auto simp: bit_8_shift bit_and_iff bit_or_iff bit_not_iff bit_mask_iff)
  have sum2: "((a AND 0xffff) OR push_bit 16 0x8) + push_bit 32 ((ucast ist AND 0x7) OR push_bit 8 attr) =
      ((a AND 0xffff) OR push_bit 16 0x8) OR push_bit 32 ((ucast ist AND 0x7) OR push_bit 8 attr)"
    unfolding masks_u64
    by (rule disjunctive_add) (auto simp: bit_8_shift bit_and_iff bit_or_iff bit_mask_iff bit_push_bit_iff [of 32] bit_push_bit_iff [of 40])
  have sum3: "x + push_bit 48 y = x OR push_bit 48 y" if "\<And>n. 48 \<le> n \<Longrightarrow> \<not> bit x n" for x y :: u64
    by (rule disjunctive_add) (use that in \<open>auto simp: bit_simps\<close>)
  have high: "\<not> bit (((a AND 0xffff) OR push_bit 16 0x8) OR push_bit 32 ((ucast ist AND 0x7) OR push_bit 8 attr)) n"
    if "48 \<le> n" for n
    unfolding masks_u64 using that attr
    by (auto simp: bit_8_shift bit_and_iff bit_or_iff bit_mask_iff bit_push_bit_iff [of 32] bit_push_bit_iff [of 8]
      bit_push_bit_iff [of 40])
  have parts: "push_bit 32 ((ucast ist AND 0x7) OR push_bit 8 attr) =
      push_bit 32 (ucast ist AND 0x7) OR push_bit 40 attr"
    by (simp add: push_bit_or push_bit_push_bit)
  show ?thesis
    by (simp only: gate_words_def Let_def base sum1 sum2 sum3 [OF high]) (simp only: parts or.assoc)
qed

lemma gate_low_bit:
  assumes "attr < 0x100"
  shows "bit (fst (gate_words attr ist a)) n \<longleftrightarrow>
    n < 16 \<and> bit a n \<or> n = 19 \<or> 32 \<le> n \<and> n < 35 \<and> bit ist (n - 32) \<or>
    40 \<le> n \<and> n < 48 \<and> bit attr (n - 40) \<or> 48 \<le> n \<and> n < 64 \<and> bit a (n - 32)"
proof -
  have "attr = take_bit 8 attr"
    using assms by (simp add: word_unat_eq_iff unsigned_take_bit_eq take_bit_nat_eq_self word_less_nat_alt)
  then have attr: "bit attr k \<Longrightarrow> k < 8" for k by (metis bit_take_bit_iff)
  have "bit (a AND mask 16) n \<longleftrightarrow> n < 16 \<and> bit a n"
    by (auto simp: bit_and_iff bit_mask_iff)
  moreover have "bit (push_bit 32 (ucast ist AND mask 3 :: u64)) n \<longleftrightarrow> 32 \<le> n \<and> n < 35 \<and> bit ist (n - 32)"
    by (auto simp: bit_push_bit_iff [of 32] bit_and_iff bit_mask_iff bit_ucast_iff)
  moreover have "bit (push_bit 40 attr) n \<longleftrightarrow> 40 \<le> n \<and> n < 48 \<and> bit attr (n - 40)"
    using attr [of "n - 40"] by (auto simp: bit_push_bit_iff [of 40])
  moreover have "bit (push_bit 48 (drop_bit 16 (a AND mask 32))) n \<longleftrightarrow> 48 \<le> n \<and> n < 64 \<and> bit a (n - 32)"
  proof (cases "48 \<le> n")
    case True
    then have "16 + (n - 48) = n - 32" by simp
    then show ?thesis
      using True by (auto simp: bit_push_bit_iff [of 48] bit_drop_bit_eq bit_and_iff bit_mask_iff)
  qed (simp only: bit_push_bit_iff [of 48], simp)
  ultimately show ?thesis
    unfolding gate_words_bits [OF assms] fst_conv masks_u64 bit_or_iff bit_8_shift by simp
qed

lemma gate_parts:
  assumes "attr < 0x100"
  shows "gate_offset (gate_words attr ist a) = a" "gate_selector (gate_words attr ist a) = 0x8"
    "gate_ist (gate_words attr ist a) = ucast ist AND 0x7" "gate_attr (gate_words attr ist a) = attr"
proof -
  have attr: "bit attr k \<Longrightarrow> k < 8" for k
  proof -
    have "attr = take_bit 8 attr"
      using assms by (simp add: word_unat_eq_iff unsigned_take_bit_eq take_bit_nat_eq_self word_less_nat_alt)
    then show "bit attr k \<Longrightarrow> k < 8" by (metis bit_take_bit_iff)
  qed
  have hi: "snd (gate_words attr ist a) = drop_bit 32 a" by (simp add: gate_words_bits [OF assms])
  note low = gate_low_bit [OF assms]
  show "gate_offset (gate_words attr ist a) = a"
    unfolding gate_offset_def hi masks_u64
  proof (rule bit_word_eqI)
    fix n assume "n < LENGTH(64)"
    then show "bit (fst (gate_words attr ist a) AND mask 16 OR
        push_bit 16 (drop_bit 48 (fst (gate_words attr ist a))) OR push_bit 32 (drop_bit 32 a)) n = bit a n"
      by (cases "n < 16"; cases "n < 32")
        (auto simp: low bit_and_iff bit_or_iff bit_mask_iff bit_push_bit_iff bit_drop_bit_eq)
  qed
  show "gate_ist (gate_words attr ist a) = ucast ist AND 0x7"
    unfolding gate_ist_def masks_u64
    by (rule bit_word_eqI) (auto simp: low bit_and_iff bit_mask_iff bit_drop_bit_eq bit_ucast_iff)
  show "gate_attr (gate_words attr ist a) = attr"
    unfolding gate_attr_def masks_u64
    by (rule bit_word_eqI) (auto simp: low bit_and_iff bit_mask_iff bit_drop_bit_eq dest: attr)
  have "(0x8 :: u64) = push_bit 3 1" by simp
  moreover have "gate_selector (gate_words attr ist a) = push_bit 3 1"
    unfolding gate_selector_def masks_u64
    by (rule bit_word_eqI) (auto simp: low bit_and_iff bit_mask_iff bit_drop_bit_eq bit_push_bit_iff bit_1_iff bit_8_int)
  ultimately show "gate_selector (gate_words attr ist a) = 0x8" by (simp only:)
qed

lemma set_gate_simps [simp]:
  "gmdsc (set_gate n attr ist addr s) = gmdsc s" "trace (set_gate n attr ist addr s) = trace s"
  "TSS64_Table (set_gate n attr ist addr s) = TSS64_Table s"
  "IDT_Table (set_gate n attr ist addr s) = (IDT_Table s)(n := gate_words attr ist addr)"
  by (simp_all add: set_gate_def)

subsection \<open>Properties\<close>

text \<open>A gate that the assembly of _set_gate has packed is read back by the processor as the handler's
  full 64-bit address, the kernel code selector 8, the low three bits of the stack index and the
  attribute byte.\<close>

theorem gate_roundtrip:
  assumes "attr < 0x100"
  shows "let g = IDT_Table (set_gate n attr ist addr s) n
    in gate_offset g = addr \<and> gate_selector g = 0x8 \<and> gate_ist g = ucast ist AND 0x7 \<and> gate_attr g = attr"
  using gate_parts [OF assms] by (simp add: Let_def)

theorem gate_roundtrip_witness:
  "let g = gate_words 0x8E 0 0xffff800002001234
   in gate_offset g = 0xffff800002001234 \<and> gate_selector g = 0x8 \<and> gate_attr g = 0x8E"
  using gate_roundtrip [of "0x8E" "0x21" 0 "0xffff800002001234" "\<lparr>trace = [], dev = (\<lambda>_. 0), reads = 0, Global_CR3 = 0,
    gmdsc = empty_descriptor, bits = (\<lambda>_. 0), pages = pages four_frames, zones = zones four_frames,
    IDT_Table = (\<lambda>_. (0, 0)), TSS64_Table = (\<lambda>_. 0)\<rparr>"]
  by (simp add: Let_def)

text \<open>set_tss64 stores every stack pointer in the two 32-bit words of its field, so the processor finds
  rsp0 to rsp2 at words 1, 3 and 5 and ist1 to ist7 at the odd words from 9 to 21.\<close>

theorem set_tss64_fields:
  "let t = TSS64_Table (set_tss64 r0 r1 r2 i1 i2 i3 i4 i5 i6 i7 s)
   in map (load_tss t) [1, 3, 5, 9, 11, 13, 15, 17, 19, 21] = [r0, r1, r2, i1, i2, i3, i4, i5, i6, i7]"
  by (simp add: set_tss64_def Let_def load_store_tss)

end
