(* ===== verification/Trap.thy ===== *)
theory Trap
  imports Prelude
begin

text \<open>
  The assembly around interrupts and system calls: \<^verbatim>\<open>SAVE_ALL_REGS\<close> and \<^verbatim>\<open>Build_IRQ\<close> of
  \<^verbatim>\<open>kernel/irq/irq.c\<close>, \<^verbatim>\<open>ret_from_intr\<close>, \<^verbatim>\<open>system_call\<close> and \<^verbatim>\<open>ret_system_call\<close> of \<^verbatim>\<open>kernel/entry.S\<close>, and the
  frame \<^verbatim>\<open>struct pt_regs\<close> of \<^verbatim>\<open>include/ptrace.h\<close> that they build. The code is a list of instructions with
  an interpreter; the stack is memory of 8-byte slots below the stack pointer.
\<close>

datatype reg = RAX | RBX | RCX | RDX | RSI | RDI | RBP | R8 | R9 | R10 | R11 | R12 | R13 | R14 | R15

datatype seg = DS | ES

record cpu =
  gpr :: "reg \<Rightarrow> u64"
  segs :: "seg \<Rightarrow> u16"
  rsp :: u64
  slots :: "u64 \<Rightarrow> u64"
  rip :: u64
  cs :: u64
  rflags :: u64
  ss :: u64

datatype instr =
    Pushq reg
  | PushImm u64
  | Popq reg
  | MovSegReg seg reg
  | MovRegSeg reg seg
  | Xorq reg
  | MovImm u64 reg
  | MovReg reg reg
  | MovRsp reg
  | StoreRsp reg u64
  | AddRsp u64
  | SubRsp u64
  | CallReg u64 reg
  | Ret
  | Lretq
  | Iretq
  | Sysexit
  | Cld
  | StiOp

definition push :: "u64 \<Rightarrow> cpu \<Rightarrow> cpu" where
  "push v c = c\<lparr>rsp := rsp c - 8, slots := (slots c)(rsp c - 8 := v)\<rparr>"

definition pop :: "cpu \<Rightarrow> u64 \<times> cpu" where
  "pop c = (slots c (rsp c), c\<lparr>rsp := rsp c + 8\<rparr>)"

text \<open>A move to a segment register takes the low 16 bits. \<open>CallReg\<close> carries its return address. \<^verbatim>\<open>iretq\<close> takes the return frame off the stack;
  \<^verbatim>\<open>sysexit\<close> goes to \<^verbatim>\<open>rdx\<close> with the stack of \<^verbatim>\<open>rcx\<close>, on level 3 with the segments 32 and 40 above that of MSR 0x174,
  which task_init sets to 8. Of the flags only the two that cld and sti change are followed, not the results of
  arithmetic.\<close>

fun exec :: "instr \<Rightarrow> cpu \<Rightarrow> cpu" where
  "exec (Pushq r) c = push (gpr c r) c"
| "exec (PushImm v) c = push v c"
| "exec (Popq r) c = (let (v, c) = pop c in c\<lparr>gpr := (gpr c)(r := v)\<rparr>)"
| "exec (MovSegReg g r) c = c\<lparr>gpr := (gpr c)(r := ucast (segs c g))\<rparr>"
| "exec (MovRegSeg r g) c = c\<lparr>segs := (segs c)(g := ucast (gpr c r))\<rparr>"
| "exec (Xorq r) c = c\<lparr>gpr := (gpr c)(r := 0)\<rparr>"
| "exec (MovImm v r) c = c\<lparr>gpr := (gpr c)(r := v)\<rparr>"
| "exec (MovReg q r) c = c\<lparr>gpr := (gpr c)(r := gpr c q)\<rparr>"
| "exec (MovRsp r) c = c\<lparr>gpr := (gpr c)(r := rsp c)\<rparr>"
| "exec (StoreRsp r off) c = c\<lparr>slots := (slots c)(rsp c + off := gpr c r)\<rparr>"
| "exec (AddRsp v) c = c\<lparr>rsp := rsp c + v\<rparr>"
| "exec (SubRsp v) c = c\<lparr>rsp := rsp c - v\<rparr>"
| "exec (CallReg ret r) c = (push ret c)\<lparr>rip := gpr c r\<rparr>"
| "exec Ret c = (let (v, c) = pop c in c\<lparr>rip := v\<rparr>)"
| "exec Lretq c = (let (vrip, c) = pop c; (vcs, c) = pop c in c\<lparr>rip := vrip, cs := vcs\<rparr>)"
| "exec Iretq c =
     (let (vrip, c) = pop c; (vcs, c) = pop c; (vrflags, c) = pop c; (vrsp, c) = pop c; (vss, c) = pop c
      in c\<lparr>rip := vrip, cs := vcs, rflags := vrflags, rsp := vrsp, ss := vss\<rparr>)"
| "exec Sysexit c = c\<lparr>rip := gpr c RDX, rsp := gpr c RCX, cs := 0x2b, ss := 0x33\<rparr>"
| "exec Cld c = c\<lparr>rflags := rflags c AND NOT 0x400\<rparr>"
| "exec StiOp c = c\<lparr>rflags := rflags c OR 0x200\<rparr>"

definition run :: "instr list \<Rightarrow> cpu \<Rightarrow> cpu" where
  "run is c = fold exec is c"

subsection \<open>The code\<close>

definition SAVE_ALL_REGS :: "instr list" where
  "SAVE_ALL_REGS =
     [Cld, Pushq RAX, Pushq RAX, MovSegReg ES RAX, Pushq RAX, MovSegReg DS RAX, Pushq RAX, Xorq RAX,
      Pushq RBP, Pushq RDI, Pushq RSI, Pushq RDX, Pushq RCX, Pushq RBX, Pushq R8, Pushq R9, Pushq R10,
      Pushq R11, Pushq R12, Pushq R13, Pushq R14, Pushq R15, MovImm 0x10 RDX, MovRegSeg RDX DS,
      MovRegSeg RDX ES]"

text \<open>The stub of interrupt \<open>nr\<close> up to the jump to \<^verbatim>\<open>do_IRQ\<close>; \<open>ret\<close> is the address of
  \<^verbatim>\<open>ret_from_intr\<close>.\<close>

definition Build_IRQ :: "u64 \<Rightarrow> u64 \<Rightarrow> instr list" where
  "Build_IRQ ret nr =
     [PushImm 0] @ SAVE_ALL_REGS @ [MovRsp RDI, MovImm ret RAX, Pushq RAX, MovImm nr RSI]"

definition RESTORE_REGS :: "instr list" where
  "RESTORE_REGS =
     [Popq R15, Popq R14, Popq R13, Popq R12, Popq R11, Popq R10, Popq R9, Popq R8, Popq RBX, Popq RCX,
      Popq RDX, Popq RSI, Popq RDI, Popq RBP, Popq RAX, MovRegSeg RAX DS, Popq RAX, MovRegSeg RAX ES,
      Popq RAX]"

definition ret_from_intr :: "instr list" where
  "ret_from_intr = RESTORE_REGS @ [AddRsp 0x10, StiOp, Iretq]"

definition system_call :: "instr list" where
  "system_call =
     [StiOp, SubRsp 0x38, Cld, Pushq RAX, MovSegReg ES RAX, Pushq RAX, MovSegReg DS RAX, Pushq RAX, Xorq RAX,
      Pushq RBP, Pushq RDI, Pushq RSI, Pushq RDX, Pushq RCX, Pushq RBX, Pushq R8, Pushq R9, Pushq R10,
      Pushq R11, Pushq R12, Pushq R13, Pushq R14, Pushq R15, MovImm 0x10 RDX, MovRegSeg RDX DS,
      MovRegSeg RDX ES, MovRsp RDI]"

definition ret_system_call :: "instr list" where
  "ret_system_call = [StoreRsp RAX 0x80] @ RESTORE_REGS @ [AddRsp 0x38, Sysexit]"

text \<open>What the processor does before the first instruction of a stub: it takes the stack at \<open>base\<close> (the
  interrupted one or that of the task state segment) and pushes the interrupted context.\<close>

definition deliver :: "u64 \<Rightarrow> cpu \<Rightarrow> cpu" where
  "deliver base c =
     push (rip c) (push (cs c) (push (rflags c) (push (rsp c) (push (ss c) (c\<lparr>rsp := base\<rparr>)))))"

subsection \<open>struct pt_regs\<close>

record pt_regs =
  pt_r15 :: u64
  pt_r14 :: u64
  pt_r13 :: u64
  pt_r12 :: u64
  pt_r11 :: u64
  pt_r10 :: u64
  pt_r9 :: u64
  pt_r8 :: u64
  pt_rbx :: u64
  pt_rcx :: u64
  pt_rdx :: u64
  pt_rsi :: u64
  pt_rdi :: u64
  pt_rbp :: u64
  pt_ds :: u64
  pt_es :: u64
  pt_rax :: u64
  pt_func :: u64
  pt_errcode :: u64
  pt_rip :: u64
  pt_cs :: u64
  pt_rflags :: u64
  pt_rsp :: u64
  pt_ss :: u64

definition read_pt_regs :: "(u64 \<Rightarrow> u64) \<Rightarrow> u64 \<Rightarrow> pt_regs" where
  "read_pt_regs m p =
     \<lparr>pt_r15 = m p, pt_r14 = m (p + 8), pt_r13 = m (p + 16), pt_r12 = m (p + 24),
      pt_r11 = m (p + 32), pt_r10 = m (p + 40), pt_r9 = m (p + 48), pt_r8 = m (p + 56),
      pt_rbx = m (p + 64), pt_rcx = m (p + 72), pt_rdx = m (p + 80), pt_rsi = m (p + 88),
      pt_rdi = m (p + 96), pt_rbp = m (p + 104), pt_ds = m (p + 112), pt_es = m (p + 120),
      pt_rax = m (p + 128), pt_func = m (p + 136), pt_errcode = m (p + 144), pt_rip = m (p + 152),
      pt_cs = m (p + 160), pt_rflags = m (p + 168), pt_rsp = m (p + 176), pt_ss = m (p + 184)\<rparr>"

definition pt_list :: "pt_regs \<Rightarrow> u64 list" where
  "pt_list r = [pt_r15 r, pt_r14 r, pt_r13 r, pt_r12 r, pt_r11 r, pt_r10 r, pt_r9 r, pt_r8 r, pt_rbx r,
     pt_rcx r, pt_rdx r, pt_rsi r, pt_rdi r, pt_rbp r, pt_ds r, pt_es r, pt_rax r, pt_func r,
     pt_errcode r, pt_rip r, pt_cs r, pt_rflags r, pt_rsp r, pt_ss r]"

lemmas run_simps = run_def push_def pop_def Let_def

lemma slot_arith [simp]: "(a :: u64) - b + c = a + (c - b)" "(a :: u64) + b + c = a + (b + c)"
  "(a :: u64) + b - c = a + (b - c)" "(a :: u64) - b - c = a + (- b - c)"
  by simp_all

lemma ucast_seg [simp]: "(ucast (ucast (w :: u16) :: u64) :: u16) = w"
  by (rule bit_word_eqI) (simp add: bit_simps)

lemma run_Cons: "run (i # is) c = run is (exec i c)" "run [] c = c"
  by (simp_all add: run_def)

lemma run_append: "run (xs @ ys) c = run ys (run xs c)"
  by (simp add: run_def)

subsection \<open>What the entry code leaves\<close>

text \<open>Eighteen pushes: the frame from \<^verbatim>\<open>r15\<close> up to the \<^verbatim>\<open>func\<close> slot, which gets a second copy of
  \<^verbatim>\<open>rax\<close>.\<close>

lemma irq_entry_frame:
  fixes c :: cpu and base nr ret :: u64
  defines "c' \<equiv> run (Build_IRQ ret nr) (deliver base c)"
  shows "gpr c' RDI = base - 192" "gpr c' RSI = nr" "rsp c' = base - 200" "slots c' (base - 200) = ret"
    "read_pt_regs (slots c') (base - 192) =
      \<lparr>pt_r15 = gpr c R15, pt_r14 = gpr c R14, pt_r13 = gpr c R13, pt_r12 = gpr c R12,
       pt_r11 = gpr c R11, pt_r10 = gpr c R10, pt_r9 = gpr c R9, pt_r8 = gpr c R8, pt_rbx = gpr c RBX,
       pt_rcx = gpr c RCX, pt_rdx = gpr c RDX, pt_rsi = gpr c RSI, pt_rdi = gpr c RDI,
       pt_rbp = gpr c RBP, pt_ds = ucast (segs c DS), pt_es = ucast (segs c ES), pt_rax = gpr c RAX,
       pt_func = gpr c RAX, pt_errcode = 0, pt_rip = rip c, pt_cs = cs c, pt_rflags = rflags c,
       pt_rsp = rsp c, pt_ss = ss c\<rparr>"
  unfolding c'_def
  by (simp_all add: Build_IRQ_def SAVE_ALL_REGS_def deliver_def run_simps read_pt_regs_def)

lemma restore_frame:
  assumes "f = read_pt_regs (slots c) (rsp c)"
  shows "run RESTORE_REGS c = c\<lparr>rsp := rsp c + 136,
      gpr := (\<lambda>r. case r of RAX \<Rightarrow> pt_rax f | RBX \<Rightarrow> pt_rbx f | RCX \<Rightarrow> pt_rcx f | RDX \<Rightarrow> pt_rdx f
        | RSI \<Rightarrow> pt_rsi f | RDI \<Rightarrow> pt_rdi f | RBP \<Rightarrow> pt_rbp f | R8 \<Rightarrow> pt_r8 f | R9 \<Rightarrow> pt_r9 f
        | R10 \<Rightarrow> pt_r10 f | R11 \<Rightarrow> pt_r11 f | R12 \<Rightarrow> pt_r12 f | R13 \<Rightarrow> pt_r13 f | R14 \<Rightarrow> pt_r14 f
        | R15 \<Rightarrow> pt_r15 f),
      segs := (\<lambda>g. case g of DS \<Rightarrow> ucast (pt_ds f) | ES \<Rightarrow> ucast (pt_es f))\<rparr>"
  unfolding assms
  by (auto simp: RESTORE_REGS_def run_simps read_pt_regs_def fun_eq_iff split: reg.splits seg.splits)

text \<open>The registers a frame gives back.\<close>

definition frame_gpr :: "pt_regs \<Rightarrow> reg \<Rightarrow> u64" where
  "frame_gpr f r = (case r of RAX \<Rightarrow> pt_rax f | RBX \<Rightarrow> pt_rbx f | RCX \<Rightarrow> pt_rcx f | RDX \<Rightarrow> pt_rdx f
     | RSI \<Rightarrow> pt_rsi f | RDI \<Rightarrow> pt_rdi f | RBP \<Rightarrow> pt_rbp f | R8 \<Rightarrow> pt_r8 f | R9 \<Rightarrow> pt_r9 f
     | R10 \<Rightarrow> pt_r10 f | R11 \<Rightarrow> pt_r11 f | R12 \<Rightarrow> pt_r12 f | R13 \<Rightarrow> pt_r13 f | R14 \<Rightarrow> pt_r14 f
     | R15 \<Rightarrow> pt_r15 f)"

definition frame_segs :: "pt_regs \<Rightarrow> seg \<Rightarrow> u16" where
  "frame_segs f g = (case g of DS \<Rightarrow> ucast (pt_ds f) | ES \<Rightarrow> ucast (pt_es f))"

lemma run_restore:
  "run RESTORE_REGS c = c\<lparr>rsp := rsp c + 136, gpr := frame_gpr (read_pt_regs (slots c) (rsp c)),
     segs := frame_segs (read_pt_regs (slots c) (rsp c))\<rparr>"
  by (simp only: restore_frame [OF refl] frame_gpr_def [abs_def] frame_segs_def [abs_def])

lemma irq_entry_registers:
  "frame_gpr (read_pt_regs (slots (run (Build_IRQ ret nr) (deliver base c))) (base - 192)) = gpr c"
  "frame_segs (read_pt_regs (slots (run (Build_IRQ ret nr) (deliver base c))) (base - 192)) = segs c"
  by (rule ext, simp add: irq_entry_frame frame_gpr_def frame_segs_def split: reg.split seg.split)+

lemma ret_from_intr_frame:
  defines "f c \<equiv> read_pt_regs (slots c) (rsp c)"
  shows "gpr (run ret_from_intr c) = frame_gpr (f c)" "segs (run ret_from_intr c) = frame_segs (f c)"
    "rip (run ret_from_intr c) = pt_rip (f c)" "cs (run ret_from_intr c) = pt_cs (f c)"
    "rflags (run ret_from_intr c) = pt_rflags (f c)" "rsp (run ret_from_intr c) = pt_rsp (f c)"
    "ss (run ret_from_intr c) = pt_ss (f c)"
  unfolding f_def ret_from_intr_def run_append run_restore
  by (simp_all add: run_simps read_pt_regs_def)

lemma interrupt_returns:
  assumes "rsp c2 = rsp (run (Build_IRQ ret nr) (deliver base c))"
    and "slots c2 (base - 200) = ret"
    and "read_pt_regs (slots c2) (base - 192) =
      read_pt_regs (slots (run (Build_IRQ ret nr) (deliver base c))) (base - 192)"
  shows "let c3 = run ret_from_intr (run [Ret] c2)
    in rip (run [Ret] c2) = ret \<and> gpr c3 = gpr c \<and> segs c3 = segs c \<and> rip c3 = rip c \<and>
       cs c3 = cs c \<and> rflags c3 = rflags c \<and> rsp c3 = rsp c \<and> ss c3 = ss c"
proof -
  have ret: "run [Ret] c2 = c2\<lparr>rip := ret, rsp := base - 192\<rparr>"
    using assms(1,2) by (simp add: run_Cons pop_def irq_entry_frame)
  then show ?thesis
    using assms(3) by (simp add: Let_def ret_from_intr_frame irq_entry_frame(5)
        irq_entry_registers [unfolded irq_entry_frame(5)])
qed

subsection \<open>Properties\<close>

text \<open>An interrupt is transparent: when the stub of any vector has built its frame, do_IRQ has returned
  with the stack where it was and the frame untouched, and ret_from_intr has run, all general
  registers, ds and es, the instruction pointer, the flags and the stack are those of the interrupted
  code, whatever do_IRQ did to the registers.\<close>

theorem interrupt_is_transparent:
  assumes "rsp c2 = rsp (run (Build_IRQ ret nr) (deliver base c))"
    and "slots c2 (base - 200) = ret"
    and "read_pt_regs (slots c2) (base - 192) =
      read_pt_regs (slots (run (Build_IRQ ret nr) (deliver base c))) (base - 192)"
  shows "let c3 = run ret_from_intr (run [Ret] c2)
    in rip (run [Ret] c2) = ret \<and> gpr c3 = gpr c \<and> segs c3 = segs c \<and> rip c3 = rip c \<and>
       cs c3 = cs c \<and> rflags c3 = rflags c \<and> rsp c3 = rsp c \<and> ss c3 = ss c"
  by (rule interrupt_returns [OF assms])

theorem interrupt_is_transparent_witness:
  "let c = \<lparr>gpr = (\<lambda>r. if r = RAX then 7 else 9), segs = (\<lambda>_. 0x30), rsp = 0xa00000, slots = (\<lambda>_. 0),
        rip = 0x800010, cs = 0x28, rflags = 0x202, ss = 0x30\<rparr>;
       c1 = run (Build_IRQ 0x1234 0x21) (deliver 0xffff800000007c00 c);
       c3 = run ret_from_intr (run [Ret] (c1\<lparr>gpr := (\<lambda>_. 0)\<rparr>))
   in gpr c3 RAX = 7 \<and> rip c3 = 0x800010 \<and> rsp c3 = 0xa00000"
proof -
  let ?c = "\<lparr>gpr = (\<lambda>r. if r = RAX then 7 else 9), segs = (\<lambda>_. 0x30), rsp = 0xa00000, slots = (\<lambda>_. 0),
     rip = 0x800010, cs = 0x28, rflags = 0x202, ss = 0x30\<rparr>"
  let ?c1 = "run (Build_IRQ 0x1234 0x21) (deliver 0xffff800000007c00 ?c)"
  show ?thesis
    using interrupt_is_transparent [of "?c1\<lparr>gpr := (\<lambda>_. 0)\<rparr>" "0x1234" "0x21" "0xffff800000007c00" ?c]
      irq_entry_frame(4) [of "0x1234" "0x21" "0xffff800000007c00" ?c]
    by (simp add: Let_def)
qed

lemma system_call_frame:
  fixes c :: cpu
  defines "c1 \<equiv> run system_call c"
  shows "gpr c1 RDI = rsp c - 192" "rsp c1 = rsp c - 192"
    "frame_gpr (read_pt_regs (slots c1) (rsp c - 192)) = gpr c"
    "frame_segs (read_pt_regs (slots c1) (rsp c - 192)) = segs c"
  unfolding c1_def
  by (simp_all add: system_call_def run_simps read_pt_regs_def frame_gpr_def frame_segs_def fun_eq_iff
      split: reg.split seg.split)

lemma store_rax_frame:
  "read_pt_regs (m(p + 128 := v)) p = (read_pt_regs m p)\<lparr>pt_rax := v\<rparr>"
  by (simp add: read_pt_regs_def)

lemma system_call_roundtrip:
  assumes "rsp c2 = rsp (run system_call c)"
    and "read_pt_regs (slots c2) (rsp c - 192) = read_pt_regs (slots (run system_call c)) (rsp c - 192)"
  shows "let c3 = run ret_system_call c2
    in gpr c3 = (gpr c)(RAX := gpr c2 RAX) \<and> segs c3 = segs c \<and> rip c3 = gpr c RDX \<and> rsp c3 = gpr c RCX"
proof -
  have g: "frame_gpr (f\<lparr>pt_rax := v\<rparr>) = (frame_gpr f)(RAX := v)" "frame_segs (f\<lparr>pt_rax := v\<rparr>) = frame_segs f"
    for f :: pt_regs and v
    by (auto simp: frame_gpr_def frame_segs_def fun_eq_iff split: reg.split seg.split)
  have s: "run ret_system_call c2 =
      run [AddRsp 0x38, Sysexit] (run RESTORE_REGS (c2\<lparr>slots := (slots c2)(rsp c2 + 128 := gpr c2 RAX)\<rparr>))"
    by (simp add: ret_system_call_def run_append run_Cons)
  show ?thesis
    unfolding s run_restore using assms
    by (simp add: run_Cons Let_def system_call_frame(2-4) g
        store_rax_frame [of _ "rsp c - 192", simplified])
qed

text \<open>A system call returns to the address in the caller's rdx with the stack pointer in its rcx, with
  every register as it was but rax, which holds what the handler returned.\<close>

theorem system_call_returns_rax:
  assumes "rsp c2 = rsp (run system_call c)"
    and "read_pt_regs (slots c2) (rsp c - 192) = read_pt_regs (slots (run system_call c)) (rsp c - 192)"
  shows "let c3 = run ret_system_call c2
    in gpr c3 = (gpr c)(RAX := gpr c2 RAX) \<and> segs c3 = segs c \<and> rip c3 = gpr c RDX \<and> rsp c3 = gpr c RCX"
  by (rule system_call_roundtrip [OF assms])

theorem system_call_returns_rax_witness:
  "let c = \<lparr>gpr = (\<lambda>r. case r of RDX \<Rightarrow> 0x800040 | RCX \<Rightarrow> 0xa00000 | _ \<Rightarrow> 5), segs = (\<lambda>_. 0x30),
        rsp = 0xffff800000007c00, slots = (\<lambda>_. 0), rip = 0, cs = 0x8, rflags = 2, ss = 0x10\<rparr>;
       c1 = run system_call c;
       c3 = run ret_system_call (c1\<lparr>gpr := (gpr c1)(RAX := - 1)\<rparr>)
   in gpr c3 RAX = - 1 \<and> gpr c3 RBX = 5 \<and> rip c3 = 0x800040 \<and> rsp c3 = 0xa00000"
proof -
  let ?c = "\<lparr>gpr = (\<lambda>r. case r of RDX \<Rightarrow> 0x800040 | RCX \<Rightarrow> 0xa00000 | _ \<Rightarrow> 5), segs = (\<lambda>_. 0x30),
     rsp = 0xffff800000007c00, slots = (\<lambda>_. 0), rip = 0, cs = 0x8, rflags = 2, ss = 0x10\<rparr>"
  show ?thesis
    using system_call_returns_rax [of "(run system_call ?c)\<lparr>gpr := (gpr (run system_call ?c))(RAX := - 1)\<rparr>" ?c]
    by (simp add: Let_def)
qed

end
