(* ===== verification/Keyboard.thy ===== *)
theory Keyboard
  imports Gate
begin

text \<open>
  \<^verbatim>\<open>drivers/keyboard/keyboard.c\<close> and the key table of \<^verbatim>\<open>include/keyboard.h\<close>: the interrupt handler reads
  a scan code, tracks the two shift keys and prints the character of a pressed key. The specification
  \<open>typed\<close> is the text that a sequence of scan codes spells; the handler refines it up to the screen.
\<close>

record kb_state = gate_state +
  shift_l :: int
  shirt_r :: int

definition FLAG_BREAK :: u8 where "FLAG_BREAK = 0x80"
definition PORT_KB_DATA :: u16 where "PORT_KB_DATA = 0x60"

text \<open>The rows of \<^verbatim>\<open>keycode_map_normal\<close>, unshifted and shifted; the rows behind them are zero.\<close>

definition keycode_rows :: "(u32 \<times> u32) list" where
  "keycode_rows =
     [(0x00, 0x00), (0x00, 0x00), (0x31, 0x21), (0x32, 0x40), (0x33, 0x23), (0x34, 0x24),
      (0x35, 0x25), (0x36, 0x5e), (0x37, 0x26), (0x38, 0x2a), (0x39, 0x28), (0x30, 0x29),
      (0x2d, 0x5f), (0x3d, 0x2b), (0x00, 0x00), (0x00, 0x00), (0x71, 0x51), (0x77, 0x57),
      (0x65, 0x45), (0x72, 0x52), (0x74, 0x54), (0x79, 0x59), (0x75, 0x55), (0x69, 0x49),
      (0x6f, 0x4f), (0x70, 0x50), (0x5b, 0x7b), (0x5d, 0x7d), (0x00, 0x00), (0x1d, 0x1d),
      (0x61, 0x41), (0x73, 0x53), (0x64, 0x44), (0x66, 0x46), (0x67, 0x47), (0x68, 0x48),
      (0x6a, 0x4a), (0x6b, 0x4b), (0x6c, 0x4c), (0x3b, 0x3a), (0x27, 0x22), (0x60, 0x7e),
      (0x2a, 0x2a), (0x5c, 0x7c), (0x7a, 0x5a), (0x78, 0x58), (0x63, 0x43), (0x76, 0x56),
      (0x62, 0x42), (0x6e, 0x4e), (0x6d, 0x4d), (0x2c, 0x3c), (0x2e, 0x3e), (0x2f, 0x3f),
      (0x36, 0x36), (0x2a, 0x2a), (0x38, 0x38), (0x20, 0x20), (0x00, 0x00), (0x00, 0x00),
      (0x00, 0x00), (0x00, 0x00), (0x00, 0x00), (0x00, 0x00)]"

definition keyrow :: "u8 \<Rightarrow> u32 \<times> u32" where
  "keyrow code = (if unat code < length keycode_rows then keycode_rows ! unat code else (0, 0))"

subsection \<open>The handler\<close>

text \<open>\<^verbatim>\<open>kprintf("%c", (char)key)\<close>: the argument is the character widened with its sign.\<close>

definition parse_keycode :: "u8 \<Rightarrow> 'a kb_state_scheme \<Rightarrow> 'a kb_state_scheme" where
  "parse_keycode x s =
     (let make = (if x AND FLAG_BREAK \<noteq> 0 then 0 else 1);
          row = keyrow (x AND 0x7F);
          key = (if shift_l s \<noteq> 0 \<or> shirt_r s \<noteq> 0 then snd row else fst row);
          (s, key) =
            (if x AND 0x7F = 0x2A then (s\<lparr>shift_l := make\<rparr>, 0)
             else if x AND 0x7F = 0x36 then (s\<lparr>shirt_r := make\<rparr>, 0)
             else (s, if make = 0 then 0 else key))
      in if key \<noteq> 0 then log_printf ''%c'' [scast (ucast key :: u8)] s else s)"

definition keyboard_handler :: "u64 \<Rightarrow> u64 \<Rightarrow> 'a kb_state_scheme \<Rightarrow> 'a kb_state_scheme" where
  "keyboard_handler nr r s = (let (x, s) = io_in8 PORT_KB_DATA s in parse_keycode x s)"

subsection \<open>The text that scan codes spell\<close>

definition key_char :: "bool \<Rightarrow> u8 \<Rightarrow> u8" where
  "key_char shifted code = ucast ((if shifted then snd else fst) (keyrow code))"

fun typed :: "bool \<Rightarrow> bool \<Rightarrow> u8 list \<Rightarrow> u8 list" where
  "typed l r [] = []"
| "typed l r (x # xs) =
     (let code = x AND 0x7F; down = (x AND 0x80 = 0)
      in if code = 0x2A then typed down r xs
         else if code = 0x36 then typed l down xs
         else if down \<and> key_char (l \<or> r) code \<noteq> 0 then key_char (l \<or> r) code # typed l r xs
         else typed l r xs)"

definition char_event :: "u8 \<Rightarrow> event" where
  "char_event k = Printk WORD_WHITE ''%c'' [scast k]"

lemma emit_kb [simp]:
  "shift_l (emit e s) = shift_l s" "shirt_r (emit e s) = shirt_r s"
  by (simp_all add: emit_def)

lemma keycode_small: "list_all (\<lambda>p. fst p < 0x80 \<and> snd p < 0x80) keycode_rows"
  by (simp add: keycode_rows_def)

lemma keyrow_small: "fst (keyrow code) < 0x80" "snd (keyrow code) < 0x80"
  using keycode_small by (auto simp: keyrow_def list_all_length split: prod.splits)

lemma key_char_zero: "key_char sh code = 0 \<longleftrightarrow> (if sh then snd (keyrow code) else fst (keyrow code)) = 0"
proof -
  have "ucast k = (0 :: u8) \<longleftrightarrow> k = 0" if "k < 0x80" for k :: u32
  proof -
    have "unat k < 256" using that by (simp add: word_less_nat_alt)
    then have "unat (ucast k :: u8) = unat k"
      by (simp add: unsigned_ucast_eq take_bit_nat_eq_self)
    then show ?thesis by (metis unat_0 word_unat_eq_iff)
  qed
  then show ?thesis using keyrow_small [of code] by (simp add: key_char_def)
qed

lemma parse_keycode_step:
  "trace (parse_keycode x s) =
     trace s @ map char_event (typed (shift_l s \<noteq> 0) (shirt_r s \<noteq> 0) [x])"
  "shift_l (parse_keycode x s) = (if x AND 0x7F = 0x2A then (if x AND 0x80 = 0 then 1 else 0) else shift_l s)"
  "shirt_r (parse_keycode x s) = (if x AND 0x7F = 0x36 then (if x AND 0x80 = 0 then 1 else 0) else shirt_r s)"
  using key_char_zero [of "shift_l s \<noteq> 0 \<or> shirt_r s \<noteq> 0" "x AND 0x7F"]
  by (auto simp: parse_keycode_def Let_def FLAG_BREAK_def log_printf_def char_event_def key_char_def)

lemma typed_step:
  "typed l r (x # xs) = typed l r [x] @
     typed (if x AND 0x7F = 0x2A then x AND 0x80 = 0 else l) (if x AND 0x7F = 0x36 then x AND 0x80 = 0 else r) xs"
  by (simp add: Let_def)

lemma parse_keycodes_typed:
  "trace (fold parse_keycode xs s) = trace s @ map char_event (typed (shift_l s \<noteq> 0) (shirt_r s \<noteq> 0) xs)"
proof (induction xs arbitrary: s)
  case (Cons x xs)
  have "(shift_l (parse_keycode x s) \<noteq> 0) = (if x AND 0x7F = 0x2A then x AND 0x80 = 0 else shift_l s \<noteq> 0)"
    "(shirt_r (parse_keycode x s) \<noteq> 0) = (if x AND 0x7F = 0x36 then x AND 0x80 = 0 else shirt_r s \<noteq> 0)"
    by (simp_all add: parse_keycode_step)
  then show ?case
    using Cons [of "parse_keycode x s"]
    by (simp only: fold_Cons comp_apply parse_keycode_step(1) typed_step [of _ _ x xs] map_append append_assoc)
qed simp

subsection \<open>On the screen\<close>

lemma char_byte_byte_char: "char_byte (byte_char b) = b"
proof -
  have "unat b < 256" using unsigned_less [of b, where ?'a = nat] by simp
  then have "(of_char (char_of (unat b) :: char) :: nat) = unat b" by simp
  then show ?thesis by (simp add: char_byte_def byte_char_def)
qed

lemma vsprintf_char: "vsprintf ''%c'' [a] m = Inr \<lparr>vout = [byte_char (ucast a)], vargs = [], vmem = m\<rparr>"
proof -
  have "char_pad (- 1) out = (out, - 2)" "char_pad (- 2) out = (out, - 3)" for out
    by (subst char_pad.simps, simp add: i32_id)+
  then show ?thesis
    by (simp add: vsprintf_def directive_def parse_width_def parse_precision_def convert_def
        with_arg_def conv_c_def has_def Let_def is_digit_def)
qed

lemma show_char:
  assumes "k \<noteq> 0"
  shows "map_sum id screen_of (show_event (char_event k) con) = Inr (put_char 0x07 k (screen_of con))"
proof -
  have "ucast (scast k :: u64) = k"
    by (rule bit_word_eqI) (simp add: bit_simps)
  then show ?thesis
    using assms screen_of_print [of 7 "[k]" "con\<lparr>cmem := cmem con\<rparr>"]
    by (simp add: char_event_def kcolor_printf_def printf_color_def vsprintf_char char_byte_byte_char
        WORD_WHITE_def put_string_def)
qed

lemma show_typed:
  assumes "list_all (\<lambda>k. k \<noteq> 0) ks"
  shows "map_sum id screen_of (show_events (map char_event ks) con) = Inr (put_string 0x07 ks (screen_of con))"
  using assms
proof (induction ks arbitrary: con)
  case Nil
  then show ?case by (simp add: put_string_def)
next
  case (Cons k ks)
  then have k: "k \<noteq> 0" by simp
  from show_char [OF k, of con] obtain con' where
    "show_event (char_event k) con = Inr con'" "screen_of con' = put_char 0x07 k (screen_of con)"
    by (cases "show_event (char_event k) con") auto
  with Cons k show ?case by (simp add: put_string_def)
qed

lemma typed_nonzero: "list_all (\<lambda>k. k \<noteq> 0) (typed l r xs)"
  by (induction xs arbitrary: l r) (auto simp: Let_def)

lemma put_string_append:
  assumes "list_all (\<lambda>k. k \<noteq> 0) ks"
  shows "put_string color (ks @ ms) sc = put_string color ms (put_string color ks sc)"
proof -
  have "takeWhile (\<lambda>k. k \<noteq> 0) ks = ks"
    using assms by (simp add: list_all_iff takeWhile_eq_all_conv)
  moreover have "takeWhile (\<lambda>k. k \<noteq> 0) (ks @ ms) = ks @ takeWhile (\<lambda>k. k \<noteq> 0) ms"
    using assms by (simp add: list_all_iff takeWhile_append2)
  ultimately show ?thesis by (simp only: put_string_def fold_append comp_apply)
qed

subsection \<open>The handler on a stream of scan codes\<close>

definition scan_codes :: "'a kb_state_scheme \<Rightarrow> nat \<Rightarrow> u8 list" where
  "scan_codes s n = map (\<lambda>i. ucast (dev s (reads s + i))) [0..<n]"

lemma parse_keycode_dev [simp]:
  "dev (parse_keycode x s) = dev s" "reads (parse_keycode x s) = reads s"
  by (auto simp: parse_keycode_def Let_def log_printf_def)

lemma keyboard_handler_step:
  fixes s :: "'a kb_state_scheme"
  defines "x \<equiv> ucast (dev s (reads s)) :: u8"
  shows "trace (keyboard_handler nr r s) =
      trace s @ In8 0x60 x # map char_event (typed (shift_l s \<noteq> 0) (shirt_r s \<noteq> 0) [x])"
    and "dev (keyboard_handler nr r s) = dev s"
    and "reads (keyboard_handler nr r s) = Suc (reads s)"
    and "shift_l (keyboard_handler nr r s) \<noteq> 0 \<longleftrightarrow> (if x AND 0x7F = 0x2A then x AND 0x80 = 0 else shift_l s \<noteq> 0)"
    and "shirt_r (keyboard_handler nr r s) \<noteq> 0 \<longleftrightarrow> (if x AND 0x7F = 0x36 then x AND 0x80 = 0 else shirt_r s \<noteq> 0)"
  unfolding x_def keyboard_handler_def io_in8_def Let_def PORT_KB_DATA_def
  by (simp_all add: parse_keycode_step)

lemma scan_codes_Suc:
  "scan_codes s (Suc n) = ucast (dev s (reads s)) # scan_codes (keyboard_handler nr r s) n"
  by (simp add: scan_codes_def keyboard_handler_step upt_conv_Cons map_Suc_upt [symmetric] comp_def del: upt_Suc)

lemma keyboard_run:
  "\<exists>es. trace ((keyboard_handler nr r ^^ n) s) = trace s @ es \<and>
     (\<forall>con. map_sum id screen_of (show_events es con) =
        Inr (put_string 0x07 (typed (shift_l s \<noteq> 0) (shirt_r s \<noteq> 0) (scan_codes s n)) (screen_of con)))"
proof (induction n arbitrary: s)
  case 0
  then show ?case by (simp add: scan_codes_def put_string_def)
next
  case (Suc n)
  let ?x = "ucast (dev s (reads s)) :: u8" and ?s = "keyboard_handler nr r s"
  let ?ks = "typed (shift_l s \<noteq> 0) (shirt_r s \<noteq> 0) [?x]"
  obtain es where es: "trace ((keyboard_handler nr r ^^ n) ?s) = trace ?s @ es"
    "\<And>con. map_sum id screen_of (show_events es con) = Inr (put_string 0x07
       (typed (shift_l ?s \<noteq> 0) (shirt_r ?s \<noteq> 0) (scan_codes ?s n)) (screen_of con))"
    using Suc [of ?s] by blast
  have "map_sum id screen_of (show_events (In8 0x60 ?x # map char_event ?ks @ es) con) =
      Inr (put_string 0x07 (typed (shift_l s \<noteq> 0) (shirt_r s \<noteq> 0) (scan_codes s (Suc n))) (screen_of con))" for con
  proof -
    obtain con' where con': "show_events (map char_event ?ks) con = Inr con'"
      "screen_of con' = put_string 0x07 ?ks (screen_of con)"
      using show_typed [OF typed_nonzero, of "shift_l s \<noteq> 0" "shirt_r s \<noteq> 0" "[?x]" con]
      by (cases "show_events (map char_event ?ks) con") auto
    have "typed (shift_l s \<noteq> 0) (shirt_r s \<noteq> 0) (scan_codes s (Suc n)) =
        ?ks @ typed (shift_l ?s \<noteq> 0) (shirt_r ?s \<noteq> 0) (scan_codes ?s n)"
      by (simp only: scan_codes_Suc [of _ _ nr r] keyboard_handler_step(4,5)
          typed_step [of _ _ ?x "scan_codes ?s n"])
    then show ?thesis
      using es(2) [of con'] con' typed_nonzero [of "shift_l s \<noteq> 0" "shirt_r s \<noteq> 0" "[?x]"]
      by (simp add: show_events_append put_string_append del: typed.simps)
  qed
  moreover have "trace ((keyboard_handler nr r ^^ Suc n) s) = trace s @ In8 0x60 ?x # map char_event ?ks @ es"
    using es(1) keyboard_handler_step(1) [of nr r s] by (simp only: funpow_Suc_right comp_apply append_assoc append_Cons)
  ultimately show ?case by blast
qed

text \<open>C19: The keyboard driver refines its specification: after n calls of the handler, one for each keyboard
  interrupt, the driver's part of the screen is the text that the n scan codes spell, with the shift keys tracked
  across interrupts and releases silent. (do_IRQ, which calls it, shows a message of its own besides.)\<close>

theorem keyboard_shows_what_is_typed:
  "map_sum id screen_of
     (show_events (drop (length (trace s)) (trace ((keyboard_handler nr r ^^ n) s))) con) =
   Inr (put_string 0x07 (typed (shift_l s \<noteq> 0) (shirt_r s \<noteq> 0) (scan_codes s n)) (screen_of con))"
  using keyboard_run [of n nr r s] by auto

text \<open>Keys that should print nothing do print: left Alt types the digit 8 and Ctrl the byte 0x1d,
  because the driver prints the table's key codes, while Enter prints nothing at all.\<close>

theorem modifier_keys_print:
  "trace (parse_keycode 0x38 s) = trace s @ [Printk WORD_WHITE ''%c'' [0x38]] \<and>
   trace (parse_keycode 0x1d s) = trace s @ [Printk WORD_WHITE ''%c'' [0x1d]] \<and>
   trace (parse_keycode 0x1c s) = trace s"
  by (simp_all add: parse_keycode_def Let_def FLAG_BREAK_def keyrow_def keycode_rows_def log_printf_def)

end
