(* ===== verification/Ata.thy ===== *)
theory Ata
  imports Keyboard
begin

text \<open>
  \<^verbatim>\<open>drivers/ata/ata.c\<close>: polled transfers with the first disk of bus 0, and the self test \<^verbatim>\<open>ata_init\<close>. The
  machine gains its byte memory \<open>ram\<close>, where the buffers live. The two waits loop until the status port
  answers as they like, so they are partial: \<open>None\<close> is a device that never does. The lemmas say what goes
  over the ports and what ends up in memory.
\<close>

record ata_state = kb_state +
  ram :: mem

text \<open>\<open>ram\<close> is indexed by physical addresses. The page tables (Entry) show the first gigabyte twice, at 0 and
  at \<^verbatim>\<open>KERNEL_VIRADDR\<close>: \<open>mapped\<close> is the memory as pointers see it.\<close>

definition mapped :: "mem \<Rightarrow> mem" where
  "mapped m = (\<lambda>a. m (VIR2PHY a))"

definition in_gigabyte :: "u64 \<Rightarrow> nat \<Rightarrow> bool" where
  "in_gigabyte a n \<longleftrightarrow> unat (VIR2PHY a) + n \<le> 2 ^ 30"

definition STATUS_BSY :: u8 where "STATUS_BSY = 0x80"
definition STATUS_RDY :: u8 where "STATUS_RDY = 0x40"

subsection \<open>Waiting\<close>

partial_function (option) ATA_wait_BSY :: "'a machine_scheme \<Rightarrow> 'a machine_scheme option" where
  "ATA_wait_BSY s =
     (if fst (io_in8 0x1F7 s) AND STATUS_BSY \<noteq> 0 then ATA_wait_BSY (snd (io_in8 0x1F7 s))
      else Some (snd (io_in8 0x1F7 s)))"

partial_function (option) ATA_wait_DRQ :: "'a machine_scheme \<Rightarrow> 'a machine_scheme option" where
  "ATA_wait_DRQ s =
     (if fst (io_in8 0x1F7 s) AND STATUS_RDY = 0 then ATA_wait_DRQ (snd (io_in8 0x1F7 s))
      else Some (snd (io_in8 0x1F7 s)))"

subsection \<open>Reading and writing sectors\<close>

text \<open>The six port writes that both transfers start with.\<close>

definition ata_command :: "u32 \<Rightarrow> u8 \<Rightarrow> u8 \<Rightarrow> 'a machine_scheme \<Rightarrow> 'a machine_scheme" where
  "ata_command LBA sector_count cmd s =
     (let s = io_out8 0x1F6 (0xE0 OR ucast (drop_bit 24 LBA AND 0xF)) s;
          s = io_out8 0x1F2 sector_count s;
          s = io_out8 0x1F3 (ucast LBA) s;
          s = io_out8 0x1F4 (ucast (drop_bit 8 LBA)) s;
          s = io_out8 0x1F5 (ucast (drop_bit 16 LBA)) s
      in io_out8 0x1F7 cmd s)"

text \<open>The target is a 32-bit number, and so an address of the map at 0.\<close>

definition read_word :: "u64 \<Rightarrow> nat \<Rightarrow> 'a ata_state_scheme \<Rightarrow> 'a ata_state_scheme" where
  "read_word target i s =
     (let (v, s) = io_in16 0x1F0 s in s\<lparr>ram := store16 (target + 2 * of_nat i) v (ram s)\<rparr>)"

fun read_loop :: "nat \<Rightarrow> u64 \<Rightarrow> 'a ata_state_scheme \<Rightarrow> 'a ata_state_scheme option" where
  "read_loop 0 target s = Some s"
| "read_loop (Suc n) target s =
     Option.bind (ATA_wait_BSY s) (\<lambda>s.
       Option.bind (ATA_wait_DRQ s) (\<lambda>s.
         read_loop n (target + 512) (fold (read_word target) [0..<256] s)))"

definition read_sectors_ATA_PIO ::
    "u32 \<Rightarrow> u32 \<Rightarrow> u8 \<Rightarrow> 'a ata_state_scheme \<Rightarrow> 'a ata_state_scheme option" where
  "read_sectors_ATA_PIO target_address LBA sector_count s =
     Option.bind (ATA_wait_BSY s) (\<lambda>s.
       read_loop (unat sector_count) (ucast target_address) (ata_command LBA sector_count 0x20 s))"

text \<open>Every sector sends the 256 double words at \<open>bytes\<close>: the pointer does not advance.\<close>

definition write_word :: "u64 \<Rightarrow> nat \<Rightarrow> 'a ata_state_scheme \<Rightarrow> 'a ata_state_scheme" where
  "write_word bytes i s = io_out32 0x1F0 (ucast (load_le 4 (mapped (ram s)) (bytes + 4 * of_nat i))) s"

fun write_loop :: "nat \<Rightarrow> u64 \<Rightarrow> 'a ata_state_scheme \<Rightarrow> 'a ata_state_scheme option" where
  "write_loop 0 bytes s = Some s"
| "write_loop (Suc n) bytes s =
     Option.bind (ATA_wait_BSY s) (\<lambda>s.
       Option.bind (ATA_wait_DRQ s) (\<lambda>s.
         write_loop n bytes (fold (write_word bytes) [0..<256] s)))"

definition write_sectors_ATA_PIO ::
    "u32 \<Rightarrow> u8 \<Rightarrow> u64 \<Rightarrow> 'a ata_state_scheme \<Rightarrow> 'a ata_state_scheme option" where
  "write_sectors_ATA_PIO LBA sector_count bytes s =
     Option.bind (ATA_wait_BSY s) (\<lambda>s.
       write_loop (unat sector_count) bytes (ata_command LBA sector_count 0x30 s))"

subsection \<open>The self test and the interrupt handlers\<close>

text \<open>\<open>bwrite\<close> and \<open>buf\<close> are the addresses of the two local arrays. The value of \<^verbatim>\<open>memset\<close> is a byte and
  its size counts bytes; the address of \<open>buf\<close> is passed as a 32-bit number.\<close>

definition show_buf :: "u64 \<Rightarrow> nat \<Rightarrow> 'a ata_state_scheme \<Rightarrow> 'a ata_state_scheme" where
  "show_buf buf i s =
     (let v = load_le 4 (mapped (ram s)) (buf + 4 * of_nat i);
          s = log_err_printf ''%x '' [v AND 0xff] s
      in log_err_printf ''%x '' [drop_bit 8 v AND 0xff] s)"

definition ata_init :: "u64 \<Rightarrow> u64 \<Rightarrow> 'a ata_state_scheme \<Rightarrow> 'a ata_state_scheme option" where
  "ata_init bwrite buf s =
     (let s = s\<lparr>ram := memset (VIR2PHY bwrite) (ucast (0xABCDEF12 :: u32)) 128 (ram s)\<rparr>
      in Option.bind (write_sectors_ATA_PIO 0x0 1 bwrite s) (\<lambda>s.
         Option.bind (read_sectors_ATA_PIO (ucast buf) 0x0 1 s) (\<lambda>s.
           Some (log_err_printf [newline] [] (fold (show_buf buf) [0..<10] s)))))"

definition ata_handler_read :: "u64 \<Rightarrow> u64 \<Rightarrow> 'a machine_scheme \<Rightarrow> 'a machine_scheme" where
  "ata_handler_read nr r s = s"

definition ata_handler_write :: "u64 \<Rightarrow> u64 \<Rightarrow> 'a machine_scheme \<Rightarrow> 'a machine_scheme" where
  "ata_handler_write nr r s = log_err_printf (''write success!!!!!'' @ [newline]) [] s"

subsection \<open>What the waits do\<close>

definition status :: "'a machine_scheme \<Rightarrow> nat \<Rightarrow> u8" where
  "status s k = ucast (dev s (reads s + k))"

text \<open>A wait only polls: it reads the status port and changes nothing else.\<close>

definition polled :: "'a machine_scheme \<Rightarrow> 'a machine_scheme \<Rightarrow> bool" where
  "polled s s' \<longleftrightarrow> dev s' = dev s \<and> machine.more s' = machine.more s \<and> reads s \<le> reads s' \<and>
     (\<exists>es. trace s' = trace s @ es \<and> set es \<subseteq> range (In8 0x1F7))"

lemma polled_read: "polled s (snd (io_in8 0x1F7 s))"
  by (auto simp: polled_def io_in8_def Let_def)

lemma polled_trans: "polled s t \<Longrightarrow> polled t u \<Longrightarrow> polled s u"
  by (auto simp: polled_def)

lemma status_read: "fst (io_in8 0x1F7 s) = status s 0" "status (snd (io_in8 0x1F7 s)) k = status s (Suc k)"
  by (simp_all add: io_in8_def Let_def status_def)

lemma wait_BSY_polls: "ATA_wait_BSY s = Some s' \<Longrightarrow> polled s s' \<and> (\<exists>k. status s k AND STATUS_BSY = 0)"
proof (rule ATA_wait_BSY.raw_induct [where P = "\<lambda>s s'. polled s s' \<and> (\<exists>k. status s k AND STATUS_BSY = 0)"])
  fix f :: "'a machine_scheme \<Rightarrow> 'a machine_scheme option" and s s'
  assume IH: "\<And>s y. f s = Some y \<Longrightarrow> polled s y \<and> (\<exists>k. status s k AND STATUS_BSY = 0)"
    and step: "(if fst (io_in8 0x1F7 s) AND STATUS_BSY \<noteq> 0 then f (snd (io_in8 0x1F7 s))
      else Some (snd (io_in8 0x1F7 s))) = Some s'"
  show "polled s s' \<and> (\<exists>k. status s k AND STATUS_BSY = 0)"
  proof (cases "status s 0 AND STATUS_BSY = 0")
    case True
    then show ?thesis using step polled_read [of s] by (auto simp: status_read)
  next
    case False
    then have "f (snd (io_in8 0x1F7 s)) = Some s'" using step by (simp add: status_read)
    from IH [OF this] show ?thesis
      using polled_trans [OF polled_read [of s]] by (auto simp: status_read)
  qed
qed

lemma wait_DRQ_polls: "ATA_wait_DRQ s = Some s' \<Longrightarrow> polled s s' \<and> (\<exists>k. status s k AND STATUS_RDY \<noteq> 0)"
proof (rule ATA_wait_DRQ.raw_induct [where P = "\<lambda>s s'. polled s s' \<and> (\<exists>k. status s k AND STATUS_RDY \<noteq> 0)"])
  fix f :: "'a machine_scheme \<Rightarrow> 'a machine_scheme option" and s s'
  assume IH: "\<And>s y. f s = Some y \<Longrightarrow> polled s y \<and> (\<exists>k. status s k AND STATUS_RDY \<noteq> 0)"
    and step: "(if fst (io_in8 0x1F7 s) AND STATUS_RDY = 0 then f (snd (io_in8 0x1F7 s))
      else Some (snd (io_in8 0x1F7 s))) = Some s'"
  show "polled s s' \<and> (\<exists>k. status s k AND STATUS_RDY \<noteq> 0)"
  proof (cases "status s 0 AND STATUS_RDY \<noteq> 0")
    case True
    then show ?thesis using step polled_read [of s] by (auto simp: status_read)
  next
    case False
    then have "f (snd (io_in8 0x1F7 s)) = Some s'" using step by (simp add: status_read)
    from IH [OF this] show ?thesis
      using polled_trans [OF polled_read [of s]] by (auto simp: status_read)
  qed
qed

lemma wait_BSY_returns: "status s k AND STATUS_BSY = 0 \<Longrightarrow> \<exists>s'. ATA_wait_BSY s = Some s'"
proof (induction k arbitrary: s)
  case 0
  then show ?case by (subst ATA_wait_BSY.simps) (simp add: status_read)
next
  case (Suc k)
  then show ?case by (subst ATA_wait_BSY.simps) (simp add: status_read)
qed

lemma wait_DRQ_returns: "status s k AND STATUS_RDY \<noteq> 0 \<Longrightarrow> \<exists>s'. ATA_wait_DRQ s = Some s'"
proof (induction k arbitrary: s)
  case 0
  then show ?case by (subst ATA_wait_DRQ.simps) (simp add: status_read)
next
  case (Suc k)
  then show ?case by (subst ATA_wait_DRQ.simps) (simp add: status_read)
qed

text \<open>C25: Each wait returns exactly when some later status byte satisfies it: ATA_wait_BSY needs a byte with
  BSY clear, ATA_wait_DRQ one with RDY set. A disk that stays busy hangs the kernel, and a disk that is
  ready without requesting data (DRQ, bit 3, is never looked at) lets ATA_wait_DRQ pass.\<close>

theorem waits_return_iff_status:
  "(ATA_wait_BSY s \<noteq> None \<longleftrightarrow> (\<exists>k. status s k AND STATUS_BSY = 0)) \<and>
   (ATA_wait_DRQ s \<noteq> None \<longleftrightarrow> (\<exists>k. status s k AND STATUS_RDY \<noteq> 0))"
  using wait_BSY_polls wait_DRQ_polls wait_BSY_returns wait_DRQ_returns by fastforce

subsection \<open>What goes over the ports\<close>

fun port_in :: "event \<Rightarrow> u16 list" where
  "port_in (In16 p v) = (if p = 0x1F0 then [v] else [])"
| "port_in _ = []"

fun port_out :: "event \<Rightarrow> u32 list" where
  "port_out (Out32 p v) = (if p = 0x1F0 then [v] else [])"
| "port_out _ = []"

definition data_in :: "event list \<Rightarrow> u16 list" where
  "data_in es = concat (map port_in es)"

definition data_out :: "event list \<Rightarrow> u32 list" where
  "data_out es = concat (map port_out es)"

text \<open>What happened between two states: the new events, with the data they carry.\<close>

definition new_events :: "'a machine_scheme \<Rightarrow> 'a machine_scheme \<Rightarrow> event list \<Rightarrow> bool" where
  "new_events s s' es \<longleftrightarrow> trace s' = trace s @ es"

lemma data_append [simp]:
  "data_in (es @ fs) = data_in es @ data_in fs" "data_out (es @ fs) = data_out es @ data_out fs"
  by (simp_all add: data_in_def data_out_def)

lemma data_simps [simp]:
  "data_in [] = []" "data_out [] = []"
  "data_in (e # es) = port_in e @ data_in es" "data_out (e # es) = port_out e @ data_out es"
  by (simp_all add: data_in_def data_out_def)

lemma data_polls: "set es \<subseteq> range (In8 p) \<Longrightarrow> data_in es = [] \<and> data_out es = []"
  by (induction es) auto

lemma more_ram: "machine.more s = machine.more s' \<Longrightarrow> ram s = ram s'"
  by (cases s; cases s') simp

lemma ram_emit [simp]: "ram (emit e s) = ram s"
  by (simp add: emit_def)

text \<open>\<open>moved s s' ins outs\<close>: between the states the data port delivered \<open>ins\<close> and took \<open>outs\<close>, on the same
  devices.\<close>

definition moved :: "'a ata_state_scheme \<Rightarrow> 'a ata_state_scheme \<Rightarrow> u16 list \<Rightarrow> u32 list \<Rightarrow> bool" where
  "moved s s' ins outs \<longleftrightarrow> dev s' = dev s \<and> (\<exists>es. new_events s s' es \<and> data_in es = ins \<and> data_out es = outs)"

lemma moved_trans:
  assumes "moved s t a b" "moved t u c d"
  shows "moved s u (a @ c) (b @ d)"
proof -
  from assms obtain es fs where
    "dev t = dev s" "trace t = trace s @ es" "data_in es = a" "data_out es = b"
    "dev u = dev t" "trace u = trace t @ fs" "data_in fs = c" "data_out fs = d"
    by (auto simp: moved_def new_events_def)
  then have "dev u = dev s" "trace u = trace s @ (es @ fs) \<and> data_in (es @ fs) = a @ c \<and> data_out (es @ fs) = b @ d"
    by simp_all
  then show ?thesis unfolding moved_def new_events_def by blast
qed

lemma moved_refl: "moved s s [] []"
  by (auto simp: moved_def new_events_def intro!: exI [of _ "[]"])

lemma moved_poll: "polled s s' \<Longrightarrow> moved s s' [] []"
  using data_polls by (fastforce simp: polled_def moved_def new_events_def)

lemma moved_emit: "moved s (emit e s) (port_in e) (port_out e)"
  by (auto simp: moved_def new_events_def intro!: exI [of _ "[e]"])

lemma polled_ram: "polled s s' \<Longrightarrow> ram s' = ram s"
  by (auto simp: polled_def intro: more_ram)

lemma ata_command_trace:
  "trace (ata_command LBA n cmd s) = trace s @
     [Out8 0x1F6 (0xE0 OR ucast (drop_bit 24 LBA AND 0xF)), Out8 0x1F2 n, Out8 0x1F3 (ucast LBA),
      Out8 0x1F4 (ucast (drop_bit 8 LBA)), Out8 0x1F5 (ucast (drop_bit 16 LBA)), Out8 0x1F7 cmd]"
  by (simp add: ata_command_def io_out8_def Let_def)

lemma ata_command_dev [simp]: "dev (ata_command LBA n cmd s) = dev s" "reads (ata_command LBA n cmd s) = reads s"
  by (simp_all add: ata_command_def io_out8_def Let_def)

lemma ata_command_moved: "moved s (ata_command LBA n cmd s) [] []"
  unfolding moved_def new_events_def ata_command_trace by simp

lemma ata_command_ram [simp]: "ram (ata_command LBA n cmd s) = ram s"
  by (simp add: ata_command_def io_out8_def Let_def)


lemma write_word_keeps [simp]: "ram (write_word bytes i s) = ram s"
  by (simp add: write_word_def io_out32_def)

definition sector_words :: "mem \<Rightarrow> u64 \<Rightarrow> u32 list" where
  "sector_words m bytes = map (\<lambda>i. ucast (load_le 4 m (bytes + 4 * of_nat i))) [0..<256]"

lemma write_words:
  "ram (fold (write_word bytes) is s) = ram s \<and>
   moved s (fold (write_word bytes) is s) [] (map (\<lambda>i. ucast (load_le 4 (mapped (ram s)) (bytes + 4 * of_nat i))) is)"
proof (induction "is" arbitrary: s)
  case Nil
  then show ?case by (simp add: moved_refl)
next
  case (Cons i "is")
  have "moved s (write_word bytes i s) [] [ucast (load_le 4 (mapped (ram s)) (bytes + 4 * of_nat i))]"
    using moved_emit [of s "Out32 0x1F0 (ucast (load_le 4 (mapped (ram s)) (bytes + 4 * of_nat i)))"]
    by (simp add: write_word_def io_out32_def)
  from moved_trans [OF this] show ?case using Cons [of "write_word bytes i s"] by auto
qed

lemma write_loop_sends:
  assumes "write_loop n bytes s = Some s'"
  shows "ram s' = ram s \<and> moved s s' [] (concat (replicate n (sector_words (mapped (ram s)) bytes)))"
  using assms
proof (induction n arbitrary: s)
  case 0
  then show ?case by (simp add: moved_refl)
next
  case (Suc n)
  then obtain t u where t: "ATA_wait_BSY s = Some t" and u: "ATA_wait_DRQ t = Some u"
    and rest: "write_loop n bytes (fold (write_word bytes) [0..<256] u) = Some s'"
    by (auto simp: bind_eq_Some_conv)
  have ram: "ram t = ram s" "ram u = ram s"
    using wait_BSY_polls [OF t] wait_DRQ_polls [OF u] polled_ram by metis+
  have "moved s u [] []"
    using moved_trans [OF moved_poll moved_poll] wait_BSY_polls [OF t] wait_DRQ_polls [OF u] by fastforce
  from moved_trans [OF this conjunct2 [OF write_words]]
  have "moved s (fold (write_word bytes) [0..<256] u) [] (sector_words (mapped (ram s)) bytes)"
    by (simp add: sector_words_def ram)
  from moved_trans [OF this] show ?case
    using Suc.IH [OF rest] write_words [of bytes "[0..<256]" u] ram by auto
qed

lemma write_sectors_send:
  assumes "write_sectors_ATA_PIO LBA n bytes s = Some s'"
  shows "ram s' = ram s \<and> moved s s' [] (concat (replicate (unat n) (sector_words (mapped (ram s)) bytes)))"
proof -
  from assms obtain t where t: "ATA_wait_BSY s = Some t"
    and loop: "write_loop (unat n) bytes (ata_command LBA n 0x30 t) = Some s'"
    by (auto simp: write_sectors_ATA_PIO_def bind_eq_Some_conv)
  have ram: "ram t = ram s" using wait_BSY_polls [OF t] polled_ram by blast
  have "moved s (ata_command LBA n 0x30 t) [] []"
    using moved_trans [OF moved_poll ata_command_moved] wait_BSY_polls [OF t] by fastforce
  from moved_trans [OF this] show ?thesis using write_loop_sends [OF loop] ram by auto
qed

definition words_bytes :: "u16 list \<Rightarrow> u8 list" where
  "words_bytes ws = concat (map (\<lambda>v. bytes_of 2 (ucast v)) ws)"

lemma words_bytes_append [simp]: "words_bytes (vs @ ws) = words_bytes vs @ words_bytes ws"
  by (simp add: words_bytes_def)

lemma length_words_bytes [simp]: "length (words_bytes ws) = 2 * length ws"
  by (induction ws) (auto simp: words_bytes_def)

text \<open>\<open>received s s' target n\<close>: the data port delivered \<open>n\<close> words, and they lie at \<open>target\<close>, in order.\<close>

definition received :: "'a ata_state_scheme \<Rightarrow> 'a ata_state_scheme \<Rightarrow> u64 \<Rightarrow> nat \<Rightarrow> bool" where
  "received s s' target n \<longleftrightarrow>
     (\<exists>ws. moved s s' ws [] \<and> length ws = n \<and> ram s' = store_bytes (ram s) target (words_bytes ws))"

lemma received_trans:
  assumes "received s t target m" "received t u (target + 2 * of_nat m) n"
  shows "received s u target (m + n)"
proof -
  from assms obtain vs ws where
    "moved s t vs []" "length vs = m" "ram t = store_bytes (ram s) target (words_bytes vs)"
    "moved t u ws []" "length ws = n" "ram u = store_bytes (ram t) (target + 2 * of_nat m) (words_bytes ws)"
    by (auto simp: received_def)
  then have "moved s u (vs @ ws) []" "length (vs @ ws) = m + n"
    "ram u = store_bytes (ram s) target (words_bytes (vs @ ws))"
    using moved_trans by (fastforce simp: store_bytes_append)+
  then show ?thesis unfolding received_def by blast
qed

lemma received_none: "moved s t [] [] \<Longrightarrow> ram t = ram s \<Longrightarrow> received s t target 0"
  unfolding received_def by (intro exI [of _ "[]"]) (simp add: words_bytes_def)

lemma read_word_receives: "received s (read_word target i s) (target + 2 * of_nat i) 1"
proof -
  let ?v = "ucast (dev s (reads s)) :: u16"
  have "trace (read_word target i s) = trace s @ [In16 0x1F0 ?v]" "dev (read_word target i s) = dev s"
    "ram (read_word target i s) = store16 (target + 2 * of_nat i) ?v (ram s)"
    by (simp_all add: read_word_def io_in16_def Let_def)
  then show ?thesis
    unfolding received_def moved_def new_events_def
    by (intro exI [of _ "[?v]"]) (simp add: store16_def words_bytes_def)
qed

lemma read_words: "received s (fold (read_word target) [0..<n] s) target n"
proof (induction n)
  case 0
  then show ?case by (simp add: received_none moved_refl)
next
  case (Suc n)
  from received_trans [OF this read_word_receives] show ?case by simp
qed

lemma read_loop_receives:
  assumes "read_loop n target s = Some s'"
  shows "received s s' target (256 * n)"
  using assms
proof (induction n arbitrary: s target)
  case 0
  then show ?case by (simp add: received_none moved_refl)
next
  case (Suc n)
  then obtain t u where t: "ATA_wait_BSY s = Some t" and u: "ATA_wait_DRQ t = Some u"
    and rest: "read_loop n (target + 512) (fold (read_word target) [0..<256] u) = Some s'"
    by (auto simp: bind_eq_Some_conv)
  have "moved s u [] []"
    using moved_trans [OF moved_poll moved_poll] wait_BSY_polls [OF t] wait_DRQ_polls [OF u] by fastforce
  moreover have "ram u = ram s"
    using wait_BSY_polls [OF t] wait_DRQ_polls [OF u] polled_ram by metis
  ultimately have "received s u target 0" by (rule received_none)
  from received_trans [OF this, of "fold (read_word target) [0..<256] u" 256]
  have "received s (fold (read_word target) [0..<256] u) target 256"
    using read_words [of u target 256] by simp
  from received_trans [OF this] show ?case using Suc.IH [OF rest] by simp
qed

lemma read_sectors_receive:
  assumes "read_sectors_ATA_PIO target LBA n s = Some s'"
  shows "received s s' (ucast target) (256 * unat n)"
proof -
  from assms obtain t where t: "ATA_wait_BSY s = Some t"
    and loop: "read_loop (unat n) (ucast target) (ata_command LBA n 0x20 t) = Some s'"
    by (auto simp: read_sectors_ATA_PIO_def bind_eq_Some_conv)
  have "moved s (ata_command LBA n 0x20 t) [] []"
    using moved_trans [OF moved_poll ata_command_moved] wait_BSY_polls [OF t] by fastforce
  then have "received s (ata_command LBA n 0x20 t) (ucast target) 0"
    using wait_BSY_polls [OF t] polled_ram by (intro received_none) auto
  from received_trans [OF this] show ?thesis using read_loop_receives [OF loop] by simp
qed

subsection \<open>A disk that keeps answering\<close>

definition responsive :: "'a machine_scheme \<Rightarrow> bool" where
  "responsive s \<longleftrightarrow> (\<forall>n. \<exists>k. n \<le> k \<and> (ucast (dev s k) :: u8) AND 0xC0 = 0x40)"

lemma responsive_waits:
  assumes "responsive s"
  shows "\<exists>t u. ATA_wait_BSY s = Some t \<and> ATA_wait_DRQ t = Some u \<and> responsive t \<and> responsive u"
proof -
  have ok: "x AND STATUS_BSY = 0 \<and> x AND STATUS_RDY \<noteq> 0" if "x AND 0xC0 = (0x40 :: u8)" for x
  proof -
    have "(x AND 0xC0) AND STATUS_BSY = 0 \<and> (x AND 0xC0) AND STATUS_RDY \<noteq> 0"
      by (simp only: that STATUS_BSY_def STATUS_RDY_def) simp
    moreover have "(0xC0 :: u8) AND STATUS_BSY = STATUS_BSY" "(0xC0 :: u8) AND STATUS_RDY = STATUS_RDY"
      by (simp_all add: STATUS_BSY_def STATUS_RDY_def)
    ultimately show ?thesis by (simp only: and.assoc simp_thms)
  qed
  have some: "\<exists>k. status r k AND 0xC0 = 0x40" if "responsive r" for r :: "'a machine_scheme"
  proof -
    from that obtain k where "reads r \<le> k" "(ucast (dev r k) :: u8) AND 0xC0 = 0x40"
      unfolding responsive_def by blast
    then have "status r (k - reads r) AND 0xC0 = 0x40" by (simp add: status_def)
    then show ?thesis by blast
  qed
  obtain t where t: "ATA_wait_BSY s = Some t"
    using some [OF assms] ok wait_BSY_returns by blast
  have rt: "responsive t" using wait_BSY_polls [OF t] assms by (simp add: polled_def responsive_def)
  obtain u where u: "ATA_wait_DRQ t = Some u"
    using some [OF rt] ok wait_DRQ_returns by blast
  have "responsive u" using wait_DRQ_polls [OF u] rt by (simp add: polled_def responsive_def)
  then show ?thesis using t u rt by blast
qed

lemma responsive_keeps:
  "responsive (ata_command LBA n cmd s) = responsive s"
  "responsive (fold (read_word target) is t) = responsive t"
  "responsive (fold (write_word bytes) is t) = responsive t"
proof -
  have "dev (fold (read_word target) is t) = dev t" "dev (fold (write_word bytes) is t) = dev t"
    by (induction "is" arbitrary: t)
      (simp_all add: read_word_def io_in16_def Let_def write_word_def io_out32_def)
  then show "responsive (ata_command LBA n cmd s) = responsive s"
    "responsive (fold (read_word target) is t) = responsive t"
    "responsive (fold (write_word bytes) is t) = responsive t"
    by (simp_all add: responsive_def)
qed

lemma loops_return:
  "responsive s \<Longrightarrow> \<exists>s'. read_loop n target s = Some s'"
  "responsive s \<Longrightarrow> \<exists>s'. write_loop n bytes s = Some s'"
proof (induction n arbitrary: s target)
  case (Suc n)
  {
    case 1
    from responsive_waits [OF 1] obtain t u where
      "ATA_wait_BSY s = Some t" "ATA_wait_DRQ t = Some u" "responsive u" by blast
    then show ?case using Suc(1) [of "fold (read_word target) [0..<256] u"] by (simp add: responsive_keeps)
  next
    case 2
    from responsive_waits [OF 2] obtain t u where
      "ATA_wait_BSY s = Some t" "ATA_wait_DRQ t = Some u" "responsive u" by blast
    then show ?case using Suc(2) [of "fold (write_word bytes) [0..<256] u"] by (simp add: responsive_keeps)
  }
qed simp_all

lemma transfers_return:
  assumes "responsive s"
  shows "\<exists>s'. read_sectors_ATA_PIO target LBA n s = Some s'"
    and "\<exists>s'. write_sectors_ATA_PIO LBA n bytes s = Some s'"
proof -
  from responsive_waits [OF assms] obtain t where t: "ATA_wait_BSY s = Some t" "responsive t" by blast
  then have "responsive (ata_command LBA n cmd t)" for cmd by (simp only: responsive_keeps)
  from loops_return [OF this] t(1) show "\<exists>s'. read_sectors_ATA_PIO target LBA n s = Some s'"
    "\<exists>s'. write_sectors_ATA_PIO LBA n bytes s = Some s'"
    by (simp_all add: read_sectors_ATA_PIO_def write_sectors_ATA_PIO_def)
qed

subsection \<open>The self test\<close>

lemma u64_block_less: "i < n \<Longrightarrow> n < 2 ^ 64 \<Longrightarrow> (of_nat i :: u64) < of_nat n"
  by (simp add: word_less_nat_alt unat_of_nat_u64)

lemma VIR2PHY_take: "VIR2PHY a = take_bit 47 a"
  unfolding VIR2PHY_def KERNEL_VIRADDR_mask by (rule bit_eqI) (auto simp: bit_simps)

lemma VIR2PHY_add:
  assumes "in_gigabyte a n" "i < n"
  shows "VIR2PHY (a + of_nat i) = VIR2PHY a + of_nat i"
proof -
  have lt: "unat (take_bit 47 a) + i < 2 ^ 47"
    using assms by (simp add: in_gigabyte_def VIR2PHY_take)
  then have "i < 2 ^ 64" "unat (take_bit 47 a) + i < 2 ^ 64" by simp_all
  then have u: "unat (take_bit 47 a + of_nat i) = unat (take_bit 47 a) + i"
    by (simp add: unat_of_nat_u64 unat_add_lem [THEN iffD1])
  have "unat (a + of_nat i) = take_bit 64 (unat a + i)"
    using \<open>i < 2 ^ 64\<close> by (simp only: unat_word_ariths unat_of_nat_u64 take_bit_eq_mod) simp
  then have "unat (take_bit 47 (a + of_nat i)) = take_bit 47 (unat a + i)"
    by (simp add: unsigned_take_bit_eq)
  also have "\<dots> = take_bit 47 (unat (take_bit 47 a) + i)"
    unfolding unsigned_take_bit_eq by (simp only: take_bit_eq_mod mod_add_left_eq)
  also have "\<dots> = unat (take_bit 47 a) + i" using lt by (rule take_bit_nat_eq_self)
  finally show ?thesis
    unfolding VIR2PHY_take by (simp only: word_unat_eq_iff u)
qed

lemma mapped_bytes:
  assumes "in_gigabyte a n"
  shows "load_bytes (mapped m) a n = load_bytes m (VIR2PHY a) n"
  by (rule load_bytes_cong) (simp add: mapped_def VIR2PHY_add [OF assms])

lemma in_gigabyte_32:
  assumes "in_gigabyte a n"
  shows "take_bit 32 a = VIR2PHY a"
proof -
  have "unat (take_bit 47 a) < 2 ^ 32"
    using assms by (simp add: in_gigabyte_def VIR2PHY_take)
  then have "take_bit 32 (unat (take_bit 47 a)) = unat (take_bit 47 a)" by (rule take_bit_nat_eq_self)
  moreover have "take_bit 32 (take_bit 47 a) = take_bit 32 a" by simp
  ultimately show ?thesis
    unfolding VIR2PHY_take by (metis unsigned_take_bit_eq word_unat_eq_iff)
qed

lemma sector_words_filled:
  assumes "i < 32" "in_gigabyte bwrite 128"
  shows "sector_words (mapped (memset (VIR2PHY bwrite) 0x12 128 m)) bwrite ! i = 0x12121212"
proof -
  let ?m = "mapped (memset (VIR2PHY bwrite) 0x12 128 m)"
  have byte: "?m (bwrite + 4 * of_nat i + of_nat j) = 0x12" if "j < 4" for j
  proof -
    have "(of_nat (4 * i + j) :: u64) < of_nat 128" using assms(1) that by (intro u64_block_less) auto
    moreover have "VIR2PHY (bwrite + of_nat (4 * i + j)) = VIR2PHY bwrite + of_nat (4 * i + j)"
      by (rule VIR2PHY_add [OF assms(2)]) (use assms(1) that in simp)
    moreover have "bwrite + 4 * of_nat i + of_nat j = bwrite + of_nat (4 * i + j)" by (simp add: algebra_simps)
    ultimately show ?thesis by (simp only: mapped_def memset_read) simp
  qed
  have "load_bytes ?m (bwrite + 4 * of_nat i) 4 = replicate 4 0x12"
    by (rule nth_equalityI) (simp_all add: load_bytes_nth byte)
  then have "load_le 4 ?m (bwrite + 4 * of_nat i) = word_of_bytes (replicate 4 0x12)"
    by (simp only: load_le_def)
  also have "ucast \<dots> = (0x12121212 :: u32)" by code_simp
  finally have "ucast (load_le 4 ?m (bwrite + 4 * of_nat i)) = (0x12121212 :: u32)" .
  then show ?thesis using assms(1) by (simp add: sector_words_def)
qed

lemma sector_words_behind:
  assumes "32 \<le> i" "i < 256" "in_gigabyte bwrite 1024"
  shows "sector_words (mapped (memset (VIR2PHY bwrite) 0x12 128 m)) bwrite ! i =
    ucast (load_le 4 m (VIR2PHY bwrite + 4 * of_nat i))"
proof -
  let ?m = "mapped (memset (VIR2PHY bwrite) 0x12 128 m)"
  have byte: "?m (bwrite + 4 * of_nat i + of_nat j) = m (VIR2PHY bwrite + 4 * of_nat i + of_nat j)" if "j < 4" for j
  proof -
    have "unat (of_nat (4 * i + j) :: u64) = 4 * i + j" using assms(2) that by (intro unat_of_nat_u64) simp
    then have "\<not> (of_nat (4 * i + j) :: u64) < 128" using assms(1) by (simp add: word_less_nat_alt del: of_nat_add)
    moreover have "VIR2PHY (bwrite + of_nat (4 * i + j)) = VIR2PHY bwrite + of_nat (4 * i + j)"
      by (rule VIR2PHY_add [OF assms(3)]) (use assms(2) that in simp)
    moreover have "a + 4 * of_nat i + of_nat j = a + of_nat (4 * i + j)" for a :: u64 by (simp add: algebra_simps)
    ultimately show ?thesis by (simp only: mapped_def memset_read) simp
  qed
  have "load_bytes ?m (bwrite + 4 * of_nat i) 4 = load_bytes m (VIR2PHY bwrite + 4 * of_nat i) 4"
    by (rule nth_equalityI) (simp_all add: load_bytes_nth byte)
  then show ?thesis using assms(2) by (simp add: sector_words_def load_le_def)
qed

lemma self_test_sector:
  assumes "in_gigabyte bwrite 1024"
  shows "sector_words (mapped (memset (VIR2PHY bwrite) 0x12 128 m)) bwrite =
    replicate 32 0x12121212 @ map (\<lambda>i. ucast (load_le 4 m (VIR2PHY bwrite + 4 * of_nat i))) [32..<256]"
proof (rule nth_equalityI)
  have small: "in_gigabyte bwrite 128" using assms by (simp add: in_gigabyte_def)
  fix i assume "i < length (sector_words (mapped (memset (VIR2PHY bwrite) 0x12 128 m)) bwrite)"
  then have i: "i < 256" by (simp add: sector_words_def)
  show "sector_words (mapped (memset (VIR2PHY bwrite) 0x12 128 m)) bwrite ! i =
      (replicate 32 0x12121212 @ map (\<lambda>i. ucast (load_le 4 m (VIR2PHY bwrite + 4 * of_nat i))) [32..<256]) ! i"
  proof (cases "i < 32")
    case True
    then show ?thesis by (simp add: nth_append sector_words_filled [OF _ small] del: upt_rec_numeral)
  next
    case False
    have "[32..<256] ! (i - 32) = i" using False i by (subst nth_upt) simp_all
    then show ?thesis using False i by (simp add: nth_append sector_words_behind [OF _ _ assms] del: upt_rec_numeral)
  qed
qed (simp add: sector_words_def del: upt_rec_numeral)

lemma show_bufs: "ram (fold (show_buf buf) is s) = ram s \<and> moved s (fold (show_buf buf) is s) [] []"
proof (induction "is" arbitrary: s)
  case Nil
  then show ?case by (simp add: moved_refl)
next
  case (Cons i "is")
  have "ram (show_buf buf i s) = ram s"
    by (simp add: show_buf_def log_err_printf_def Let_def)
  moreover have "moved s (show_buf buf i s) [] []"
    by (simp add: show_buf_def log_err_printf_def Let_def moved_def new_events_def)
  ultimately have "moved s (show_buf buf i s) [] []" "ram (show_buf buf i s) = ram s" by blast+
  from moved_trans [OF this(1)] this(2) show ?case using Cons [of "show_buf buf i s"] by auto
qed

lemma pattern_byte: "(0xABCDEF12 :: u8) = 0x12"
  by code_simp

lemma ata_init_effect:
  assumes "responsive s"
  shows "\<exists>s' ws outs. ata_init bwrite buf s = Some s' \<and> moved s s' ws outs \<and> length ws = 256 \<and>
     outs = sector_words (mapped (memset (VIR2PHY bwrite) 0x12 128 (ram s))) bwrite \<and>
     ram s' = store_bytes (memset (VIR2PHY bwrite) 0x12 128 (ram s)) (take_bit 32 buf) (words_bytes ws)"
proof -
  let ?m = "memset (VIR2PHY bwrite) 0x12 128 (ram s)" and ?s = "s\<lparr>ram := memset (VIR2PHY bwrite) 0x12 128 (ram s)\<rparr>"
  have "responsive ?s" using assms by (simp add: responsive_def)
  then obtain t where t: "write_sectors_ATA_PIO 0 1 bwrite ?s = Some t" using transfers_return by blast
  from write_sectors_send [OF t]
  have wr: "ram t = ?m" "moved ?s t [] (sector_words (mapped ?m) bwrite)" by simp_all
  have "responsive t" using wr(2) assms by (simp add: moved_def responsive_def)
  then obtain u where u: "read_sectors_ATA_PIO (ucast buf) 0 1 t = Some u" using transfers_return by blast
  from read_sectors_receive [OF u] obtain ws where
    rd: "moved t u ws []" "length ws = 256" "ram u = store_bytes ?m (ucast (ucast buf :: u32)) (words_bytes ws)"
    by (auto simp: received_def wr)
  let ?v = "log_err_printf [newline] [] (fold (show_buf buf) [0..<10] u)"
  have "ram ?v = ram u" using conjunct1 [OF show_bufs] by (simp add: log_err_printf_def del: upt_rec_numeral)
  have "moved u ?v [] []"
    using moved_trans [OF conjunct2 [OF show_bufs] moved_emit [of _ "Printk WORD_RED [newline] []"]]
    by (simp add: log_err_printf_def)
  have "moved s t [] (sector_words (mapped ?m) bwrite)"
    using wr(2) by (simp add: moved_def new_events_def)
  from moved_trans [OF moved_trans [OF this rd(1)] \<open>moved u ?v [] []\<close>]
  have "moved s ?v ws (sector_words (mapped ?m) bwrite)" by simp
  moreover have "ucast (ucast buf :: u32) = take_bit 32 buf"
    by (rule bit_word_eqI) (auto simp: bit_simps)
  moreover have "ata_init bwrite buf s = Some ?v"
    using t u by (simp add: ata_init_def pattern_byte)
  ultimately show ?thesis
    using rd \<open>ram ?v = ram u\<close> by (intro exI [of _ ?v] exI [of _ ws] exI [of _ "sector_words (mapped ?m) bwrite"]) simp
qed

subsection \<open>The command block\<close>

text \<open>The registers of the disk after a sequence of port writes, and the 28-bit address they spell.\<close>

fun latch :: "event \<Rightarrow> (u16 \<Rightarrow> u8) \<Rightarrow> u16 \<Rightarrow> u8" where
  "latch (Out8 p v) r = r(p := v)"
| "latch _ r = r"

definition disk_address :: "(u16 \<Rightarrow> u8) \<Rightarrow> u32" where
  "disk_address r = ucast (r 0x1F3) OR push_bit 8 (ucast (r 0x1F4)) OR push_bit 16 (ucast (r 0x1F5))
     OR push_bit 24 (ucast (r 0x1F6 AND 0xF))"

lemma command_address:
  fixes LBA :: u32
  shows "ucast (ucast LBA :: u8) OR push_bit 8 (ucast (ucast (drop_bit 8 LBA) :: u8))
     OR push_bit 16 (ucast (ucast (drop_bit 16 LBA) :: u8))
     OR push_bit 24 (ucast ((0xE0 OR ucast (drop_bit 24 LBA AND 0xF)) AND (0xF :: u8))) = take_bit 28 LBA"
proof -
  have nibble: "(0xE0 OR x) AND 0xF = take_bit 4 x" for x :: u8
  proof -
    have "(0xE0 OR x) AND 0xF = (0xE0 AND 0xF) OR (x AND 0xF)" by (rule bit.conj_disj_distrib2)
    also have "\<dots> = x AND 0xF" by simp
    also have "\<dots> = take_bit 4 x" by (simp add: take_bit_eq_mask mask_eq_exp_minus_1)
    finally show ?thesis .
  qed
  have "drop_bit 24 LBA AND 0xF = take_bit 4 (drop_bit 24 LBA)"
    by (simp add: take_bit_eq_mask mask_eq_exp_minus_1)
  then have "(0xE0 OR ucast (drop_bit 24 LBA AND 0xF)) AND (0xF :: u8) = ucast (take_bit 4 (drop_bit 24 LBA))"
    by (simp only: nibble) (rule bit_word_eqI, auto simp: bit_simps)
  then show ?thesis
    by (simp only:) (rule bit_word_eqI, auto simp: bit_simps)
qed

definition sample_disk :: ata_state where
  "sample_disk = \<lparr>trace = [], dev = (\<lambda>_. 0x40), reads = 0, Global_CR3 = 0, gmdsc = empty_descriptor,
     bits = (\<lambda>_. 0), pages = pages four_frames, zones = zones four_frames, IDT_Table = (\<lambda>_. (0, 0)),
     TSS64_Table = (\<lambda>_. 0), shift_l = 0, shirt_r = 0, ram = (\<lambda>a. ucast a)\<rparr>"

lemma sample_disk_responsive: "responsive sample_disk"
  by (auto simp: responsive_def sample_disk_def)

subsection \<open>The transfers\<close>

text \<open>The command block of both transfers tells a disk the sector address in LBA mode on drive 0, the
  sector count and the command: whatever its registers held, the address comes back for every number
  below 2 to the 28.\<close>

theorem command_block_roundtrip:
  "let r = fold latch (drop (length (trace s)) (trace (ata_command LBA n cmd s))) r0
   in disk_address r = take_bit 28 LBA \<and> r 0x1F6 AND 0xF0 = 0xE0 \<and> r 0x1F2 = n \<and> r 0x1F7 = cmd"
proof -
  have "(0xE0 OR ucast (drop_bit 24 LBA AND 0xF)) AND (0xF0 :: u8) = 0xE0"
  proof -
    have "drop_bit 24 LBA AND 0xF = take_bit 4 (drop_bit 24 LBA)"
      by (simp add: take_bit_eq_mask mask_eq_exp_minus_1)
    moreover have "ucast (take_bit 4 (drop_bit 24 LBA)) AND (0xF0 :: u8) = 0"
    proof -
      have "ucast (take_bit 4 (drop_bit 24 LBA)) AND NOT (mask 4 :: u8) = 0"
        by (rule bit_word_eqI) (auto simp: bit_simps)
      moreover have "(0xF0 :: u8) = NOT (mask 4)" by (simp add: mask_eq_exp_minus_1)
      ultimately show ?thesis by (simp only:)
    qed
    ultimately show ?thesis by (simp add: bit.conj_disj_distrib2)
  qed
  then show ?thesis
    using command_address [of LBA] by (simp add: ata_command_trace disk_address_def Let_def)
qed

text \<open>C20: Reading sectors from a disk that keeps becoming ready returns, with exactly the 256 words per
  sector that the data port delivered, in order and little endian, from the target address on, and
  nothing else in memory changed.\<close>

theorem sectors_arrive_in_memory:
  assumes "responsive s"
  shows "\<exists>s' ws. read_sectors_ATA_PIO target LBA n s = Some s' \<and> moved s s' ws [] \<and>
    length ws = 256 * unat n \<and> ram s' = store_bytes (ram s) (ucast target) (words_bytes ws)"
proof -
  obtain s' where s': "read_sectors_ATA_PIO target LBA n s = Some s'"
    using transfers_return [OF assms] by blast
  then show ?thesis using read_sectors_receive [OF s'] unfolding received_def by blast
qed

theorem sectors_arrive_in_memory_witness:
  "\<exists>s' ws. read_sectors_ATA_PIO 0x7000 5 2 sample_disk = Some s' \<and> length ws = 512 \<and>
    ram s' = store_bytes (ram sample_disk) 0x7000 (words_bytes ws)"
proof -
  from sectors_arrive_in_memory [OF sample_disk_responsive, of "0x7000" 5 2] obtain s' ws where
    "read_sectors_ATA_PIO 0x7000 5 2 sample_disk = Some s'" "length ws = 256 * unat (2 :: u8)"
    "ram s' = store_bytes (ram sample_disk) (ucast (0x7000 :: u32)) (words_bytes ws)" by blast
  then show ?thesis by (intro exI [of _ s'] exI [of _ ws]) simp
qed

text \<open>C36: Writing sectors to such a disk returns and sends, for each sector, the 1024 bytes at the buffer's
  address as double words: twice a sector's size, and the same bytes again for every further sector.\<close>

theorem write_repeats_1024_bytes:
  assumes "responsive s"
  shows "\<exists>s'. write_sectors_ATA_PIO LBA n bytes s = Some s' \<and> ram s' = ram s \<and>
    moved s s' [] (concat (replicate (unat n)
      (map (\<lambda>i. ucast (load_le 4 (mapped (ram s)) (bytes + 4 * of_nat i))) [0..<256])))"
proof -
  obtain s' where s': "write_sectors_ATA_PIO LBA n bytes s = Some s'"
    using transfers_return [OF assms] by blast
  then show ?thesis using write_sectors_send [OF s'] unfolding sector_words_def by blast
qed

theorem write_repeats_1024_bytes_witness:
  "\<exists>s' out. write_sectors_ATA_PIO 0 2 0x1000 sample_disk = Some s' \<and> ram s' = ram sample_disk \<and>
    moved sample_disk s' [] (concat (replicate 2 out)) \<and> length out = 256"
proof -
  from write_repeats_1024_bytes [OF sample_disk_responsive, of 0 2 "0x1000"] obtain s' where
    "write_sectors_ATA_PIO 0 2 0x1000 sample_disk = Some s'" "ram s' = ram sample_disk"
    "moved sample_disk s' [] (concat (replicate (unat (2 :: u8)) (map (\<lambda>i. ucast (load_le 4 (mapped (ram sample_disk))
      (0x1000 + 4 * of_nat i))) [0..<256])))" by blast
  then show ?thesis by (intro exI conjI) (assumption | simp del: upt_rec_numeral)+
qed

text \<open>C37: The self test, on a disk that keeps becoming ready, with its arrays and the 1024 bytes from bwrite in the
  first gigabyte, as the kernel stack is. It does not write the pattern 0xABCDEF12: the 256 double words it sends
  are 32 times 0x12121212, the 128 bytes that memset has filled, and then the memory behind them, the rest of
  the array and the 512 bytes after it. The sector it reads arrives in buf, although the address of buf is
  cut to 32 bits: the cut address is the same memory in the map at 0. Nothing else in memory changes.\<close>

theorem ata_self_test:
  assumes "responsive s" "in_gigabyte bwrite 1024" "in_gigabyte buf 512"
  shows "\<exists>s' ws. ata_init bwrite buf s = Some s' \<and>
    moved s s' ws (replicate 32 0x12121212 @
      map (\<lambda>i. ucast (load_le 4 (ram s) (VIR2PHY bwrite + 4 * of_nat i))) [32..<256]) \<and>
    length ws = 256 \<and> load_bytes (mapped (ram s')) buf 512 = words_bytes ws \<and>
    ram s' = store_bytes (memset (VIR2PHY bwrite) 0x12 128 (ram s)) (VIR2PHY buf) (words_bytes ws)"
proof -
  let ?outs = "sector_words (mapped (memset (VIR2PHY bwrite) 0x12 128 (ram s))) bwrite"
  obtain s' ws where s': "ata_init bwrite buf s = Some s'" "moved s s' ws ?outs" "length ws = 256"
    "ram s' = store_bytes (memset (VIR2PHY bwrite) 0x12 128 (ram s)) (VIR2PHY buf) (words_bytes ws)"
    using ata_init_effect [OF assms(1), of bwrite buf] in_gigabyte_32 [OF assms(3)] by auto
  have "load_bytes (mapped (ram s')) buf 512 = words_bytes ws"
    using load_store_bytes [of "words_bytes ws"] s'(3) by (simp add: mapped_bytes [OF assms(3)] s'(4))
  then show ?thesis using s'(1,3,4) s'(2) [unfolded self_test_sector [OF assms(2)]] by blast
qed

theorem ata_self_test_witness:
  "\<exists>s' ws. ata_init 0xffff800000105000 0xffff800000105200 sample_disk = Some s' \<and>
    load_bytes (mapped (ram s')) 0xffff800000105200 512 = words_bytes ws \<and>
    ram s' = store_bytes (memset 0x105000 0x12 128 (ram sample_disk)) 0x105200 (words_bytes ws)"
proof -
  have phys: "VIR2PHY 0xffff800000105000 = 0x105000" "VIR2PHY 0xffff800000105200 = 0x105200" by code_simp+
  then have "in_gigabyte 0xffff800000105000 1024" "in_gigabyte 0xffff800000105200 512"
    by (simp_all add: in_gigabyte_def)
  from ata_self_test [OF sample_disk_responsive this] show ?thesis unfolding phys by blast
qed

end
