(* ===== verification/Irq.thy ===== *)
theory Irq
  imports Ata Trap
begin

text \<open>
  \<^verbatim>\<open>init_interrupt\<close> and \<^verbatim>\<open>do_IRQ\<close> of \<^verbatim>\<open>kernel/irq/irq.c\<close>: the gates of the 24 interrupt vectors, the
  programming of the two interrupt controllers, and the dispatch to the drivers. The addresses of the
  stubs that \<^verbatim>\<open>Build_IRQ\<close> places are a parameter, a function from the vector. The lemmas give the gate
  of every vector, the order of the initialisation and an invariant of every run of interrupts.
\<close>

subsection \<open>The code\<close>

definition interrupt_table :: "(u64 \<Rightarrow> u64) \<Rightarrow> u64 list" where
  "interrupt_table stub =
     map stub [0x20, 0x21, 0x22, 0x23, 0x24, 0x25, 0x26, 0x27, 0x28, 0x29, 0x2a, 0x2b,
               0x2c, 0x2d, 0x2e, 0x2f, 0x30, 0x31, 0x32, 0x33, 0x34, 0x35, 0x36, 0x37]"

text \<open>The code of the stubs, in the order of their \<^verbatim>\<open>Build_IRQ\<close> lines; \<open>ret\<close> is the address of
  \<^verbatim>\<open>ret_from_intr\<close>.\<close>

definition irq_stubs :: "u64 \<Rightarrow> instr list list" where
  "irq_stubs ret =
     map (Build_IRQ ret)
       [0x20, 0x21, 0x22, 0x23, 0x24, 0x25, 0x26, 0x27, 0x28, 0x29, 0x2a, 0x2b,
        0x2c, 0x2d, 0x2e, 0x2f, 0x30, 0x31, 0x32, 0x33, 0x34, 0x35, 0x36, 0x37]"

definition set_irq_gates :: "(u64 \<Rightarrow> u64) \<Rightarrow> 'a gate_state_scheme \<Rightarrow> 'a gate_state_scheme" where
  "set_irq_gates stub s =
     fold (\<lambda>i. set_intr_gate (of_nat i) 0 (interrupt_table stub ! (i - 32))) [32..<56] s"

definition init_interrupt :: "(u64 \<Rightarrow> u64) \<Rightarrow> 'a gate_state_scheme \<Rightarrow> 'a gate_state_scheme" where
  "init_interrupt stub s =
     (let s = set_irq_gates stub s;
          s = io_out8 0x20 0x11 s;
          s = io_out8 0x21 0x20 s;
          s = io_out8 0x21 0x04 s;
          s = io_out8 0x21 0x01 s;
          s = io_out8 0xa0 0x11 s;
          s = io_out8 0xa1 0x28 s;
          s = io_out8 0xa1 0x02 s;
          s = io_out8 0xa1 0x01 s;
          s = io_out8 0x21 0x00 s;
          s = io_out8 0xa1 0x00 s;
          s = kinfo (''8259A init '' @ [newline]) [] s
      in sti s)"

text \<open>The case of vector 0x2e falls through to the default, which does nothing.\<close>

definition do_IRQ :: "u64 \<Rightarrow> u64 \<Rightarrow> 'a kb_state_scheme \<Rightarrow> 'a kb_state_scheme" where
  "do_IRQ regs nr s =
     (let s = (if nr = 0x21 then keyboard_handler nr regs s
               else if nr = 0x2f then ata_handler_read nr regs s
               else if nr = 0x2e then ata_handler_write nr regs s
               else s);
          s = (if nr \<noteq> 0x20 then kinfo ([newline] @ ''code: %x'' @ [newline]) [nr] s else s)
      in io_out8 0x20 0x20 s)"

subsection \<open>The gates\<close>

lemma vectors_nth:
  assumes "i < 24"
  shows "[0x20, 0x21, 0x22, 0x23, 0x24, 0x25, 0x26, 0x27, 0x28, 0x29, 0x2a, 0x2b,
      0x2c, 0x2d, 0x2e, 0x2f, 0x30, 0x31, 0x32, 0x33, 0x34, 0x35, 0x36, 0x37] ! i = (of_nat (32 + i) :: u64)"
proof -
  have "\<forall>i \<in> set [0..<24]. [0x20, 0x21, 0x22, 0x23, 0x24, 0x25, 0x26, 0x27, 0x28, 0x29, 0x2a, 0x2b,
      0x2c, 0x2d, 0x2e, 0x2f, 0x30, 0x31, 0x32, 0x33, 0x34, 0x35, 0x36, 0x37] ! i = (of_nat (32 + i) :: u64)"
    by (simp add: upt_rec)
  then show ?thesis using assms by simp
qed

lemma interrupt_table_nth: "i < 24 \<Longrightarrow> interrupt_table stub ! i = stub (of_nat (32 + i))"
  unfolding interrupt_table_def by (subst nth_map) (simp_all only: vectors_nth, simp)

lemma irq_stubs_nth: "i < 24 \<Longrightarrow> irq_stubs ret ! i = Build_IRQ ret (of_nat (32 + i))"
  unfolding irq_stubs_def by (subst nth_map) (simp_all only: vectors_nth, simp)

lemma set_gates_upto:
  assumes "n \<le> 24"
  shows "IDT_Table (fold (\<lambda>i. set_intr_gate (of_nat i) 0 (interrupt_table stub ! (i - 32))) [32..<32 + n] s) v =
    (if 32 \<le> unat v \<and> unat v < 32 + n then gate_words 0x8E 0 (stub (ucast v)) else IDT_Table s v)"
  using assms
proof (induction n)
  case (Suc n)
  have v: "v = of_nat (32 + n) \<longleftrightarrow> unat v = 32 + n"
  proof -
    have "unat (of_nat (32 + n) :: u32) = 32 + n"
      using Suc.prems by (simp only: unat_of_nat) simp
    then show ?thesis by (metis word_unat_eq_iff)
  qed
  let ?f = "\<lambda>i. set_intr_gate (of_nat i) 0 (interrupt_table stub ! (i - 32))"
  have up: "[32..<32 + Suc n] = [32..<32 + n] @ [32 + n]"
    by (simp only: add_Suc_right upt_Suc) simp
  have entry: "interrupt_table stub ! (32 + n - 32) = stub (of_nat (32 + n))"
    using Suc.prems interrupt_table_nth [of n stub] by simp
  have step: "IDT_Table (fold ?f [32..<32 + Suc n] s) =
      (IDT_Table (fold ?f [32..<32 + n] s))(of_nat (32 + n) := gate_words 0x8E 0 (stub (of_nat (32 + n))))"
    by (simp only: up fold_append comp_apply fold_simps set_intr_gate_def set_gate_simps entry)
  show ?case
  proof (cases "unat v = 32 + n")
    case True
    then have "stub (of_nat (32 + n)) = stub (ucast v)" by (simp only: of_nat_unat flip: True)
    then show ?thesis using True v by (simp only: step fun_upd_apply) simp
  next
    case False
    then show ?thesis
      using Suc v by (simp only: step fun_upd_apply) auto
  qed
qed auto

lemma irq_gates:
  "IDT_Table (set_irq_gates stub s) v =
     (if 0x20 \<le> v \<and> v \<le> 0x37 then gate_words 0x8E 0 (stub (ucast v)) else IDT_Table s v)"
  using set_gates_upto [of 24 stub s v]
  by (auto simp: set_irq_gates_def word_le_nat_alt)

lemma irq_gates_trace [simp]: "trace (set_irq_gates stub s) = trace s"
proof -
  have "trace (fold (\<lambda>i. set_intr_gate (of_nat i) 0 (a i)) is s) = trace s" for a "is"
    by (induction "is" arbitrary: s) (simp_all add: set_intr_gate_def)
  then show ?thesis unfolding set_irq_gates_def .
qed

lemma init_interrupt_gates: "IDT_Table (init_interrupt stub s) = IDT_Table (set_irq_gates stub s)"
  by (simp add: init_interrupt_def port_defs message_defs Let_def)

lemma init_interrupt_trace:
  "trace (init_interrupt stub s) = trace s @
     [Out8 0x20 0x11, Out8 0x21 0x20, Out8 0x21 0x04, Out8 0x21 0x01,
      Out8 0xa0 0x11, Out8 0xa1 0x28, Out8 0xa1 0x02, Out8 0xa1 0x01, Out8 0x21 0x00, Out8 0xa1 0x00,
      Printk WORD_WHITE ''[info] '' [], Printk WORD_WHITE (''8259A init '' @ [newline]) [], Sti]"
  by (simp add: init_interrupt_def port_defs message_defs Let_def)

subsection \<open>Runs of interrupts\<close>

text \<open>\<open>irq_run s nrs t\<close>: the interrupts \<open>nrs\<close> lead from \<open>s\<close> to \<open>t\<close>, each with some frame address.\<close>

inductive irq_run :: "'a kb_state_scheme \<Rightarrow> u64 list \<Rightarrow> 'a kb_state_scheme \<Rightarrow> bool" for s where
  idle: "irq_run s [] s"
| irq: "irq_run s nrs t \<Longrightarrow> irq_run s (nrs @ [nr]) (do_IRQ regs nr t)"

inductive_cases irq_run_snocE: "irq_run s (nrs @ [nr]) u"

definition controller_ports :: "u16 set" where
  "controller_ports = {0x20, 0x21, 0xa0, 0xa1}"

fun controller_write :: "event \<Rightarrow> bool" where
  "controller_write (Out8 p v) = (p = 0x20 \<or> p = 0x21 \<or> p = 0xa0 \<or> p = 0xa1)"
| "controller_write _ = False"

fun is_port_read :: "event \<Rightarrow> bool" where
  "is_port_read (In8 p v) = True"
| "is_port_read (In16 p v) = True"
| "is_port_read (In32 p v) = True"
| "is_port_read _ = False"

lemma parse_keycode_events:
  "\<exists>es. trace (parse_keycode x s) = trace s @ es \<and> filter controller_write es = [] \<and> filter is_port_read es = []"
proof -
  have "filter controller_write (map char_event ks) = [] \<and> filter is_port_read (map char_event ks) = []" for ks
    by (induction ks) (auto simp: char_event_def)
  then show ?thesis using parse_keycode_step(1) [of x s] by blast
qed

lemma do_IRQ_events:
  "\<exists>es. trace (do_IRQ regs nr s) = trace s @ es \<and> filter controller_write es = [Out8 0x20 0x20] \<and>
     map (\<lambda>e. case e of In8 p v \<Rightarrow> p | _ \<Rightarrow> 0) (filter is_port_read es) = (if nr = 0x21 then [0x60] else [])"
proof (cases "nr = 0x21")
  case True
  obtain es where es: "trace (keyboard_handler nr regs s) = trace s @ In8 0x60 (ucast (dev s (reads s))) # es"
    "filter controller_write es = []" "filter is_port_read es = []"
    using parse_keycode_events [of "ucast (dev s (reads s))" "snd (io_in8 0x60 s)"]
    by (auto simp: keyboard_handler_def io_in8_def Let_def PORT_KB_DATA_def)
  then show ?thesis
    using True by (simp add: do_IRQ_def io_out8_def)
next
  case False
  then show ?thesis
    by (auto simp: do_IRQ_def ata_handler_read_def ata_handler_write_def log_err_printf_def io_out8_def Let_def)
qed

lemma irq_run_events:
  assumes "irq_run s nrs t"
  shows "\<exists>es. trace t = trace s @ es \<and> filter controller_write es = replicate (length nrs) (Out8 0x20 0x20) \<and>
     length (filter is_port_read es) = length (filter (\<lambda>nr. nr = 0x21) nrs)"
  using assms
proof induction
  case idle
  then show ?case by simp
next
  case (irq nrs t nr regs)
  then obtain es where es: "trace t = trace s @ es"
    "filter controller_write es = replicate (length nrs) (Out8 0x20 0x20)"
    "length (filter is_port_read es) = length (filter (\<lambda>nr. nr = 0x21) nrs)" by blast
  obtain fs where fs: "trace (do_IRQ regs nr t) = trace t @ fs" "filter controller_write fs = [Out8 0x20 0x20]"
    "length (filter is_port_read fs) = (if nr = 0x21 then 1 else 0)"
    using do_IRQ_events [of regs nr t] by (metis length_map list.size(3) length_Cons One_nat_def)
  have "trace (do_IRQ regs nr t) = trace s @ (es @ fs)" using es(1) fs(1) by simp
  moreover have "filter controller_write (es @ fs) = replicate (length (nrs @ [nr])) (Out8 0x20 0x20)"
    using es(2) fs(2) by (simp add: replicate_append_same)
  moreover have "length (filter is_port_read (es @ fs)) = length (filter (\<lambda>nr. nr = 0x21) (nrs @ [nr]))"
    using es(3) fs(3) by simp
  ultimately show ?case by blast
qed

subsection \<open>Properties\<close>

text \<open>After init_interrupt the processor finds, in the gate of each vector from 0x20 to 0x37, the stub of
  that vector as an interrupt gate for the kernel code segment, and every other gate is as before; the
  interrupt flag is set last, when all gates are in place and both controllers are programmed.\<close>

theorem init_interrupt_routes:
  "(if 0x20 \<le> v \<and> v \<le> 0x37
    then let g = IDT_Table (init_interrupt stub s) v
         in gate_offset g = stub (ucast v) \<and> gate_selector g = 0x8 \<and> gate_ist g = 0 \<and> gate_attr g = 0x8E
    else IDT_Table (init_interrupt stub s) v = IDT_Table s v) \<and>
   (\<exists>es. trace (init_interrupt stub s) = trace s @ es @ [Sti] \<and> Sti \<notin> set es \<and>
     filter controller_write es =
       [Out8 0x20 0x11, Out8 0x21 0x20, Out8 0x21 0x04, Out8 0x21 0x01,
        Out8 0xa0 0x11, Out8 0xa1 0x28, Out8 0xa1 0x02, Out8 0xa1 0x01, Out8 0x21 0x00, Out8 0xa1 0x00])"
proof -
  have "(0x8E :: u64) < 0x100" by simp
  from gate_parts [OF this] show ?thesis
    by (simp add: init_interrupt_gates irq_gates init_interrupt_trace Let_def)
qed

text \<open>C18: In every run of interrupts the kernel ends each one with exactly one end-of-interrupt to the master
  controller and never writes to the slave, although the vectors from 0x28 on come from it; the devices
  are read once per keyboard interrupt and by no other.\<close>

theorem one_end_of_interrupt_each:
  assumes "irq_run s nrs t"
  shows "\<exists>es. trace t = trace s @ es \<and> filter controller_write es = replicate (length nrs) (Out8 0x20 0x20) \<and>
    length (filter is_port_read es) = length (filter (\<lambda>nr. nr = 0x21) nrs)"
  by (rule irq_run_events [OF assms])

theorem one_end_of_interrupt_each_witness:
  "\<exists>t es. irq_run sample_disk [0x2e, 0x21] t \<and> trace t = trace sample_disk @ es \<and>
    filter controller_write es = [Out8 0x20 0x20, Out8 0x20 0x20]"
proof -
  have "irq_run sample_disk ([] @ [0x2e]) (do_IRQ 0 0x2e sample_disk)"
    by (rule irq_run.irq [OF irq_run.idle])
  from irq_run.irq [OF this, of "0x21" 0] have
    run: "irq_run sample_disk [0x2e, 0x21] (do_IRQ 0 0x21 (do_IRQ 0 0x2e sample_disk))" by simp
  from one_end_of_interrupt_each [OF run] run show ?thesis by (auto simp: numeral_2_eq_2)
qed

text \<open>C13: An interrupt from the processor to the driver and back: the i-th stub calls do_IRQ with the address of
  the frame it has built and with its own vector 0x20 + i, and when do_IRQ has returned with the stack
  as it was, the interrupted code goes on with all its registers.\<close>

theorem interrupt_served:
  fixes c :: cpu and s :: "'a kb_state_scheme" and base ret :: u64 and i :: nat
  defines "c1 \<equiv> run (irq_stubs ret ! i) (deliver base c)"
  assumes "i < 24" "rsp c2 = rsp c1" "slots c2 (rsp c1) = ret"
    and "read_pt_regs (slots c2) (gpr c1 RDI) = read_pt_regs (slots c1) (gpr c1 RDI)"
  shows "do_IRQ (gpr c1 RDI) (gpr c1 RSI) s = do_IRQ (base - 192) (of_nat (32 + i)) s \<and>
    (let f = read_pt_regs (slots c1) (base - 192); c3 = run ret_from_intr (run [Ret] c2)
     in pt_rip f = rip c \<and> pt_rax f = gpr c RAX \<and> rip (run [Ret] c2) = ret \<and>
        gpr c3 = gpr c \<and> segs c3 = segs c \<and> rip c3 = rip c \<and> rflags c3 = rflags c \<and> rsp c3 = rsp c)"
proof -
  have c1: "c1 = run (Build_IRQ ret (of_nat (32 + i))) (deliver base c)"
    by (simp add: c1_def irq_stubs_nth assms(2))
  note entry = irq_entry_frame [of ret "of_nat (32 + i)" base c, folded c1]
  have "rsp c2 = rsp (run (Build_IRQ ret (of_nat (32 + i))) (deliver base c))" "slots c2 (base - 200) = ret"
    "read_pt_regs (slots c2) (base - 192) =
      read_pt_regs (slots (run (Build_IRQ ret (of_nat (32 + i))) (deliver base c))) (base - 192)"
    using assms(3-5) entry(1,3) by (simp_all add: c1)
  note returns = interrupt_returns [OF this]
  then show ?thesis using entry(1,2,5) by (simp add: Let_def)
qed

theorem interrupt_served_witness:
  "let c = \<lparr>gpr = (\<lambda>r. if r = RAX then 7 else 9), segs = (\<lambda>_. 0x30), rsp = 0xa00000, slots = (\<lambda>_. 0),
        rip = 0x800010, cs = 0x28, rflags = 0x202, ss = 0x30\<rparr>;
       c1 = run (irq_stubs 0x1234 ! 1) (deliver 0xffff800000007c00 c);
       c3 = run ret_from_intr (run [Ret] (c1\<lparr>gpr := (\<lambda>_. 0)\<rparr>))
   in do_IRQ (gpr c1 RDI) (gpr c1 RSI) sample_disk = do_IRQ 0xffff800000007b40 0x21 sample_disk \<and>
      gpr c3 = gpr c \<and> rip c3 = 0x800010 \<and> rsp c3 = 0xa00000"
proof -
  let ?c = "\<lparr>gpr = (\<lambda>r. if r = RAX then 7 else 9), segs = (\<lambda>_. 0x30), rsp = 0xa00000, slots = (\<lambda>_. 0),
     rip = 0x800010, cs = 0x28, rflags = 0x202, ss = 0x30\<rparr>"
  let ?c1 = "run (irq_stubs 0x1234 ! 1) (deliver 0xffff800000007c00 ?c)"
  have "?c1 = run (Build_IRQ 0x1234 (of_nat (32 + 1))) (deliver 0xffff800000007c00 ?c)"
    using irq_stubs_nth [of 1 "0x1234"] by simp
  then have "slots ?c1 (rsp ?c1) = 0x1234"
    using irq_entry_frame(3,4) [of "0x1234" "of_nat (32 + 1)" "0xffff800000007c00" ?c] by simp
  then show ?thesis
    using interrupt_served [of 1 "?c1\<lparr>gpr := (\<lambda>_. 0)\<rparr>" "0x1234" "0xffff800000007c00" ?c sample_disk]
    by (simp add: Let_def)
qed

end
