(* ===== verification/Syscall.thy ===== *)
theory Syscall
  imports Ata Trap
begin

text \<open>
  \<^verbatim>\<open>kernel/syscall/syscall.c\<close>: the table of 128 system calls and the dispatcher that the entry code of Trap
  calls with the address of the saved registers. A string argument is read from the byte memory; a
  string that never ends is \<open>None\<close>. A call number outside the table makes the C code jump through
  whatever lies behind it: the error \<open>OutsideTable\<close>.
\<close>

datatype sys_error = OutsideTable

definition MAX_SYSTEM_CALL_NR :: nat where "MAX_SYSTEM_CALL_NR = 128"

partial_function (option) user_string :: "mem \<Rightarrow> u64 \<Rightarrow> string option" where
  "user_string m a =
     (if m a = 0 then Some []
      else Option.bind (user_string m (a + 1)) (\<lambda>t. Some (byte_char (m a) # t)))"

definition no_system_call :: "pt_regs \<Rightarrow> 'a ata_state_scheme \<Rightarrow> (u64 \<times> 'a ata_state_scheme) option" where
  "no_system_call regs s =
     Some (- 1, kinfo (''no_system_call is calling, NR:%#04x'' @ [newline]) [pt_rax regs] s)"

text \<open>The user's string is the format of \<^verbatim>\<open>kprintf\<close>, with no arguments behind it.\<close>

definition sys_printf :: "pt_regs \<Rightarrow> 'a ata_state_scheme \<Rightarrow> (u64 \<times> 'a ata_state_scheme) option" where
  "sys_printf regs s =
     Option.bind (user_string (mapped (ram s)) (pt_rdi regs)) (\<lambda>fmt. Some (0, log_printf fmt [] s))"

definition system_call_table ::
    "(pt_regs \<Rightarrow> 'a ata_state_scheme \<Rightarrow> (u64 \<times> 'a ata_state_scheme) option) list" where
  "system_call_table =
     [no_system_call, sys_printf] @ replicate (MAX_SYSTEM_CALL_NR - 2) no_system_call"

definition system_call_function ::
    "pt_regs \<Rightarrow> 'a ata_state_scheme \<Rightarrow> (sys_error + u64 \<times> 'a ata_state_scheme) option" where
  "system_call_function regs s =
     (if unat (pt_rax regs) < length (system_call_table :: (pt_regs \<Rightarrow> 'a ata_state_scheme \<Rightarrow> _) list)
      then map_option Inr ((system_call_table ! unat (pt_rax regs)) regs s)
      else Some (Inl OutsideTable))"

subsection \<open>The dispatcher\<close>

lemma user_string_cstring: "cstring m a bs \<Longrightarrow> user_string m a = Some (map byte_char bs)"
proof (induction bs arbitrary: a)
  case Nil
  then show ?case by (subst user_string.simps) simp
next
  case (Cons b bs)
  then show ?case by (subst user_string.simps) simp
qed

lemma length_system_call_table [simp]: "length system_call_table = 128"
  by (simp add: system_call_table_def MAX_SYSTEM_CALL_NR_def)

lemma system_call_table_nth:
  "n < 128 \<Longrightarrow> system_call_table ! n = (if n = 1 then sys_printf else no_system_call)"
  by (auto simp: system_call_table_def MAX_SYSTEM_CALL_NR_def nth_Cons' nth_append)

text \<open>The dispatcher on every call number: 1 prints, the other numbers below 128 report the number and
  return -1, and any number from 128 on runs past the table, which no code checks.\<close>

theorem system_call_dispatch:
  "system_call_function regs s =
     (if 128 \<le> pt_rax regs then Some (Inl OutsideTable)
      else if pt_rax regs = 1 then map_option Inr (sys_printf regs s)
      else map_option Inr (no_system_call regs s))"
proof -
  have "128 \<le> pt_rax regs \<longleftrightarrow> \<not> unat (pt_rax regs) < 128" by (simp only: word_le_nat_alt) auto
  moreover have "unat (pt_rax regs) = 1 \<longleftrightarrow> pt_rax regs = 1"
    by (metis unat_1 word_unat_eq_iff)
  ultimately show ?thesis
    by (simp add: system_call_function_def system_call_table_nth)
qed

lemma user_text_plain:
  "list_all (\<lambda>b. b \<noteq> 0 \<and> b \<noteq> 0x25) bs \<Longrightarrow> plain_text (map byte_char bs)"
proof -
  assume bs: "list_all (\<lambda>b. b \<noteq> 0 \<and> b \<noteq> 0x25) bs"
  have "byte_char b \<noteq> CHR ''%'' \<and> byte_char b \<noteq> CHR 0x00" if "b \<noteq> 0" "b \<noteq> 0x25" for b
  proof -
    have "char_byte CHR ''%'' = 0x25" "char_byte CHR 0x00 = 0" by (simp_all add: char_byte_def)
    then show ?thesis using that char_byte_byte_char [of b] by metis
  qed
  then show ?thesis using bs by (auto simp: plain_text_def list_all_iff)
qed

subsection \<open>From user mode to the screen and back\<close>

lemma system_call_arguments:
  "pt_rax (read_pt_regs (slots (run system_call c)) (gpr (run system_call c) RDI)) = gpr c RAX"
  "pt_rdi (read_pt_regs (slots (run system_call c)) (gpr (run system_call c) RDI)) = gpr c RDI"
proof -
  have "frame_gpr (read_pt_regs (slots (run system_call c)) (gpr (run system_call c) RDI)) = gpr c"
    by (simp only: system_call_frame)
  from fun_cong [OF this, of RAX] fun_cong [OF this, of RDI]
  show "pt_rax (read_pt_regs (slots (run system_call c)) (gpr (run system_call c) RDI)) = gpr c RAX"
    "pt_rdi (read_pt_regs (slots (run system_call c)) (gpr (run system_call c) RDI)) = gpr c RDI"
    by (simp_all add: frame_gpr_def)
qed

lemma show_user_text:
  assumes "list_all (\<lambda>b. b \<noteq> 0 \<and> b \<noteq> 0x25) bs" "length bs < 512"
  shows "map_sum id screen_of (show_events [Printk WORD_WHITE (map byte_char bs) []] con) =
    Inr (put_string 0x07 bs (screen_of con))"
proof -
  have "map char_byte (map byte_char bs) = bs"
    by (simp add: comp_def char_byte_byte_char)
  then have "map_sum id screen_of (kprintf (map byte_char bs) [] con) = Inr (put_string 0x07 bs (screen_of con))"
    using kprintf_plain [OF user_text_plain [OF assms(1)], of con] assms(2) by simp
  then show ?thesis by (cases "kprintf (map byte_char bs) [] con") (simp_all add: kprintf_def kcolor_printf_def)
qed

text \<open>The assembly of \<^verbatim>\<open>user_level_function\<close> (\<^verbatim>\<open>task.c\<close>), with its operands: the call number in \<^verbatim>\<open>rax\<close>, the
  string in \<^verbatim>\<open>rdi\<close>, the address of the label \<^verbatim>\<open>sysexit_return_address\<close>, the stack. \<^verbatim>\<open>sysenter\<close> itself takes the
  stack and the entry point from the MSRs that task_init has written.\<close>

definition user_level_function :: "u64 \<Rightarrow> u64 \<Rightarrow> instr list" where
  "user_level_function str sysexit_return_address =
     [MovImm 1 RAX, MovImm str RDI, MovImm sysexit_return_address RDX, MovRsp RCX]"

definition sysenter :: "u64 \<Rightarrow> u64 \<Rightarrow> cpu \<Rightarrow> cpu" where
  "sysenter stack entry c = c\<lparr>rsp := stack, rip := entry, cs := 0x8, ss := 0x10\<rparr>"

lemma user_call_registers:
  fixes c0 :: cpu and str ret stack entry :: u64
  defines "c \<equiv> sysenter stack entry (run (user_level_function str ret) c0)"
  shows "gpr c RAX = 1" "gpr c RDI = str" "gpr c RDX = ret" "gpr c RCX = rsp c0" "segs c = segs c0" "rsp c = stack"
  by (simp_all add: c_def sysenter_def user_level_function_def run_simps)

text \<open>C7: The print call of the user program, all the way: its sysenter enters the kernel on whatever stack the
  processor has for it (in MSR 0x175: the kernel keeps that of the boot task there), the entry code saves its
  registers in the frame directly below that stack's top, the dispatcher finds call 1 and the string in the saved
  frame, the string (any text without a percent sign, shorter than the print buffer) appears on the
  screen, and the program goes on at its label sysexit_return_address, with its stack, its segments and
  the result 0.\<close>

theorem user_print_reaches_the_screen:
  assumes "cstring (mapped (ram s)) str bs" "list_all (\<lambda>b. b \<noteq> 0x25) bs" "length bs < 512"
  shows "let c = sysenter stack entry (run (user_level_function str ret) c0);
      c1 = run system_call c; c3 = run ret_system_call (c1\<lparr>gpr := (gpr c1)(RAX := 0)\<rparr>)
    in \<exists>s'. system_call_function (read_pt_regs (slots c1) (gpr c1 RDI)) s = Some (Inr (0, s')) \<and>
      map_sum id screen_of (show_events (drop (length (trace s)) (trace s')) con) =
        Inr (put_string 0x07 bs (screen_of con)) \<and>
      gpr c1 RDI = stack - 192 \<and> rsp c1 = stack - 192 \<and>
      gpr c3 RAX = 0 \<and> gpr c3 RBP = gpr c RBP \<and> segs c3 = segs c0 \<and> rip c3 = ret \<and> rsp c3 = rsp c0"
proof -
  let ?c = "sysenter stack entry (run (user_level_function str ret) c0)"
  let ?c1 = "run system_call ?c"
  let ?regs = "read_pt_regs (slots ?c1) (gpr ?c1 RDI)" and ?s' = "log_printf (map byte_char bs) [] s"
  have call: "system_call_function ?regs s = Some (Inr (0, ?s'))"
    using user_string_cstring [OF assms(1)]
    by (simp add: system_call_function_def system_call_arguments user_call_registers system_call_table_nth sys_printf_def)
  have "list_all (\<lambda>b. b \<noteq> 0 \<and> b \<noteq> 0x25) bs"
    using assms(1,2) by (auto simp: cstring_def list_all_iff)
  from show_user_text [OF this assms(3), of con]
  have shown: "map_sum id screen_of (show_events (drop (length (trace s)) (trace ?s')) con) =
      Inr (put_string 0x07 bs (screen_of con))"
    by (simp add: log_printf_def)
  let ?c3 = "run ret_system_call (?c1\<lparr>gpr := (gpr ?c1)(RAX := 0)\<rparr>)"
  have returned: "gpr ?c3 = (gpr ?c)(RAX := 0)" "segs ?c3 = segs c0" "rip ?c3 = ret" "rsp ?c3 = rsp c0"
    using system_call_roundtrip [of "?c1\<lparr>gpr := (gpr ?c1)(RAX := 0)\<rparr>" ?c]
    by (simp_all add: Let_def user_call_registers)
  have entered: "gpr ?c1 RDI = stack - 192" "rsp ?c1 = stack - 192"
    by (simp_all add: system_call_frame user_call_registers)
  show ?thesis
    unfolding Let_def
    by (intro exI [of _ ?s'] conjI, rule call, rule shown, rule entered(1), rule entered(2)) (simp_all only: returned, simp_all)
qed

text \<open>The text of \<^verbatim>\<open>user_level_function\<close>, at 0x9fff00.\<close>

definition hello :: "u8 list" where
  "hello = map char_byte (''Hello World! '' @ [newline])"

definition user_memory :: mem where
  "user_memory = store_bytes (\<lambda>_. 0) 0x9fff00 hello"

lemma hello_stored: "cstring user_memory 0x9fff00 hello"
proof -
  have "load_bytes user_memory 0x9fff00 (length hello) = hello"
    unfolding user_memory_def by (rule load_store_bytes) (simp add: hello_def)
  moreover have "list_all (\<lambda>b. b \<noteq> 0) hello" by (simp add: hello_def char_byte_def newline_def)
  moreover have "user_memory (0x9fff00 + of_nat (length hello)) = 0"
    by (simp add: user_memory_def store_bytes_read hello_def)
  ultimately show ?thesis by (simp add: cstring_def)
qed

theorem user_print_reaches_the_screen_witness:
  "let c0 = \<lparr>gpr = (\<lambda>_. 5), segs = (\<lambda>_. 0), rsp = 0x9ffef0, slots = (\<lambda>_. 0), rip = 0x800000, cs = 0x2b,
        rflags = 0x202, ss = 0x33\<rparr>;
       c1 = run system_call (sysenter 0xffff800000048000 0xffff800002001100
              (run (user_level_function 0x9fff00 0x800040) c0));
       s = sample_disk\<lparr>ram := user_memory\<rparr>
   in \<exists>s'. system_call_function (read_pt_regs (slots c1) (gpr c1 RDI)) s = Some (Inr (0, s')) \<and>
        map_sum id screen_of (show_events (trace s') \<lparr>cmem = (\<lambda>_. 0), cur_x = 0, cur_y = 0\<rparr>) =
          Inr (put_string 0x07 hello (screen_of \<lparr>cmem = (\<lambda>_. 0), cur_x = 0, cur_y = 0\<rparr>))"
proof -
  let ?c0 = "\<lparr>gpr = (\<lambda>_. 5), segs = (\<lambda>_. 0), rsp = 0x9ffef0, slots = (\<lambda>_. 0), rip = 0x800000, cs = 0x2b,
     rflags = 0x202, ss = 0x33\<rparr>"
  let ?s = "sample_disk\<lparr>ram := user_memory\<rparr>" and ?con = "\<lparr>cmem = (\<lambda>_. 0), cur_x = 0, cur_y = 0\<rparr>"
  have "load_bytes (mapped user_memory) 0x9fff00 14 = load_bytes user_memory 0x9fff00 14"
    using mapped_bytes [of "0x9fff00" 14 user_memory] by (simp add: in_gigabyte_def VIR2PHY_def KERNEL_VIRADDR_def)
  moreover have "mapped user_memory 0x9fff0e = user_memory 0x9fff0e"
    by (simp add: mapped_def VIR2PHY_def KERNEL_VIRADDR_def)
  moreover have "length hello = 14" by (simp add: hello_def)
  ultimately have 1: "cstring (mapped (ram ?s)) 0x9fff00 hello"
    using hello_stored by (simp add: cstring_def del: load_bytes.simps)
  have 2: "list_all (\<lambda>b. b \<noteq> 0x25) hello" by (simp add: hello_def char_byte_def newline_def)
  have 3: "length hello < 512" by (simp add: hello_def)
  have "trace ?s = []" by (simp add: sample_disk_def)
  then show ?thesis
    using user_print_reaches_the_screen [OF 1 2 3, of "0xffff800000048000" "0xffff800002001100" "0x800040" ?c0 ?con]
    by (auto simp: Let_def)
qed

end
