(* ===== verification/Task.thy ===== *)
theory Task
  imports Ata PageAlloc KList Trap
begin

text \<open>
  Tasks: the structures of \<^verbatim>\<open>include/task.h\<close> and \<^verbatim>\<open>do_fork\<close> and \<^verbatim>\<open>kernel_thread\<close> of
  \<^verbatim>\<open>kernel/sched/task.c\<close>. Every field of \<^verbatim>\<open>struct task_struct\<close>, \<^verbatim>\<open>struct thread_struct\<close> and
  \<^verbatim>\<open>struct pt_regs\<close> is eight bytes wide, so they live in the 8-byte slots of the processor's memory, the
  same slots its stack uses; a pointer to a structure is an address and a field an offset. The
  \<^verbatim>\<open>list_head\<close> at the start of a task is kept apart, in the link store of KList under the task's address.
\<close>

declare slot_arith [simp del]

subsection \<open>Structures\<close>

definition CLONE_FS :: u64 where "CLONE_FS = 1"
definition CLONE_FILES :: u64 where "CLONE_FILES = 2"
definition CLONE_SIGNAL :: u64 where "CLONE_SIGNAL = 4"

definition KERNEL_CS :: u64 where "KERNEL_CS = 0x08"
definition KERNEL_DS :: u64 where "KERNEL_DS = 0x10"

definition TASK_RUNNING :: u64 where "TASK_RUNNING = 1"
definition TASK_INTERRUPTIBLE :: u64 where "TASK_INTERRUPTIBLE = 2"
definition TASK_UNINTERRUPTIBLE :: u64 where "TASK_UNINTERRUPTIBLE = 4"
definition PF_KTHREAD :: u64 where "PF_KTHREAD = 1"

definition STACK_SIZE :: u64 where "STACK_SIZE = 32768"

lemmas task_const_defs = CLONE_FS_def CLONE_FILES_def CLONE_SIGNAL_def KERNEL_CS_def KERNEL_DS_def
  TASK_RUNNING_def TASK_INTERRUPTIBLE_def TASK_UNINTERRUPTIBLE_def PF_KTHREAD_def STACK_SIZE_def

record mm_struct =
  pgd :: u64
  start_code :: u64
  end_code :: u64
  mm_start_data :: u64
  mm_end_data :: u64
  mm_start_rodata :: u64
  mm_end_rodata :: u64
  start_brk :: u64
  end_brk :: u64
  mm_start_stack :: u64

record tss_struct =
  tss_reserved0 :: u32
  tss_rsp0 :: u64
  tss_rsp1 :: u64
  tss_rsp2 :: u64
  tss_reserved1 :: u64
  tss_ist1 :: u64
  tss_ist2 :: u64
  tss_ist3 :: u64
  tss_ist4 :: u64
  tss_ist5 :: u64
  tss_ist6 :: u64
  tss_ist7 :: u64
  tss_reserved2 :: u64
  tss_reserved3 :: u16
  iomapbaseaddr :: u16

text \<open>The fields of a task (behind its list head), of a thread and of a register frame, as addresses.\<close>

definition task_state :: "u64 \<Rightarrow> u64" where "task_state t = t + 16"
definition task_flags :: "u64 \<Rightarrow> u64" where "task_flags t = t + 24"
definition task_mm :: "u64 \<Rightarrow> u64" where "task_mm t = t + 32"
definition task_thread :: "u64 \<Rightarrow> u64" where "task_thread t = t + 40"
definition task_addr_limit :: "u64 \<Rightarrow> u64" where "task_addr_limit t = t + 48"
definition task_pid :: "u64 \<Rightarrow> u64" where "task_pid t = t + 56"
definition task_counter :: "u64 \<Rightarrow> u64" where "task_counter t = t + 64"
definition task_signal :: "u64 \<Rightarrow> u64" where "task_signal t = t + 72"
definition task_priority :: "u64 \<Rightarrow> u64" where "task_priority t = t + 80"

definition sizeof_task :: nat where "sizeof_task = 88"

definition thread_rsp0 :: "u64 \<Rightarrow> u64" where "thread_rsp0 t = t"
definition thread_rip :: "u64 \<Rightarrow> u64" where "thread_rip t = t + 8"
definition thread_rsp :: "u64 \<Rightarrow> u64" where "thread_rsp t = t + 16"
definition thread_fs :: "u64 \<Rightarrow> u64" where "thread_fs t = t + 24"
definition thread_gs :: "u64 \<Rightarrow> u64" where "thread_gs t = t + 32"

definition sizeof_thread :: nat where "sizeof_thread = 64"

definition sizeof_pt_regs :: nat where "sizeof_pt_regs = 192"

lemmas field_defs = task_state_def task_flags_def task_mm_def task_thread_def task_addr_limit_def
  task_pid_def task_counter_def task_signal_def task_priority_def thread_rsp0_def thread_rip_def
  thread_rsp_def thread_fs_def thread_gs_def sizeof_task_def sizeof_thread_def sizeof_pt_regs_def

text \<open>The addresses the linker gives to the data and the code that the functions below name.\<close>

record image =
  im_init_task :: u64
  im_init_thread :: u64
  im_init_mm :: u64
  im_ret_system_call :: u64
  im_system_call :: u64
  im_kernel_thread_func :: u64
  im_init :: u64
  im_user_level_function :: u64

record sched_state = ata_state +
  core :: cpu
  fs_reg :: u16
  gs_reg :: u16
  task_links :: links
  init_mm :: mm_struct
  init_tss :: tss_struct

definition peek :: "u64 \<Rightarrow> 'a sched_state_scheme \<Rightarrow> u64" where
  "peek a s = slots (core s) a"

definition poke :: "u64 \<Rightarrow> u64 \<Rightarrow> 'a sched_state_scheme \<Rightarrow> 'a sched_state_scheme" where
  "poke a v s = s\<lparr>core := (core s)\<lparr>slots := (slots (core s))(a := v)\<rparr>\<rparr>"

text \<open>\<^verbatim>\<open>memset\<close> to zero and \<^verbatim>\<open>memcpy\<close> on whole slots.\<close>

definition zero_slots :: "u64 \<Rightarrow> nat \<Rightarrow> 'a sched_state_scheme \<Rightarrow> 'a sched_state_scheme" where
  "zero_slots a n s = fold (\<lambda>i. poke (a + 8 * of_nat i) 0) [0..<n] s"

definition copy_slots :: "u64 \<Rightarrow> u64 \<Rightarrow> nat \<Rightarrow> 'a sched_state_scheme \<Rightarrow> 'a sched_state_scheme" where
  "copy_slots from to n s =
     fold (\<lambda>i s. poke (to + 8 * of_nat i) (peek (from + 8 * of_nat i) s) s) [0..<n] s"

definition get_current :: "'a sched_state_scheme \<Rightarrow> u64" where
  "get_current s = rsp (core s) AND NOT 32767"

text \<open>The initial contents of \<^verbatim>\<open>init_task_union\<close>, \<^verbatim>\<open>init_thread\<close> and \<^verbatim>\<open>init_tss\<close>.\<close>

definition INIT_TASK :: "image \<Rightarrow> 'a sched_state_scheme \<Rightarrow> 'a sched_state_scheme" where
  "INIT_TASK im s =
     (let t = im_init_task im;
          s = poke (task_state t) TASK_INTERRUPTIBLE s;
          s = poke (task_flags t) PF_KTHREAD s;
          s = poke (task_mm t) (im_init_mm im) s;
          s = poke (task_thread t) (im_init_thread im) s;
          s = poke (task_addr_limit t) 0xffff800000000000 s;
          s = poke (task_pid t) 0 s;
          s = poke (task_counter t) 1 s;
          s = poke (task_signal t) 0 s
      in poke (task_priority t) 0 s)"

definition init_thread :: "image \<Rightarrow> 'a sched_state_scheme \<Rightarrow> 'a sched_state_scheme" where
  "init_thread im s =
     (let t = im_init_thread im; top = im_init_task im + STACK_SIZE;
          s = zero_slots t 8 s;
          s = poke (thread_rsp0 t) top s;
          s = poke (thread_rsp t) top s;
          s = poke (thread_fs t) KERNEL_DS s
      in poke (thread_gs t) KERNEL_DS s)"

definition INIT_TSS :: "image \<Rightarrow> tss_struct" where
  "INIT_TSS im =
     (let top = im_init_task im + STACK_SIZE; ist = 0xffff800000007c00
      in \<lparr>tss_reserved0 = 0, tss_rsp0 = top, tss_rsp1 = top, tss_rsp2 = top, tss_reserved1 = 0,
          tss_ist1 = ist, tss_ist2 = ist, tss_ist3 = ist,
          tss_ist4 = ist, tss_ist5 = ist, tss_ist6 = ist, tss_ist7 = ist,
          tss_reserved2 = 0, tss_reserved3 = 0, iomapbaseaddr = 0\<rparr>)"

subsection \<open>do_fork and kernel_thread\<close>

text \<open>A null page is used as if it were one; the model stops there.\<close>

datatype fork_error = NullPage

text \<open>\<^verbatim>\<open>memset(tsk, 0, ...)\<close> and \<^verbatim>\<open>*tsk = *current\<close>, the list head with the rest.\<close>

definition clear_task :: "u64 \<Rightarrow> 'a sched_state_scheme \<Rightarrow> 'a sched_state_scheme" where
  "clear_task tsk s =
     (let s = s\<lparr>task_links := (task_links s)\<lparr>prv := (prv (task_links s))(tsk := 0),
                  nxt := (nxt (task_links s))(tsk := 0)\<rparr>\<rparr>
      in zero_slots (task_state tsk) ((sizeof_task + sizeof_thread) div 8 - 2) s)"

definition copy_task :: "u64 \<Rightarrow> u64 \<Rightarrow> 'a sched_state_scheme \<Rightarrow> 'a sched_state_scheme" where
  "copy_task from tsk s =
     (let l = task_links s;
          s = s\<lparr>task_links := l\<lparr>prv := (prv l)(tsk := prv l from), nxt := (nxt l)(tsk := nxt l from)\<rparr>\<rparr>
      in copy_slots (task_state from) (task_state tsk) (sizeof_task div 8 - 2) s)"

definition link_task :: "u64 \<Rightarrow> u64 \<Rightarrow> 'a sched_state_scheme \<Rightarrow> 'a sched_state_scheme" where
  "link_task init_task tsk s =
     s\<lparr>task_links := list_add_tail init_task tsk (list_init tsk (task_links s))\<rparr>"

definition fork_copy :: "image \<Rightarrow> u64 \<Rightarrow> 'a sched_state_scheme \<Rightarrow> 'a sched_state_scheme" where
  "fork_copy im tsk s =
     (let s = clear_task tsk s;
          s = copy_task (get_current s) tsk s;
          s = link_task (im_init_task im) tsk s;
          s = poke (task_pid tsk) (peek (task_pid tsk) s + 1) s
      in poke (task_state tsk) TASK_UNINTERRUPTIBLE s)"

text \<open>The thread structure lies behind the task, \<^verbatim>\<open>(struct thread_struct*)(tsk + 1)\<close>.\<close>

definition fork_thread :: "u64 \<Rightarrow> u64 \<Rightarrow> 'a sched_state_scheme \<Rightarrow> 'a sched_state_scheme" where
  "fork_thread regs tsk s =
     (let thd = tsk + of_nat sizeof_task;
          s = poke (task_thread tsk) thd s;
          frame = tsk + STACK_SIZE - of_nat sizeof_pt_regs;
          s = copy_slots regs frame (sizeof_pt_regs div 8) s;
          s = poke (thread_rsp0 thd) (tsk + STACK_SIZE) s;
          s = poke (thread_rip thd) (peek (regs + 152) s) s
      in poke (thread_rsp thd) frame s)"

definition fork_finish :: "image \<Rightarrow> u64 \<Rightarrow> u64 \<Rightarrow> 'a sched_state_scheme \<Rightarrow> 'a sched_state_scheme" where
  "fork_finish im regs tsk s =
     (let thd = peek (task_thread tsk) s;
          s = (if peek (task_flags tsk) s AND PF_KTHREAD = 0
               then poke (thread_rip thd) (im_ret_system_call im)
                      (poke (regs + 152) (im_ret_system_call im) s)
               else s)
      in poke (task_state tsk) TASK_RUNNING s)"

definition do_fork ::
    "image \<Rightarrow> u64 \<Rightarrow> u64 \<Rightarrow> u64 \<Rightarrow> u64 \<Rightarrow> 'a sched_state_scheme \<Rightarrow> fork_error + u64 \<times> 'a sched_state_scheme" where
  "do_fork im regs clone_flags stack_start stack_size s =
     (case alloc_pages ZONE_NORMAL 8 (PG_PTable_Maped OR PG_Active OR PG_Kernel) s of
        (None, s) \<Rightarrow> Inl NullPage
      | (Some p, s) \<Rightarrow>
          (let tsk = PHY2VIR (phy_addr (pages s p));
               s = kinfo (''struct task_struct address:%#018lx'' @ [newline]) [tsk] s
           in Inr (0, fork_finish im regs tsk (fork_thread regs tsk (fork_copy im tsk s)))))"

text \<open>\<open>regs\<close> is the address of the local frame on the caller's stack.\<close>

definition thread_frame :: "image \<Rightarrow> u64 \<Rightarrow> u64 \<Rightarrow> u64 \<Rightarrow> 'a sched_state_scheme \<Rightarrow> 'a sched_state_scheme" where
  "thread_frame im fn arg regs s =
     (let s = zero_slots regs (sizeof_pt_regs div 8) s;
          s = poke (regs + 64) fn s;
          s = poke (regs + 80) arg s;
          s = poke (regs + 112) KERNEL_DS s;
          s = poke (regs + 120) KERNEL_DS s;
          s = poke (regs + 160) KERNEL_CS s;
          s = poke (regs + 184) KERNEL_DS s;
          s = poke (regs + 168) (push_bit 9 1) s
      in poke (regs + 152) (im_kernel_thread_func im) s)"

definition kernel_thread ::
    "image \<Rightarrow> u64 \<Rightarrow> u64 \<Rightarrow> u64 \<Rightarrow> u64 \<Rightarrow> 'a sched_state_scheme \<Rightarrow> fork_error + u64 \<times> 'a sched_state_scheme" where
  "kernel_thread im fn arg flags regs s = do_fork im regs flags 0 0 (thread_frame im fn arg regs s)"

subsection \<open>Blocks of slots\<close>

definition in_block :: "u64 \<Rightarrow> nat \<Rightarrow> u64 \<Rightarrow> bool" where
  "in_block a n x \<longleftrightarrow> unat (x - a) < 8 * n \<and> unat (x - a) mod 8 = 0"

lemma in_block_0 [simp]: "\<not> in_block a 0 x"
  by (simp add: in_block_def)

lemma in_block_Suc:
  assumes "n < 2 ^ 60"
  shows "in_block a (Suc n) x \<longleftrightarrow> x = a + 8 * of_nat n \<or> in_block a n x"
proof -
  have u: "unat (8 * of_nat n :: u64) = 8 * n"
    using unat_of_nat_u64 [of "8 * n"] assms by simp
  have "x = a + 8 * of_nat n \<longleftrightarrow> unat (x - a) = 8 * n"
  proof
    assume "unat (x - a) = 8 * n"
    then have "x - a = 8 * of_nat n" using u by (simp only: word_unat_eq_iff)
    then show "x = a + 8 * of_nat n" by (simp add: algebra_simps)
  qed (simp add: u)
  moreover have "unat (x - a) < 8 * Suc n \<and> unat (x - a) mod 8 = 0 \<longleftrightarrow>
      unat (x - a) = 8 * n \<or> (unat (x - a) < 8 * n \<and> unat (x - a) mod 8 = 0)"
    by presburger
  ultimately show ?thesis by (simp only: in_block_def)
qed

lemma in_block_shift [simp]:
  "in_block (t + a) n (t + b) \<longleftrightarrow> unat (b - a) < 8 * n \<and> unat (b - a) mod 8 = 0"
  "in_block t n (t + b) \<longleftrightarrow> unat b < 8 * n \<and> unat b mod 8 = 0"
  by (simp_all add: in_block_def)

lemma zero_slots_eq:
  "n \<le> 2 ^ 60 \<Longrightarrow> zero_slots a n s =
     s\<lparr>core := (core s)\<lparr>slots := (\<lambda>x. if in_block a n x then 0 else slots (core s) x)\<rparr>\<rparr>"
proof (induction n)
  case 0
  then show ?case by (simp add: zero_slots_def)
next
  case (Suc n)
  have "zero_slots a (Suc n) s = poke (a + 8 * of_nat n) 0 (zero_slots a n s)"
    by (simp add: zero_slots_def)
  then show ?case
    using Suc by (simp add: poke_def in_block_Suc fun_eq_iff)
qed

lemma copy_slots_eq:
  assumes "n \<le> 2 ^ 60" "\<And>i. i < n \<Longrightarrow> \<not> in_block to n (from + 8 * of_nat i)"
  shows "copy_slots from to n s = s\<lparr>core := (core s)\<lparr>slots :=
     (\<lambda>x. if in_block to n x then slots (core s) (from + (x - to)) else slots (core s) x)\<rparr>\<rparr>"
  using assms
proof (induction n)
  case 0
  then show ?case by (simp add: copy_slots_def)
next
  case (Suc n)
  have "\<not> in_block to n (from + 8 * of_nat i)" if "i < Suc n" for i
    using Suc.prems(2) [OF that] Suc.prems(1) by (simp add: in_block_Suc)
  then have IH: "copy_slots from to n s = s\<lparr>core := (core s)\<lparr>slots :=
      (\<lambda>x. if in_block to n x then slots (core s) (from + (x - to)) else slots (core s) x)\<rparr>\<rparr>"
    and last: "\<not> in_block to n (from + 8 * of_nat n)"
    using Suc by auto
  have "copy_slots from to (Suc n) s =
      poke (to + 8 * of_nat n) (peek (from + 8 * of_nat n) (copy_slots from to n s)) (copy_slots from to n s)"
    by (simp add: copy_slots_def)
  then show ?case
    using IH last Suc.prems(1) by (simp add: poke_def peek_def in_block_Suc fun_eq_iff)
qed

lemma unat_plus: "unat (a :: u64) + unat b < 2 ^ 64 \<Longrightarrow> unat (a + b) = unat a + unat b"
  using unat_add_lem [of a b] by simp

text \<open>\<open>outside t a n\<close>: the \<open>n\<close> bytes at \<open>a\<close> lie outside the 32 kilobytes at \<open>t\<close>.\<close>

definition outside :: "u64 \<Rightarrow> u64 \<Rightarrow> nat \<Rightarrow> bool" where
  "outside t a n \<longleftrightarrow> 32768 \<le> unat (a - t) \<and> unat (a - t) + n \<le> 2 ^ 64"

lemma outside_far:
  assumes "outside t a n" "unat k < n"
  shows "32768 \<le> unat (a + k - t)"
proof -
  have "unat (a - t) + unat k < 2 ^ 64" using assms by (simp add: outside_def)
  then have "unat ((a - t) + k) = unat (a - t) + unat k" by (rule unat_plus)
  moreover have "a + k - t = (a - t) + k" by (simp only: diff_add_eq)
  ultimately show ?thesis using assms by (simp only: outside_def) simp
qed

lemma outside_not_in:
  assumes "32768 \<le> unat (x - t)" "unat b + 8 * n \<le> 32768"
  shows "\<not> in_block (t + b) n x"
proof
  assume "in_block (t + b) n x"
  then have less: "unat (x - (t + b)) < 8 * n" by (simp only: in_block_def)
  then have "unat (x - (t + b)) + unat b < 2 ^ 64" using assms(2) by simp
  then have "unat (x - (t + b) + b) = unat (x - (t + b)) + unat b" by (rule unat_plus)
  moreover have "x - (t + b) + b = x - t" by (simp only: diff_diff_add [symmetric] diff_add_cancel)
  ultimately show False using less assms by simp
qed

lemma outside_neq:
  assumes "32768 \<le> unat (x - t)" "unat b < 32768"
  shows "x \<noteq> t + b"
  using assms by auto

lemma poke_simps [simp]:
  "slots (core (poke a v s)) = (slots (core s))(a := v)" "peek b (poke a v s) = (if b = a then v else peek b s)"
  "rsp (core (poke a v s)) = rsp (core s)" "task_links (poke a v s) = task_links s"
  "get_current (poke a v s) = get_current s"
  by (simp_all add: poke_def peek_def get_current_def)

subsection \<open>What a fork leaves in memory\<close>

lemma clear_task_simps:
  "slots (core (clear_task tsk s)) = (\<lambda>x. if in_block (tsk + 16) 17 x then 0 else slots (core s) x)"
  "get_current (clear_task tsk s) = get_current s" "rsp (core (clear_task tsk s)) = rsp (core s)"
  by (simp_all add: clear_task_def zero_slots_eq field_defs get_current_def Let_def fun_eq_iff)

lemma no_overlap:
  assumes "outside tsk a k" "8 * n \<le> k" "unat b + 8 * n \<le> 32768" "i < n"
  shows "\<not> in_block (tsk + b) n (a + 8 * of_nat i)"
proof -
  have "8 * i < 2 ^ 64" using assms(1,2,4) by (simp add: outside_def)
  then have "unat (8 * of_nat i :: u64) = 8 * i" using unat_of_nat_u64 [of "8 * i"] by simp
  then have "32768 \<le> unat (a + 8 * of_nat i - tsk)"
    using assms(2,4) by (intro outside_far [OF assms(1)]) simp
  then show ?thesis by (rule outside_not_in [OF _ assms(3)])
qed

lemma copy_task_simps:
  assumes "outside tsk from 88"
  shows "slots (core (copy_task from tsk s)) =
      (\<lambda>x. if in_block (tsk + 16) 9 x then slots (core s) (from + (x - tsk)) else slots (core s) x)"
    and "get_current (copy_task from tsk s) = get_current s"
    and "rsp (core (copy_task from tsk s)) = rsp (core s)"
proof -
  have "unat (from - tsk + 16) = unat (from - tsk) + 16"
    using assms unat_plus [of "from - tsk" 16] by (simp add: outside_def)
  moreover have "from + 16 - tsk = from - tsk + 16" by (simp only: diff_add_eq)
  ultimately have "unat (from + 16 - tsk) = unat (from - tsk) + 16" by (simp only:)
  then have "outside tsk (from + 16) 72" using assms by (simp add: outside_def)
  from no_overlap [OF this, of 9 16]
  have "\<not> in_block (tsk + 16) 9 (from + 16 + 8 * of_nat i)" if "i < 9" for i
    using that by simp
  note eq = copy_slots_eq [OF _ this, simplified]
  have shift: "from + 16 + (x - (tsk + 16)) = from + (x - tsk)" for x by (simp add: algebra_simps)
  show "slots (core (copy_task from tsk s)) =
      (\<lambda>x. if in_block (tsk + 16) 9 x then slots (core s) (from + (x - tsk)) else slots (core s) x)"
    "get_current (copy_task from tsk s) = get_current s"
    "rsp (core (copy_task from tsk s)) = rsp (core s)"
    by (simp_all add: copy_task_def eq field_defs get_current_def Let_def shift fun_eq_iff)
qed

lemma fork_copy_slots:
  assumes "outside tsk (get_current s) 88"
  shows "slots (core (fork_copy im tsk s)) =
    (\<lambda>x. if in_block (tsk + 16) 9 x then slots (core s) (get_current s + (x - tsk))
         else if in_block (tsk + 16) 17 x then 0 else slots (core s) x)
      (tsk + 56 := slots (core s) (get_current s + 56) + 1, tsk + 16 := TASK_UNINTERRUPTIBLE)"
proof -
  have far: "\<not> in_block (tsk + 16) 17 (get_current s + k)" if "unat k < 88" for k
    using outside_far [OF assms that] by (rule outside_not_in) simp
  have k: "unat (x - tsk) < 88" if "in_block (tsk + 16) 9 x" for x
  proof -
    have "unat (x - (tsk + 16)) < 72" using that by (simp only: in_block_def) simp
    then have "unat (x - (tsk + 16) + 16) = unat (x - (tsk + 16)) + 16"
      using unat_plus [of "x - (tsk + 16)" 16] by simp
    moreover have "x - (tsk + 16) + 16 = x - tsk" by (simp add: algebra_simps)
    ultimately show ?thesis using \<open>unat (x - (tsk + 16)) < 72\<close> by simp
  qed
  show ?thesis
    by (rule ext) (simp add: fork_copy_def Let_def copy_task_simps [OF assms] clear_task_simps link_task_def
        field_defs peek_def far k)
qed

lemma block_offset:
  assumes "in_block (t + b) n x"
  shows "unat (x - (t + b)) < 8 * n"
  using assms by (simp only: in_block_def)

lemma block_neq:
  assumes "in_block (t + c) n x" "unat b < unat c" "unat c + 8 * n < 2 ^ 64"
  shows "x \<noteq> t + b"
proof
  assume x: "x = t + b"
  have "unat (x - (t + c) + c) = unat (x - (t + c)) + unat c"
    using block_offset [OF assms(1)] assms(3) by (intro unat_plus) simp
  moreover have "x - (t + c) + c = b" by (simp add: x)
  ultimately show False using assms(2) by simp
qed

lemma read_pt_regs_cong:
  assumes "\<And>x. in_block p 24 x \<Longrightarrow> m x = m' (q + (x - p))"
  shows "read_pt_regs m p = read_pt_regs m' q"
proof -
  have slot: "m (p + k) = m' (q + k)" if "unat k < 192" "unat k mod 8 = 0" for k
    using assms [of "p + k"] that by (simp add: in_block_def)
  moreover have "m p = m' q" using slot [of 0] by simp
  ultimately show ?thesis by (simp add: read_pt_regs_def)
qed

lemma fork_thread_slots:
  assumes "outside tsk regs 192"
  shows "slots (core (fork_thread regs tsk s)) =
    (\<lambda>x. if in_block (tsk + 32576) 24 x then slots (core s) (regs + (x - (tsk + 32576)))
         else if x = tsk + 40 then tsk + 88 else slots (core s) x)
      (tsk + 88 := tsk + 32768, tsk + 96 := slots (core s) (regs + 152), tsk + 104 := tsk + 32576)"
proof -
  have far: "32768 \<le> unat (regs + k - tsk)" if "unat k < 192" for k
    by (rule outside_far [OF assms that])
  have neq: "regs + k \<noteq> tsk + b" if "unat k < 192" "unat b < 32768" for k b
    by (rule outside_neq [OF far [OF that(1)] that(2)])
  have "\<not> in_block (tsk + 32576) 24 (regs + 8 * of_nat i)" if "i < 24" for i
    by (rule no_overlap [OF assms _ _ that]) simp_all
  note eq = copy_slots_eq [OF _ this, simplified]
  have r: "\<not> in_block (tsk + 32576) 24 (regs + 152)"
    by (rule outside_not_in [OF far]) simp_all
  have k: "unat (x - (tsk + 32576)) < 192" if "in_block (tsk + 32576) 24 x" for x
    using block_offset [OF that] by simp
  have frame: "tsk + 32768 - 192 = tsk + 32576" by simp
  show ?thesis
    by (rule ext) (simp add: fork_thread_def Let_def field_defs STACK_SIZE_def frame eq peek_def r k neq)
qed

lemma fork_finish_slots:
  assumes "slots (core s) (tsk + 40) = tsk + 88"
  shows "slots (core (fork_finish im regs tsk s)) =
    (if slots (core s) (tsk + 24) AND PF_KTHREAD = 0
     then (slots (core s))(regs + 152 := im_ret_system_call im, tsk + 96 := im_ret_system_call im)
     else slots (core s))(tsk + 16 := TASK_RUNNING)"
  using assms by (simp add: fork_finish_def Let_def field_defs peek_def add.commute [of 96 tsk])

text \<open>The memory after the three parts of a fork.\<close>

definition forked :: "image \<Rightarrow> u64 \<Rightarrow> u64 \<Rightarrow> 'a sched_state_scheme \<Rightarrow> 'a sched_state_scheme" where
  "forked im regs tsk s = fork_finish im regs tsk (fork_thread regs tsk (fork_copy im tsk s))"

lemma forked_memory:
  fixes s :: "'a sched_state_scheme"
  defines "m \<equiv> slots (core s)" and "c \<equiv> get_current s"
    and "kthread \<equiv> slots (core s) (get_current s + 24) AND PF_KTHREAD \<noteq> 0"
  assumes cur: "outside tsk (get_current s) 88" and regs: "outside tsk regs 192"
  shows "read_pt_regs (slots (core (forked im regs tsk s))) (tsk + 32576) = read_pt_regs m regs"
    and "peek (task_state tsk) (forked im regs tsk s) = TASK_RUNNING"
    and "peek (task_flags tsk) (forked im regs tsk s) = m (task_flags c)"
    and "peek (task_mm tsk) (forked im regs tsk s) = m (task_mm c)"
    and "peek (task_thread tsk) (forked im regs tsk s) = tsk + 88"
    and "peek (task_pid tsk) (forked im regs tsk s) = m (task_pid c) + 1"
    and "peek (thread_rsp0 (tsk + 88)) (forked im regs tsk s) = tsk + 32768"
    and "peek (thread_rip (tsk + 88)) (forked im regs tsk s) = (if kthread then m (regs + 152) else im_ret_system_call im)"
    and "peek (thread_rsp (tsk + 88)) (forked im regs tsk s) = tsk + 32576"
    and "32768 \<le> unat (x - tsk) \<Longrightarrow> kthread \<or> x \<noteq> regs + 152 \<Longrightarrow> peek x (forked im regs tsk s) = m x"
proof -
  let ?s = "fork_thread regs tsk (fork_copy im tsk s)"
  note slots = fork_thread_slots [OF regs] fork_copy_slots [OF cur]
  have far: "32768 \<le> unat (regs + k - tsk)" if "unat k < 192" for k
    by (rule outside_far [OF regs that])
  have r: "regs + k \<noteq> tsk + b" if "unat k < 192" "unat b < 32768" for k b
    by (rule outside_neq [OF far [OF that(1)] that(2)])
  have r9: "\<not> in_block (tsk + 16) 9 (regs + k)" if "unat k < 192" for k
    by (rule outside_not_in [OF far [OF that]]) simp
  have r17: "\<not> in_block (tsk + 16) 17 (regs + k)" if "unat k < 192" for k
    by (rule outside_not_in [OF far [OF that]]) simp
  have rr: "\<not> in_block (tsk + 16) 9 regs" "\<not> in_block (tsk + 16) 17 regs" "regs \<noteq> tsk + b"
    if "unat b < 32768" for b
    using r9 [of 0] r17 [of 0] r [OF _ that, of 0] by simp_all
  have "slots (core ?s) (tsk + 40) = tsk + 88" by (simp add: slots)
  moreover have flags: "slots (core ?s) (tsk + 24) = slots (core s) (get_current s + 24)"
    by (simp add: slots)
  ultimately have fin: "slots (core (forked im regs tsk s)) = (if kthread then slots (core ?s)
      else (slots (core ?s))(regs + 152 := im_ret_system_call im, tsk + 96 := im_ret_system_call im))(tsk + 16 := TASK_RUNNING)"
    by (simp add: forked_def fork_finish_slots kthread_def)
  note mem = peek_def fin slots field_defs m_def c_def
  have "slots (core (forked im regs tsk s)) x = m (regs + (x - (tsk + 32576)))"
    if b: "in_block (tsk + 32576) 24 x" for x
  proof -
    have k: "unat (x - (tsk + 32576)) < 192" using block_offset [OF b] by simp
    have "x \<noteq> tsk + b" if "unat b < 32576" for b
      by (rule block_neq [OF b]) (use that in simp_all)
    moreover have "x \<noteq> regs + 152" using b no_overlap [OF regs, of 24 "32576" 19] by auto
    ultimately show ?thesis using b k by (simp add: mem r r9 r17)
  qed
  then show "read_pt_regs (slots (core (forked im regs tsk s))) (tsk + 32576) = read_pt_regs m regs"
    by (intro read_pt_regs_cong) simp
  show "peek (task_state tsk) (forked im regs tsk s) = TASK_RUNNING" by (simp add: mem)
  show "peek (task_flags tsk) (forked im regs tsk s) = m (task_flags c)"
    using r [of 152 24] by (auto simp: mem)
  show "peek (task_mm tsk) (forked im regs tsk s) = m (task_mm c)"
    using r [of 152 32] by (auto simp: mem)
  show "peek (task_thread tsk) (forked im regs tsk s) = tsk + 88"
    using r [of 152 40] by (auto simp: mem)
  show "peek (task_pid tsk) (forked im regs tsk s) = m (task_pid c) + 1"
    using r [of 152 56] by (auto simp: mem)
  show "peek (thread_rsp0 (tsk + 88)) (forked im regs tsk s) = tsk + 32768"
    using r [of 152 88] by (auto simp: mem)
  show "peek (thread_rip (tsk + 88)) (forked im regs tsk s) = (if kthread then m (regs + 152) else im_ret_system_call im)"
    by (simp add: mem r r9 r17 add.commute [of 96 tsk])
  show "peek (thread_rsp (tsk + 88)) (forked im regs tsk s) = tsk + 32576"
    using r [of 152 104] by (auto simp: mem add.commute [of 104 tsk])
  show "peek x (forked im regs tsk s) = m x" if "32768 \<le> unat (x - tsk)" "kthread \<or> x \<noteq> regs + 152"
  proof -
    have "x \<noteq> tsk + b" if "unat b < 32768" for b
      by (rule outside_neq [OF \<open>32768 \<le> unat (x - tsk)\<close> that])
    moreover have "\<not> in_block (tsk + b) n x" if "unat b + 8 * n \<le> 32768" for b n
      by (rule outside_not_in [OF \<open>32768 \<le> unat (x - tsk)\<close> that])
    ultimately show ?thesis using that(2) by (auto simp: mem)
  qed
qed

subsection \<open>A new kernel thread\<close>

text \<open>The code a kernel thread starts with, up to the call of its function; \<open>ret\<close> is the address behind the
  call.\<close>

definition kernel_thread_func :: "u64 \<Rightarrow> instr list" where
  "kernel_thread_func ret = RESTORE_REGS @ [AddRsp 0x38, MovReg RDX RDI, CallReg ret RBX]"

lemma page_init_core [simp]: "core (page_init f flags s) = core s" "task_links (page_init f flags s) = task_links s"
  by (simp_all add: page_init_def Let_def)

lemma fold_page_init_phy [simp]: "phy_addr (pages (fold (\<lambda>f. page_init f flags) fs s) g) = phy_addr (pages s g)"
  by (induction fs arbitrary: s) simp_all

lemma fold_page_init_core [simp]:
  "core (fold (\<lambda>f. page_init f flags) fs s) = core s"
  "task_links (fold (\<lambda>f. page_init f flags) fs s) = task_links s"
  by (induction fs arbitrary: s) simp_all

lemma alloc_keeps [simp]:
  "core (snd (alloc_pages z n flags s)) = core s" "task_links (snd (alloc_pages z n flags s)) = task_links s"
  by (simp_all add: alloc_pages_def take_pages_def kerror_def log_err_printf_def emit_def split: option.split)

lemma kinfo_keeps [simp]:
  "core (kinfo fmt args s) = core s" "task_links (kinfo fmt args s) = task_links s"
  by (simp_all add: kinfo_def log_printf_def emit_def)

lemma get_current_core: "core s = core t \<Longrightarrow> get_current s = get_current t"
  by (simp add: get_current_def)

lemma thread_frame_simps [simp]:
  "read_pt_regs (slots (core (thread_frame im fn arg regs s))) regs =
     \<lparr>pt_r15 = 0, pt_r14 = 0, pt_r13 = 0, pt_r12 = 0, pt_r11 = 0, pt_r10 = 0, pt_r9 = 0, pt_r8 = 0,
      pt_rbx = fn, pt_rcx = 0, pt_rdx = arg, pt_rsi = 0, pt_rdi = 0, pt_rbp = 0, pt_ds = KERNEL_DS,
      pt_es = KERNEL_DS, pt_rax = 0, pt_func = 0, pt_errcode = 0, pt_rip = im_kernel_thread_func im,
      pt_cs = KERNEL_CS, pt_rflags = 512, pt_rsp = 0, pt_ss = KERNEL_DS\<rparr>"
  "get_current (thread_frame im fn arg regs s) = get_current s"
  "task_links (thread_frame im fn arg regs s) = task_links s"
proof -
  have base: "in_block regs 24 regs" by (simp add: in_block_def)
  show "read_pt_regs (slots (core (thread_frame im fn arg regs s))) regs =
     \<lparr>pt_r15 = 0, pt_r14 = 0, pt_r13 = 0, pt_r12 = 0, pt_r11 = 0, pt_r10 = 0, pt_r9 = 0, pt_r8 = 0,
      pt_rbx = fn, pt_rcx = 0, pt_rdx = arg, pt_rsi = 0, pt_rdi = 0, pt_rbp = 0, pt_ds = KERNEL_DS,
      pt_es = KERNEL_DS, pt_rax = 0, pt_func = 0, pt_errcode = 0, pt_rip = im_kernel_thread_func im,
      pt_cs = KERNEL_CS, pt_rflags = 512, pt_rsp = 0, pt_ss = KERNEL_DS\<rparr>"
    by (simp add: thread_frame_def Let_def zero_slots_eq sizeof_pt_regs_def read_pt_regs_def base push_bit_eq_mult)
  show "get_current (thread_frame im fn arg regs s) = get_current s"
    "task_links (thread_frame im fn arg regs s) = task_links s"
    by (simp_all add: thread_frame_def Let_def zero_slots_eq sizeof_pt_regs_def get_current_def)
qed

lemma thread_frame_outside:
  "\<not> in_block regs 24 x \<Longrightarrow> slots (core (thread_frame im fn arg regs s)) x = slots (core s) x"
  by (auto simp: thread_frame_def Let_def zero_slots_eq sizeof_pt_regs_def)

text \<open>A call of do_fork that finds pages is a fork on the task those pages hold.\<close>

lemma do_fork_forked:
  assumes "alloc_pages ZONE_NORMAL 8 (PG_PTable_Maped OR PG_Active OR PG_Kernel) s = (Some p, s1)"
  defines "tsk \<equiv> PHY2VIR (phy_addr (pages s1 p))"
  obtains s2 where "core s2 = core s" "task_links s2 = task_links s"
    "do_fork im regs f a b s = Inr (0, forked im regs tsk s2)"
proof
  show "core (kinfo (''struct task_struct address:%#018lx'' @ [newline]) [tsk] s1) = core s"
    "task_links (kinfo (''struct task_struct address:%#018lx'' @ [newline]) [tsk] s1) = task_links s"
    using assms(1) alloc_keeps [of ZONE_NORMAL 8 "PG_PTable_Maped OR PG_Active OR PG_Kernel" s] by simp_all
  show "do_fork im regs f a b s =
      Inr (0, forked im regs tsk (kinfo (''struct task_struct address:%#018lx'' @ [newline]) [tsk] s1))"
    using assms by (simp add: do_fork_def forked_def Let_def)
qed

lemma slots_links [simp]:
  "task_links (zero_slots a n s) = task_links s" "task_links (copy_slots from to n s) = task_links s"
  "rsp (core (zero_slots a n s)) = rsp (core s)" "rsp (core (copy_slots from to n s)) = rsp (core s)"
proof -
  have z: "task_links (fold (\<lambda>i. poke (a + 8 * of_nat i) 0) is s) = task_links s \<and>
      rsp (core (fold (\<lambda>i. poke (a + 8 * of_nat i) 0) is s)) = rsp (core s)" for "is"
    by (induction "is" arbitrary: s) simp_all
  have c: "task_links (fold (\<lambda>i s. poke (to + 8 * of_nat i) (peek (from + 8 * of_nat i) s) s) is s) = task_links s \<and>
      rsp (core (fold (\<lambda>i s. poke (to + 8 * of_nat i) (peek (from + 8 * of_nat i) s) s) is s)) = rsp (core s)" for "is"
    by (induction "is" arbitrary: s) simp_all
  show "task_links (zero_slots a n s) = task_links s" "task_links (copy_slots from to n s) = task_links s"
    "rsp (core (zero_slots a n s)) = rsp (core s)" "rsp (core (copy_slots from to n s)) = rsp (core s)"
    using z c by (simp_all add: zero_slots_def copy_slots_def)
qed

lemma forked_links:
  "task_links (forked im regs tsk s) = list_add_tail (im_init_task im) tsk (list_init tsk (task_links s))"
proof -
  have "task_links (fork_copy im tsk s) = list_add_tail (im_init_task im) tsk (list_init tsk (task_links s))"
    by (simp add: fork_copy_def Let_def copy_task_def clear_task_def link_task_def list_init_def)
  then show ?thesis by (simp add: forked_def fork_finish_def fork_thread_def Let_def)
qed

lemma forked_rsp [simp]: "rsp (core (forked im regs tsk s)) = rsp (core s)"
  by (simp add: forked_def fork_finish_def fork_thread_def fork_copy_def copy_task_def clear_task_def
      link_task_def Let_def)

lemma run_thread_start:
  fixes c :: cpu and ret :: u64
  defines "f \<equiv> read_pt_regs (slots c) (rsp c)" and "c' \<equiv> run (kernel_thread_func ret) c"
  shows "rip c' = pt_rbx f" "gpr c' RDI = pt_rdx f" "rsp c' = rsp c + 184" "slots c' = (slots c)(rsp c + 184 := ret)"
    "segs c' = frame_segs f"
  unfolding f_def c'_def kernel_thread_func_def run_append run_restore
  by (simp_all add: run_simps frame_gpr_def add.commute [of 184])

lemma run_leaves_kernel:
  fixes c :: cpu
  defines "f \<equiv> read_pt_regs (slots c) (rsp c)" and "c' \<equiv> run ret_system_call c"
  shows "rip c' = pt_rdx f" "rsp c' = pt_rcx f" "cs c' = 0x2b"
  unfolding f_def c'_def ret_system_call_def run_append run_Cons run_restore exec.simps
  by (simp_all add: run_simps frame_gpr_def store_rax_frame)

lemma kernel_thread_forks:
  assumes alloc: "alloc_pages ZONE_NORMAL 8 (PG_PTable_Maped OR PG_Active OR PG_Kernel)
      (thread_frame im fn arg regs s) = (Some p, s1)"
    and tsk: "tsk = PHY2VIR (phy_addr (pages s1 p))"
    and apart: "outside tsk (get_current s) 88" "outside tsk regs 192"
    and flags: "\<not> in_block regs 24 (task_flags (get_current s))"
  defines "kthread \<equiv> peek (task_flags (get_current s)) s AND PF_KTHREAD \<noteq> 0"
  shows "\<exists>s'. kernel_thread im fn arg fl regs s = Inr (0, s') \<and>
    read_pt_regs (slots (core s')) (tsk + 32576) = read_pt_regs (slots (core (thread_frame im fn arg regs s))) regs \<and>
    peek (task_thread tsk) s' = tsk + 88 \<and> peek (task_state tsk) s' = TASK_RUNNING \<and>
    peek (thread_rsp0 (tsk + 88)) s' = tsk + 32768 \<and>
    peek (thread_rip (tsk + 88)) s' = (if kthread then im_kernel_thread_func im else im_ret_system_call im) \<and>
    peek (thread_rsp (tsk + 88)) s' = tsk + 32576 \<and>
    task_links s' = list_add_tail (im_init_task im) tsk (list_init tsk (task_links s)) \<and>
    (\<forall>x. 32768 \<le> unat (x - tsk) \<longrightarrow> kthread \<or> x \<noteq> regs + 152 \<longrightarrow>
       peek x s' = slots (core (thread_frame im fn arg regs s)) x) \<and>
    rsp (core s') = rsp (core s)"
proof -
  let ?f = "thread_frame im fn arg regs s"
  obtain s2 where s2: "core s2 = core ?f" "task_links s2 = task_links ?f"
    "do_fork im regs fl 0 0 ?f = Inr (0, forked im regs tsk s2)"
    using do_fork_forked [OF alloc, of im regs fl 0 0] tsk by metis
  have cur: "get_current s2 = get_current s" using get_current_core [OF s2(1)] by simp
  have kt: "slots (core s2) (get_current s2 + 24) AND PF_KTHREAD \<noteq> 0 \<longleftrightarrow> kthread"
    using thread_frame_outside [OF flags, of im fn arg s] by (simp add: s2(1) cur peek_def task_flags_def kthread_def)
  have out: "outside tsk (get_current s2) 88" using apart by (simp add: cur)
  note mem = forked_memory [OF out apart(2), where im = im, unfolded kt]
  have rip: "slots (core ?f) (regs + 152) = im_kernel_thread_func im"
    using thread_frame_simps(1) [of im fn arg regs s] by (simp add: read_pt_regs_def)
  have rsp: "rsp (core (forked im regs tsk s2)) = rsp (core s)"
    using s2(1) by (simp add: thread_frame_def Let_def)
  show ?thesis
    using s2 mem rip rsp by (intro exI [of _ "forked im regs tsk s2"]) (simp add: kernel_thread_def forked_links)
qed

lemma kernel_thread_forked:
  assumes alloc: "alloc_pages ZONE_NORMAL 8 (PG_PTable_Maped OR PG_Active OR PG_Kernel)
      (thread_frame im fn arg regs s) = (Some p, s1)"
    and tsk: "tsk = PHY2VIR (phy_addr (pages s1 p))"
    and apart: "outside tsk (get_current s) 88" "outside tsk regs 192"
    and flags: "peek (task_flags (get_current s)) s AND PF_KTHREAD \<noteq> 0"
      "\<not> in_block regs 24 (task_flags (get_current s))"
  shows "\<exists>s'. kernel_thread im fn arg fl regs s = Inr (0, s') \<and>
    read_pt_regs (slots (core s')) (tsk + 32576) = read_pt_regs (slots (core (thread_frame im fn arg regs s))) regs \<and>
    peek (task_thread tsk) s' = tsk + 88 \<and> peek (task_state tsk) s' = TASK_RUNNING \<and>
    peek (thread_rsp0 (tsk + 88)) s' = tsk + 32768 \<and>
    peek (thread_rip (tsk + 88)) s' = im_kernel_thread_func im \<and> peek (thread_rsp (tsk + 88)) s' = tsk + 32576 \<and>
    task_links s' = list_add_tail (im_init_task im) tsk (list_init tsk (task_links s)) \<and>
    (\<forall>x. 32768 \<le> unat (x - tsk) \<longrightarrow> peek x s' = slots (core (thread_frame im fn arg regs s)) x) \<and>
    rsp (core s') = rsp (core s)"
  using kernel_thread_forks [OF alloc tsk apart flags(2), of fl] flags(1) by simp

subsection \<open>The current task\<close>

lemma aligned_block:
  fixes t k :: u64
  assumes "t AND 32767 = 0" "unat k < 32768"
  shows "(t + k) AND NOT 32767 = t"
proof -
  have m: "(32767 :: u64) = mask 15" by (simp add: mask_eq_exp_minus_1)
  have k: "take_bit 15 k = k"
    using assms(2) by (simp add: word_unat_eq_iff unsigned_take_bit_eq take_bit_nat_eq_self)
  have bits: "\<not> bit t n" if "n < 15" for n
  proof -
    have "bit (t AND mask 15) n = bit t n" using that by (simp add: bit_simps)
    then show ?thesis using assms(1) by (simp only: m) simp
  qed
  have "\<not> bit k n" if "15 \<le> n" for n
    using arg_cong [OF k, of "\<lambda>w. bit w n"] that by (simp add: bit_take_bit_iff)
  then have disj: "\<not> bit t n \<or> \<not> bit k n" for n
    using bits by (cases "n < 15") auto
  then have "t + k = t OR k" by (intro disjunctive_add) blast
  moreover have "(t OR k) AND NOT (mask 15) = t"
    using bits \<open>\<And>n. 15 \<le> n \<Longrightarrow> \<not> bit k n\<close>
    by (intro bit_word_eqI) (auto simp: bit_simps)
  ultimately show ?thesis by (simp only: m)
qed

lemma current_aligned: "get_current s AND 32767 = 0"
  by (simp add: get_current_def and.assoc)

subsection \<open>A sample machine\<close>

text \<open>The first task at 32 kilobytes alignment, the processor on its stack; one zone with the frames 65 to 79
  free.\<close>

definition sample_image :: image where
  "sample_image = \<lparr>im_init_task = 0xffff800002110000, im_init_thread = 0xffff800002100000,
     im_init_mm = 0xffff800002100100, im_ret_system_call = 0xffff800002001000,
     im_system_call = 0xffff800002001100, im_kernel_thread_func = 0xffff800002001200,
     im_init = 0xffff800002001300, im_user_level_function = 0xffff800002001400\<rparr>"

definition blank_tasks :: sched_state where
  "blank_tasks = \<lparr>trace = [], dev = (\<lambda>_. 0x40), reads = 0, Global_CR3 = 0xffff800002004000,
     gmdsc = empty_descriptor,
     bits = (\<lambda>w. if w = 1 then 1 else 0xffffffffffffffff),
     pages = (\<lambda>f. \<lparr>phy_addr = push_bit 12 f, attribute = 0, ref_count = 0, age = 0,
                      zone = (if 64 \<le> f \<and> f < 80 then Some 0 else None)\<rparr>),
     zones = (\<lambda>_. \<lparr>pages_group = 64, zone_pages_length = 16, zone_start_addr = 0x40000,
        zone_end_addr = 0x50000, zone_length = 0x10000, zone_attribute = 0, page_using_count = 1,
        page_free_count = 15, total_pages_link = 1\<rparr>),
     IDT_Table = (\<lambda>_. (0, 0)), TSS64_Table = (\<lambda>_. 0), shift_l = 0, shirt_r = 0, ram = (\<lambda>a. ucast a),
     core = \<lparr>gpr = (\<lambda>_. 0), segs = (\<lambda>_. 0x10), rsp = 0xffff800002117d00, slots = (\<lambda>_. 0),
       rip = 0xffff800002001500, cs = 0x8, rflags = 2, ss = 0x10\<rparr>,
     fs_reg = 0, gs_reg = 0,
     task_links = list_init 0xffff800002110000 \<lparr>nxt = (\<lambda>_. 0), prv = (\<lambda>_. 0)\<rparr>,
     init_mm = \<lparr>pgd = 0, start_code = 0, end_code = 0, mm_start_data = 0, mm_end_data = 0,
       mm_start_rodata = 0, mm_end_rodata = 0, start_brk = 0, end_brk = 0, mm_start_stack = 0\<rparr>,
     init_tss = INIT_TSS sample_image\<rparr>"

definition sample_tasks :: sched_state where
  "sample_tasks = INIT_TASK sample_image (init_thread sample_image blank_tasks)"

lemma poke_keeps [simp]:
  "bits (poke a v s) = bits s" "pages (poke a v s) = pages s" "zones (poke a v s) = zones s"
  "gmdsc (poke a v s) = gmdsc s" "bits (zero_slots a n s) = bits s" "pages (zero_slots a n s) = pages s"
  "zones (zero_slots a n s) = zones s"
proof -
  show p: "bits (poke a v s) = bits s" "pages (poke a v s) = pages s" "zones (poke a v s) = zones s"
    "gmdsc (poke a v s) = gmdsc s" for a v and s :: "'b sched_state_scheme"
    by (simp_all add: poke_def)
  have "bits (fold (\<lambda>i. poke (a + 8 * of_nat i) 0) is s) = bits s \<and>
      pages (fold (\<lambda>i. poke (a + 8 * of_nat i) 0) is s) = pages s \<and>
      zones (fold (\<lambda>i. poke (a + 8 * of_nat i) 0) is s) = zones s" for "is"
    by (induction "is" arbitrary: s) (simp_all add: p)
  then show "bits (zero_slots a n s) = bits s" "pages (zero_slots a n s) = pages s" "zones (zero_slots a n s) = zones s"
    by (simp_all add: zero_slots_def)
qed

lemma thread_frame_mm:
  "bits (thread_frame im fn arg regs s) = bits s" "pages (thread_frame im fn arg regs s) = pages s"
  "zones (thread_frame im fn arg regs s) = zones s"
  by (simp_all add: thread_frame_def Let_def)

lemma sample_alloc:
  assumes "bits s = bits blank_tasks" "pages s = pages blank_tasks" "zones s = zones blank_tasks"
  shows "\<exists>s1. alloc_pages ZONE_NORMAL 8 flags s = (Some 64, s1) \<and> phy_addr (pages s1 64) = 0x40000"
proof -
  have zone: "zone_start_addr (zones s (Some 0)) = 0x40000" "zone_end_addr (zones s (Some 0)) = 0x50000"
    "page_free_count (zones s (Some 0)) = 15"
    by (simp_all add: assms blank_tasks_def)
  have "bits s = (\<lambda>w. if w = 1 then 1 else 0xffffffffffffffff)" by (simp add: assms blank_tasks_def)
  moreover have "scan_word (\<lambda>w. if w = 1 then 1 else 0xffffffffffffffff) 8 64 = Some 1" by code_simp
  ultimately have "scan_frames (bits s) 8 64 80 64 = Some (64, 1)"
    using scan_frames_step(2) [of 64 80] by simp
  from search_one_zone [OF this] have
    "alloc_pages ZONE_NORMAL 8 flags s = (Some 64, take_pages 64 8 flags s)"
    by (simp add: alloc_normal zone del: search_zones.simps)
  moreover have "phy_addr (pages (take_pages 64 8 flags s) 64) = 0x40000"
    by (simp add: take_pages_def assms) (simp add: blank_tasks_def push_bit_eq_mult)
  ultimately show ?thesis by blast
qed

lemma sample_mm:
  "bits sample_tasks = bits blank_tasks" "pages sample_tasks = pages blank_tasks" "zones sample_tasks = zones blank_tasks"
  by (simp_all add: sample_tasks_def INIT_TASK_def init_thread_def Let_def)

lemma sample_current: "get_current sample_tasks = 0xffff800002110000" "get_current blank_tasks = 0xffff800002110000"
  by (simp_all add: sample_tasks_def INIT_TASK_def init_thread_def Let_def zero_slots_eq)
    (simp_all add: get_current_def blank_tasks_def)

lemma sample_flags: "peek (task_flags 0xffff800002110000) sample_tasks = PF_KTHREAD"
  by (simp add: sample_tasks_def INIT_TASK_def Let_def field_defs sample_image_def)

lemma sample_tsk: "PHY2VIR 0x40000 = 0xffff800000040000"
  by (simp add: PHY2VIR_def KERNEL_VIRADDR_def)

lemma sample_apart:
  "outside 0xffff800000040000 0xffff800002110000 88" "outside 0xffff800000040000 0xffff800002117e00 192"
  "\<not> in_block 0xffff800002117e00 24 (task_flags 0xffff800002110000)"
  by (simp_all add: outside_def in_block_def field_defs)

subsection \<open>Properties\<close>

text \<open>The macro current finds the task whose 32-kilobyte stack the processor is on exactly when that task
  is 32-kilobyte aligned; do_fork takes any eight pages, which need not be.\<close>

theorem current_needs_alignment:
  assumes "rsp (core s) = tsk + k" "unat k < 32768"
  shows "get_current s = tsk \<longleftrightarrow> tsk AND 32767 = 0"
proof
  assume "get_current s = tsk"
  then show "tsk AND 32767 = 0" using current_aligned [of s] by simp
next
  assume "tsk AND 32767 = 0"
  then show "get_current s = tsk" using aligned_block [OF _ assms(2)] assms(1) by (simp add: get_current_def)
qed

text \<open>C35: The ring of tasks forgets: do_fork inserts the first task into the new task's own ring, so after two
  forks the ring holds the first and the newest task only, and no walk from the first task ever meets
  the one in between.\<close>

theorem fork_forgets_earlier_tasks:
  assumes "distinct [first, t1, t2]"
  shows "let l = task_links (link_task first t2 (link_task first t1 s))
    in ring l [t2, first] \<and> (\<forall>n. ((\<lambda>e. list_next e l) ^^ n) first \<noteq> t1)"
proof -
  let ?l = "task_links (link_task first t2 (link_task first t1 s))"
  have "distinct [t2, first]" using assms by auto
  from rings.build_ring [OF this] have ring: "ring ?l [t2, first]"
    by (simp add: link_task_def del: ring.simps)
  have reach: "((\<lambda>e. list_next e ?l) ^^ n) first \<in> {first, t2}" for n
  proof (induction n)
    case (Suc n)
    then show ?case using ring by (auto simp: list_next_def)
  qed simp
  have "((\<lambda>e. list_next e ?l) ^^ n) first \<noteq> t1" for n
    using reach [of n] assms by auto
  then show ?thesis using ring by (simp only: Let_def) blast
qed

theorem fork_forgets_earlier_tasks_witness:
  "ring (task_links (link_task 1 3 (link_task 1 2 sample_tasks))) [3, 1]"
proof -
  have "distinct [1 :: u64, 2, 3]" by simp
  from fork_forgets_earlier_tasks [OF this, of sample_tasks] show ?thesis
    by (simp only: Let_def)
qed

theorem current_needs_alignment_witness:
  "get_current (sample_tasks\<lparr>core := (core sample_tasks)\<lparr>rsp := 0x47ff8\<rparr>\<rparr>) = 0x40000 \<and>
   get_current (sample_tasks\<lparr>core := (core sample_tasks)\<lparr>rsp := 0x48ff8\<rparr>\<rparr>) \<noteq> 0x41000"
proof -
  let ?a = "sample_tasks\<lparr>core := (core sample_tasks)\<lparr>rsp := 0x47ff8\<rparr>\<rparr>"
  let ?b = "sample_tasks\<lparr>core := (core sample_tasks)\<lparr>rsp := 0x48ff8\<rparr>\<rparr>"
  have "get_current ?a = 0x40000 \<longleftrightarrow> (0x40000 :: u64) AND 32767 = 0"
    by (rule current_needs_alignment [of _ _ "0x7ff8"]) simp_all
  moreover have "get_current ?b = 0x41000 \<longleftrightarrow> (0x41000 :: u64) AND 32767 = 0"
    by (rule current_needs_alignment [of _ _ "0x7ff8"]) simp_all
  ultimately show ?thesis by simp
qed

text \<open>C10: When do_fork finds pages, apart from the current task and from the caller's frame, kernel_thread
  returns 0 and leaves a thread to be switched to. If the current task has the flag PF_KTHREAD, as the boot
  task does, the thread is a kernel thread: the processor that takes the saved stack pointer and runs
  kernel_thread_func is in fn with the argument in rdi, on an empty stack of 32 kilobytes but for the
  return address, and with the kernel's data segments. If not, do_fork makes it leave through ret_system_call:
  it then runs at level 3 with the argument, not fn, as its address and with a null stack pointer.\<close>

theorem kernel_thread_starts:
  assumes "alloc_pages ZONE_NORMAL 8 (PG_PTable_Maped OR PG_Active OR PG_Kernel)
      (thread_frame im fn arg regs s) = (Some p, s1)"
    and "tsk = PHY2VIR (phy_addr (pages s1 p))"
    and "outside tsk (get_current s) 88" "outside tsk regs 192"
    and "\<not> in_block regs 24 (task_flags (get_current s))"
  shows "\<exists>s'. kernel_thread im fn arg fl regs s = Inr (0, s') \<and>
    (let thd = peek (task_thread tsk) s'; c0 = (core s')\<lparr>rsp := peek (thread_rsp thd) s'\<rparr>;
         c = run (kernel_thread_func ret) c0; u = run ret_system_call c0
     in if peek (task_flags (get_current s)) s AND PF_KTHREAD \<noteq> 0
        then peek (thread_rip thd) s' = im_kernel_thread_func im \<and> rip c = fn \<and> gpr c RDI = arg \<and>
          rsp c = tsk + STACK_SIZE - 8 \<and> slots c (rsp c) = ret \<and> segs c = (\<lambda>_. 0x10)
        else peek (thread_rip thd) s' = im_ret_system_call im \<and> rip u = arg \<and> rsp u = 0 \<and> cs u AND 3 = 3)"
proof -
  let ?kt = "peek (task_flags (get_current s)) s AND PF_KTHREAD \<noteq> 0"
  obtain s' where s': "kernel_thread im fn arg fl regs s = Inr (0, s')"
    "read_pt_regs (slots (core s')) (tsk + 32576) = read_pt_regs (slots (core (thread_frame im fn arg regs s))) regs"
    "peek (task_thread tsk) s' = tsk + 88"
    "peek (thread_rip (tsk + 88)) s' = (if ?kt then im_kernel_thread_func im else im_ret_system_call im)"
    "peek (thread_rsp (tsk + 88)) s' = tsk + 32576"
    using kernel_thread_forks [OF assms, of fl] by blast
  let ?c = "(core s')\<lparr>rsp := tsk + 32576\<rparr>"
  have f: "read_pt_regs (slots ?c) (rsp ?c) = read_pt_regs (slots (core (thread_frame im fn arg regs s))) regs"
    using s'(2) by simp
  have "frame_segs (read_pt_regs (slots ?c) (rsp ?c)) = (\<lambda>_. 0x10)"
    unfolding f by (auto simp: frame_segs_def KERNEL_DS_def split: seg.split)
  then have kernel: "let c = run (kernel_thread_func ret) ?c in rip c = fn \<and> gpr c RDI = arg \<and>
      rsp c = tsk + STACK_SIZE - 8 \<and> slots c (tsk + STACK_SIZE - 8) = ret \<and> segs c = (\<lambda>_. 0x10)"
    using run_thread_start [of ret ?c] f by (simp add: Let_def STACK_SIZE_def add.commute [of 32760 tsk] add.assoc)
  have user: "let u = run ret_system_call ?c in rip u = arg \<and> rsp u = 0 \<and> cs u AND 3 = 3"
    using run_leaves_kernel [of ?c] f by (simp add: Let_def)
  show ?thesis
    using s' kernel user by (intro exI [of _ s']) (simp add: Let_def)
qed

theorem kernel_thread_starts_witness:
  "\<exists>s'. kernel_thread sample_image 0xffff800002001300 10 7 0xffff800002117e00 sample_tasks = Inr (0, s') \<and>
    (let c = run (kernel_thread_func 0x1234)
       ((core s')\<lparr>rsp := peek (thread_rsp (peek (task_thread 0xffff800000040000) s')) s'\<rparr>)
     in rip c = 0xffff800002001300 \<and> gpr c RDI = 10 \<and> rsp c = 0xffff800000047ff8)"
proof -
  let ?flags = "PG_PTable_Maped OR PG_Active OR PG_Kernel"
  obtain s1 where s1: "alloc_pages ZONE_NORMAL 8 ?flags
      (thread_frame sample_image 0xffff800002001300 10 0xffff800002117e00 sample_tasks) = (Some 64, s1)"
    "phy_addr (pages s1 64) = 0x40000"
    using sample_alloc [of "thread_frame sample_image 0xffff800002001300 10 0xffff800002117e00 sample_tasks" ?flags]
    by (auto simp: thread_frame_mm sample_mm)
  have "0xffff800000040000 = PHY2VIR (phy_addr (pages s1 64))" by (simp only: s1(2) sample_tsk)
  from kernel_thread_starts [OF s1(1) this, of 7 "0x1234"] sample_apart sample_flags
  show ?thesis by (auto simp: sample_current PF_KTHREAD_def STACK_SIZE_def Let_def)
qed

end
