(* ===== verification/Sched.thy ===== *)
theory Sched
  imports Task
begin

text \<open>
  The rest of \<^verbatim>\<open>kernel/sched/task.c\<close>: the task switch (\<^verbatim>\<open>switch_to\<close> of \<^verbatim>\<open>include/task.h\<close> and
  \<^verbatim>\<open>__switch_to\<close>), the first user program (\<^verbatim>\<open>init\<close> and \<^verbatim>\<open>do_execve\<close>), and \<^verbatim>\<open>task_init\<close>. The assembly
  moves the stack pointer and jumps; the model does the same to the processor of the state.
\<close>

subsection \<open>The code\<close>

definition on_core :: "(cpu \<Rightarrow> cpu) \<Rightarrow> 'a sched_state_scheme \<Rightarrow> 'a sched_state_scheme" where
  "on_core f s = s\<lparr>core := f (core s)\<rparr>"

definition put_tss :: "tss_struct \<Rightarrow> 'a gate_state_scheme \<Rightarrow> 'a gate_state_scheme" where
  "put_tss t s = set_tss64 (tss_rsp0 t) (tss_rsp1 t) (tss_rsp2 t) (tss_ist1 t) (tss_ist2 t) (tss_ist3 t)
     (tss_ist4 t) (tss_ist5 t) (tss_ist6 t) (tss_ist7 t) s"

definition switch_context :: "u64 \<Rightarrow> u64 \<Rightarrow> 'a sched_state_scheme \<Rightarrow> 'a sched_state_scheme" where
  "switch_context prev next s =
     (let s = s\<lparr>init_tss := (init_tss s)\<lparr>tss_rsp0 := peek (thread_rsp0 (peek (task_thread next) s)) s\<rparr>\<rparr>;
          s = put_tss (init_tss s) s;
          s = poke (thread_fs (peek (task_thread prev) s)) (ucast (fs_reg s)) s;
          s = poke (thread_gs (peek (task_thread prev) s)) (ucast (gs_reg s)) s;
          s = kinfo (''next:%lx'' @ [newline]) [next] s;
          s = s\<lparr>fs_reg := ucast (peek (thread_fs (peek (task_thread next) s)) s)\<rparr>;
          s = s\<lparr>gs_reg := ucast (peek (thread_gs (peek (task_thread next) s)) s)\<rparr>;
          s = kinfo (''prev->thread->rsp0:%#018lx'' @ [newline])
                [peek (thread_rsp0 (peek (task_thread prev) s)) s] s
      in kinfo (''next->thread->rsp0:%#018lx'' @ [newline])
           [peek (thread_rsp0 (peek (task_thread next) s)) s] s)"

text \<open>\<open>back\<close> is the address of the label 1 behind the jump. The pushed \<^verbatim>\<open>rip\<close> of the next thread is where
  \<^verbatim>\<open>__switch_to\<close> returns to.\<close>

definition switch_to :: "u64 \<Rightarrow> u64 \<Rightarrow> u64 \<Rightarrow> 'a sched_state_scheme \<Rightarrow> 'a sched_state_scheme" where
  "switch_to back prev next s =
     (let s = on_core (run [Pushq RBP, Pushq RAX]) s;
          s = poke (thread_rsp (peek (task_thread prev) s)) (rsp (core s)) s;
          s = on_core (\<lambda>c. c\<lparr>rsp := peek (thread_rsp (peek (task_thread next) s)) s\<rparr>) s;
          s = on_core (run [MovImm back RAX]) s;
          s = poke (thread_rip (peek (task_thread prev) s)) (gpr (core s) RAX) s;
          s = on_core (push (peek (thread_rip (peek (task_thread next) s)) s)) s;
          s = switch_context prev next s
      in on_core (run [Ret]) s)"

text \<open>The code at label 1, where a task that had switched away goes on.\<close>

definition switch_back :: "instr list" where
  "switch_back = [Popq RAX, Popq RBP]"

definition do_execve :: "image \<Rightarrow> u64 \<Rightarrow> 'a sched_state_scheme \<Rightarrow> u64 \<times> 'a sched_state_scheme" where
  "do_execve im regs s =
     (let s = poke (regs + 80) 0x800000 s;
          s = poke (regs + 72) 0xa00000 s;
          s = poke (regs + 128) 1 s;
          s = poke (regs + 112) 0 s;
          s = poke (regs + 120) 0 s;
          s = kinfo (''do_execve task is running'' @ [newline]) [] s
      in (0, s\<lparr>ram := memcpy (VIR2PHY (im_user_level_function im)) 0x800000 1024 (ram s)\<rparr>))"

text \<open>\<^verbatim>\<open>init\<close> leaves through the jump to \<^verbatim>\<open>do_execve\<close>, which returns to the address pushed before it, with
  its result in \<^verbatim>\<open>rax\<close>.\<close>

definition init :: "image \<Rightarrow> u64 \<Rightarrow> 'a sched_state_scheme \<Rightarrow> 'a sched_state_scheme" where
  "init im arg s =
     (let s = kinfo (''init task is running,arg:%#018lx'' @ [newline]) [arg] s;
          cur = get_current s;
          s = poke (thread_rip (peek (task_thread cur) s)) (im_ret_system_call im) s;
          s = poke (thread_rsp (peek (task_thread cur) s)) (cur + STACK_SIZE - of_nat sizeof_pt_regs) s;
          regs = peek (thread_rsp (peek (task_thread cur) s)) s;
          s = on_core (\<lambda>c. c\<lparr>rsp := peek (thread_rsp (peek (task_thread cur) s)) s\<rparr>) s;
          s = on_core (push (peek (thread_rip (peek (task_thread cur) s)) s)) s;
          (rax, s) = do_execve im regs s
      in on_core (run [MovImm rax RAX, Ret]) s)"

text \<open>What \<^verbatim>\<open>do_exit\<close> does before its endless loop.\<close>

definition do_exit :: "u64 \<Rightarrow> 'a sched_state_scheme \<Rightarrow> 'a sched_state_scheme" where
  "do_exit code s = kinfo (''exit task is running,arg:%#018lx'' @ [newline]) [code] s"

text \<open>The end of \<^verbatim>\<open>kernel_thread_func\<close>, where the thread's function returns to: its result goes to do_exit.\<close>

definition thread_exit :: "'a sched_state_scheme \<Rightarrow> 'a sched_state_scheme" where
  "thread_exit s = (let s = on_core (run [MovReg RAX RDI]) s in do_exit (gpr (core s) RDI) s)"

lemma thread_exit_reports:
  "trace (thread_exit s) = trace s @ [Printk WORD_WHITE ''[info] '' [],
     Printk WORD_WHITE (''exit task is running,arg:%#018lx'' @ [newline]) [gpr (core s) RAX]]"
  by (simp add: thread_exit_def do_exit_def Let_def on_core_def run_simps)

definition fill_init_mm :: "'a sched_state_scheme \<Rightarrow> 'a sched_state_scheme" where
  "fill_init_mm s =
     s\<lparr>init_mm := \<lparr>pgd = Global_CR3 s,
        start_code = start_text (gmdsc s), end_code = end_text (gmdsc s),
        mm_start_data = start_data (gmdsc s), mm_end_data = end_data (gmdsc s),
        mm_start_rodata = start_rodata (gmdsc s), mm_end_rodata = end_rodata (gmdsc s),
        start_brk = 0, end_brk = PHY2VIR (kernel_end_phyaddr (gmdsc s)),
        mm_start_stack = start_stack (gmdsc s)\<rparr>\<rparr>"

text \<open>\<open>regs\<close> is the address of the frame that kernel_thread builds on the current stack. The list head is the
  first field of a task, so \<^verbatim>\<open>container_of\<close> does not move the pointer.\<close>

definition task_setup :: "image \<Rightarrow> 'a sched_state_scheme \<Rightarrow> 'a sched_state_scheme" where
  "task_setup im s =
     (let s = fill_init_mm s;
          s = wrmsr 0x174 KERNEL_CS s;
          s = wrmsr 0x175 (peek (thread_rsp0 (peek (task_thread (get_current s)) s)) s) s;
          s = wrmsr 0x176 (im_system_call im) s;
          s = put_tss (init_tss s) s;
          s = s\<lparr>init_tss := (init_tss s)\<lparr>tss_rsp0 := peek (thread_rsp0 (im_init_thread im)) s\<rparr>\<rparr>
      in s\<lparr>task_links := list_init (im_init_task im) (task_links s)\<rparr>)"

definition task_init :: "image \<Rightarrow> u64 \<Rightarrow> u64 \<Rightarrow> 'a sched_state_scheme \<Rightarrow> fork_error + 'a sched_state_scheme" where
  "task_init im back regs s =
     (case kernel_thread im (im_init im) 10 (CLONE_FS OR CLONE_FILES OR CLONE_SIGNAL) regs (task_setup im s) of
        Inl e \<Rightarrow> Inl e
      | Inr (_, s) \<Rightarrow>
          let s = poke (task_state (im_init_task im)) TASK_RUNNING s;
              p = list_next (get_current s) (task_links s)
          in Inr (switch_to back (get_current s) p s))"

subsection \<open>The switch\<close>

lemma on_core_simps [simp]:
  "core (on_core f s) = f (core s)" "peek a (on_core f s) = slots (f (core s)) a"
  "fs_reg (on_core f s) = fs_reg s" "gs_reg (on_core f s) = gs_reg s"
  by (simp_all add: on_core_def peek_def)

lemma put_tss_core [simp]: "core (put_tss t s) = core s" "peek a (put_tss t s) = peek a s"
  "fs_reg (put_tss t s) = fs_reg s" "gs_reg (put_tss t s) = gs_reg s" "task_links (put_tss t s) = task_links s"
  by (simp_all add: put_tss_def set_tss64_def Let_def peek_def)

lemma kinfo_sched [simp]: "peek a (kinfo fmt args s) = peek a s"
  "fs_reg (kinfo fmt args s) = fs_reg s" "gs_reg (kinfo fmt args s) = gs_reg s"
  by (simp_all add: peek_def) (simp_all add: kinfo_def log_printf_def emit_def)

lemma poke_regs [simp]: "fs_reg (poke a v s) = fs_reg s" "gs_reg (poke a v s) = gs_reg s"
  "gpr (core (poke a v s)) = gpr (core s)" "rip (core (poke a v s)) = rip (core s)"
  "segs (core (poke a v s)) = segs (core s)"
  by (simp_all add: poke_def)

lemma peek_update [simp]:
  "peek a (s\<lparr>init_tss := t\<rparr>) = peek a s" "peek a (s\<lparr>fs_reg := x\<rparr>) = peek a s" "peek a (s\<lparr>gs_reg := y\<rparr>) = peek a s"
  by (simp_all add: peek_def)

lemma core_poke: "core (poke a v s) = (core s)\<lparr>slots := (slots (core s))(a := v)\<rparr>"
  by (simp add: poke_def)

lemma switch_context_core:
  assumes "task_thread prev \<noteq> thread_fs (peek (task_thread prev) s)"
  shows "core (switch_context prev next s) = (core s)\<lparr>slots := (slots (core s))
    (thread_fs (peek (task_thread prev) s) := ucast (fs_reg s), thread_gs (peek (task_thread prev) s) := ucast (gs_reg s))\<rparr>"
  using assms by (simp add: switch_context_def Let_def core_poke)

text \<open>The task state segment gets the kernel stack of the next task.\<close>

lemma tss_kept [simp]: "TSS64_Table (poke a v s) = TSS64_Table s"
  "TSS64_Table (kinfo fmt args (s :: 'a sched_state_scheme)) = TSS64_Table s"
  by (simp_all add: poke_def kinfo_def log_printf_def emit_def)

lemma switch_context_tss:
  "load_tss (TSS64_Table (switch_context prev next s)) 1 = peek (thread_rsp0 (peek (task_thread next) s)) s"
proof -
  have "load_tss (TSS64_Table (put_tss t u)) 1 = tss_rsp0 t" for t and u :: "'a sched_state_scheme"
    by (simp add: put_tss_def set_tss64_def Let_def load_store_tss)
  then show ?thesis by (simp add: switch_context_def Let_def)
qed

lemma switch_steps:
  fixes s :: "'a sched_state_scheme" and prev "next" :: u64
  defines "r \<equiv> rsp (core s)" and "tp \<equiv> peek (task_thread prev) s" and "nt \<equiv> peek (task_thread next) s"
  defines "nsp \<equiv> peek (thread_rsp nt) s"
  assumes own: "task_thread prev \<notin> {r - 8, r - 16, thread_rip tp, thread_rsp tp, thread_fs tp, nsp - 8}"
    and other: "task_thread next \<notin> {r - 8, r - 16, thread_rip tp, thread_rsp tp}"
      "thread_rsp nt \<notin> {r - 8, r - 16, thread_rsp tp}" "thread_rip nt \<notin> {r - 8, r - 16, thread_rip tp, thread_rsp tp}"
      "nsp - 8 \<notin> {thread_fs tp, thread_gs tp}" "task_thread next \<noteq> nsp - 8"
  shows "core (switch_to back prev next s) = (core s)\<lparr>gpr := (gpr (core s))(RAX := back),
      rsp := nsp, rip := peek (thread_rip nt) s,
      slots := (slots (core s))(r - 8 := gpr (core s) RBP, r - 16 := gpr (core s) RAX, thread_rsp tp := r - 16,
        thread_rip tp := back, nsp - 8 := peek (thread_rip nt) s,
        thread_fs tp := ucast (fs_reg s), thread_gs tp := ucast (gs_reg s))\<rparr>"
    and "load_tss (TSS64_Table (switch_to back prev next s)) 1 =
      ((slots (core s))(r - 8 := gpr (core s) RBP, r - 16 := gpr (core s) RAX, thread_rsp tp := r - 16,
        thread_rip tp := back, nsp - 8 := peek (thread_rip nt) s)) (thread_rsp0 nt)"
proof -
  define m where "m = slots (core s)"
  let ?m1 = "m(r - 8 := gpr (core s) RBP, r - 16 := gpr (core s) RAX)"
  let ?m2 = "?m1(thread_rsp tp := r - 16)"
  let ?m3 = "?m2(thread_rip tp := back)"
  let ?m4 = "?m3(nsp - 8 := m (thread_rip nt))"
  have tp: "m (task_thread prev) = tp" and nt: "m (task_thread next) = nt" and nsp: "m (thread_rsp nt) = nsp"
    by (simp_all add: tp_def nt_def nsp_def m_def peek_def)
  define s1 where "s1 = on_core (run [Pushq RBP, Pushq RAX]) s"
  have c1: "core s1 = (core s)\<lparr>rsp := r - 16, slots := ?m1\<rparr>"
    by (simp add: s1_def run_simps m_def r_def)
  define s2 where "s2 = poke (thread_rsp (peek (task_thread prev) s1)) (rsp (core s1)) s1"
  have "peek (task_thread prev) s1 = tp" using own by (simp add: peek_def c1 tp)
  then have c2: "core s2 = (core s)\<lparr>rsp := r - 16, slots := ?m2\<rparr>"
    by (simp add: s2_def core_poke c1)
  define s3 where "s3 = on_core (\<lambda>c. c\<lparr>rsp := peek (thread_rsp (peek (task_thread next) s2)) s2\<rparr>) s2"
  have "peek (task_thread next) s2 = nt" using other by (simp add: peek_def c2 nt)
  moreover have "peek (thread_rsp nt) s2 = nsp" using other by (simp add: peek_def c2 nsp)
  ultimately have c3: "core s3 = (core s)\<lparr>rsp := nsp, slots := ?m2\<rparr>" by (simp add: s3_def c2)
  define s4 where "s4 = on_core (run [MovImm back RAX]) s3"
  have c4: "core s4 = (core s)\<lparr>gpr := (gpr (core s))(RAX := back), rsp := nsp, slots := ?m2\<rparr>"
    by (simp add: s4_def c3 run_simps)
  define s5 where "s5 = poke (thread_rip (peek (task_thread prev) s4)) (gpr (core s4) RAX) s4"
  have "peek (task_thread prev) s4 = tp" using own by (simp add: peek_def c4 tp)
  then have c5: "core s5 = (core s)\<lparr>gpr := (gpr (core s))(RAX := back), rsp := nsp, slots := ?m3\<rparr>"
    by (simp add: s5_def core_poke c4)
  define s6 where "s6 = on_core (push (peek (thread_rip (peek (task_thread next) s5)) s5)) s5"
  have "peek (task_thread next) s5 = nt" using other by (simp add: peek_def c5 nt)
  moreover have "peek (thread_rip nt) s5 = m (thread_rip nt)" using other by (simp add: peek_def c5)
  ultimately have c6: "core s6 = (core s)\<lparr>gpr := (gpr (core s))(RAX := back), rsp := nsp - 8, slots := ?m4\<rparr>"
    by (simp add: s6_def c5 push_def)
  have own6: "peek (task_thread prev) s6 = tp" using own by (simp add: peek_def c6 tp)
  have fs: "fs_reg s6 = fs_reg s" "gs_reg s6 = gs_reg s"
    by (simp_all add: s6_def s5_def s4_def s3_def s2_def s1_def)
  have "task_thread prev \<noteq> thread_fs (peek (task_thread prev) s6)" using own by (simp add: own6)
  note c7 = switch_context_core [OF this, of "next", unfolded own6 fs c6]
  have switched: "switch_to back prev next s = on_core (run [Ret]) (switch_context prev next s6)"
    by (simp only: switch_to_def Let_def s1_def s2_def s3_def s4_def s5_def s6_def)
  have target: "m (thread_rip nt) = peek (thread_rip nt) s" by (simp add: m_def peek_def)
  show "core (switch_to back prev next s) = (core s)\<lparr>gpr := (gpr (core s))(RAX := back),
      rsp := nsp, rip := peek (thread_rip nt) s,
      slots := (slots (core s))(r - 8 := gpr (core s) RBP, r - 16 := gpr (core s) RAX, thread_rsp tp := r - 16,
        thread_rip tp := back, nsp - 8 := peek (thread_rip nt) s,
        thread_fs tp := ucast (fs_reg s), thread_gs tp := ucast (gs_reg s))\<rparr>"
    using other(4) target by (simp add: switched c7 run_simps m_def)
  have "peek (task_thread next) s6 = nt" using other(1,5) by (simp add: peek_def c6 nt)
  then show "load_tss (TSS64_Table (switch_to back prev next s)) 1 =
      ((slots (core s))(r - 8 := gpr (core s) RBP, r - 16 := gpr (core s) RAX, thread_rsp tp := r - 16,
        thread_rip tp := back, nsp - 8 := peek (thread_rip nt) s)) (thread_rsp0 nt)"
    using switch_context_tss [of prev "next" s6] target
    by (simp add: switched on_core_def del: fun_upd_apply) (simp add: peek_def c6 m_def)
qed

lemma switch_core:
  fixes s :: "'a sched_state_scheme" and prev "next" :: u64
  defines "r \<equiv> rsp (core s)" and "tp \<equiv> peek (task_thread prev) s"
  assumes stack: "outside next (rsp (core s) - 16) 16"
    and prev: "outside next (peek (task_thread prev) s) 40" "outside next (task_thread prev) 8"
    and own: "task_thread prev \<notin> {r - 8, r - 16, thread_rip tp, thread_rsp tp, thread_fs tp}"
    and nextt: "peek (task_thread next) s = next + 88" "peek (thread_rsp (next + 88)) s = next + 32576"
  shows "core (switch_to back prev next s) = (core s)\<lparr>gpr := (gpr (core s))(RAX := back),
      rsp := next + 32576, rip := peek (thread_rip (next + 88)) s,
      slots := (slots (core s))(r - 8 := gpr (core s) RBP, r - 16 := gpr (core s) RAX, tp + 16 := r - 16,
        tp + 8 := back, next + 32568 := peek (thread_rip (next + 88)) s,
        tp + 24 := ucast (fs_reg s), tp + 32 := ucast (gs_reg s))\<rparr>"
    and "load_tss (TSS64_Table (switch_to back prev next s)) 1 = peek (thread_rsp0 (next + 88)) s"
proof -
  have far: "next + b \<noteq> r - 16" "next + b \<noteq> r - 8" "next + b \<noteq> tp + 8" "next + b \<noteq> tp + 16"
    "next + b \<noteq> tp + 24" "next + b \<noteq> tp + 32" "next + b \<noteq> prev + 40" if "unat b < 32768" for b
  proof -
    have "r - 16 \<noteq> next + b" "r - 16 + 8 \<noteq> next + b"
      using outside_neq [OF outside_far [OF stack, of 0] that] outside_neq [OF outside_far [OF stack, of 8] that]
      by (simp_all add: r_def)
    then show "next + b \<noteq> r - 16" "next + b \<noteq> r - 8" by auto
    have "tp + k \<noteq> next + b" if "unat k < 40" for k
      using outside_neq [OF outside_far [OF prev(1) that] \<open>unat b < 32768\<close>] by (simp add: tp_def)
    from this [of 8] this [of 16] this [of 24] this [of 32]
    show "next + b \<noteq> tp + 8" "next + b \<noteq> tp + 16" "next + b \<noteq> tp + 24" "next + b \<noteq> tp + 32" by auto
    show "next + b \<noteq> prev + 40"
      using outside_neq [OF outside_far [OF prev(2), of 0] that] by (simp add: field_defs)
  qed
  have off: "thread_rsp (next + 88) = next + 104" "thread_rip (next + 88) = next + 96" "next + 32576 - 8 = next + 32568"
    by (simp_all add: field_defs add.commute [of _ "next"])
  have nsp: "peek (next + 104) s = next + 32576" using nextt(2) by (simp only: off)
  have "task_thread prev \<noteq> next + 32568" using far(7) [of 32568] by (auto simp: task_thread_def)
  then have own': "task_thread prev \<notin> {rsp (core s) - 8, rsp (core s) - 16, thread_rip (peek (task_thread prev) s),
      thread_rsp (peek (task_thread prev) s), thread_fs (peek (task_thread prev) s),
      peek (thread_rsp (peek (task_thread next) s)) s - 8}"
    using own by (simp add: nextt(1) nsp off r_def tp_def)
  have other: "task_thread next \<notin> {rsp (core s) - 8, rsp (core s) - 16, thread_rip (peek (task_thread prev) s),
      thread_rsp (peek (task_thread prev) s)}"
    "thread_rsp (peek (task_thread next) s) \<notin> {rsp (core s) - 8, rsp (core s) - 16, thread_rsp (peek (task_thread prev) s)}"
    "thread_rip (peek (task_thread next) s) \<notin> {rsp (core s) - 8, rsp (core s) - 16, thread_rip (peek (task_thread prev) s),
      thread_rsp (peek (task_thread prev) s)}"
    "peek (thread_rsp (peek (task_thread next) s)) s - 8 \<notin> {thread_fs (peek (task_thread prev) s),
      thread_gs (peek (task_thread prev) s)}"
    "task_thread next \<noteq> peek (thread_rsp (peek (task_thread next) s)) s - 8"
    by (simp_all only: nextt(1) off nsp, use far in \<open>simp_all add: r_def tp_def field_defs\<close>)
  note steps = switch_steps [OF own' other, of "back"]
  show "core (switch_to back prev next s) = (core s)\<lparr>gpr := (gpr (core s))(RAX := back),
      rsp := next + 32576, rip := peek (thread_rip (next + 88)) s,
      slots := (slots (core s))(r - 8 := gpr (core s) RBP, r - 16 := gpr (core s) RAX, tp + 16 := r - 16,
        tp + 8 := back, next + 32568 := peek (thread_rip (next + 88)) s,
        tp + 24 := ucast (fs_reg s), tp + 32 := ucast (gs_reg s))\<rparr>"
    using steps(1) unfolding r_def tp_def by (simp add: nextt(1) nsp off) (simp add: field_defs)
  show "load_tss (TSS64_Table (switch_to back prev next s)) 1 = peek (thread_rsp0 (next + 88)) s"
    using far [of 88] unfolding steps(2) nextt(1) off nsp
    by (simp add: r_def tp_def field_defs) (simp add: peek_def)
qed

subsection \<open>The way into user mode\<close>

lemma init_core:
  assumes "peek (task_thread (get_current s)) s = get_current s + 88"
  defines "frame \<equiv> get_current s + 32576"
  shows "core (init im arg s) = (core s)\<lparr>gpr := (gpr (core s))(RAX := 0), rip := im_ret_system_call im,
      rsp := frame, slots := (slots (core s))(get_current s + 96 := im_ret_system_call im,
        get_current s + 104 := frame, get_current s + 32568 := im_ret_system_call im,
        frame + 80 := 0x800000, frame + 72 := 0xa00000, frame + 128 := 1, frame + 112 := 0, frame + 120 := 0)\<rparr>"
    and "ram (init im arg s) = memcpy (VIR2PHY (im_user_level_function im)) 0x800000 1024 (ram s)"
proof -
  define t where "t = get_current s"
  define m where "m = slots (core s)"
  have own: "m (t + 40) = t + 88" using assms(1) by (simp add: peek_def t_def m_def field_defs)
  let ?m1 = "m(t + 96 := im_ret_system_call im, t + 104 := t + 32576)"
  define s1 where "s1 = poke (thread_rsp (t + 88)) (t + 32576) (poke (thread_rip (t + 88)) (im_ret_system_call im)
    (kinfo (''init task is running,arg:%#018lx'' @ [newline]) [arg] s))"
  have c1: "core s1 = (core s)\<lparr>slots := ?m1\<rparr>"
    by (simp add: s1_def core_poke field_defs m_def add.commute [of 96 t] add.commute [of 104 t])
  define s2 where "s2 = on_core (\<lambda>c. c\<lparr>rsp := t + 32576\<rparr>) s1"
  define s3 where "s3 = on_core (push (im_ret_system_call im)) s2"
  have c3: "core s3 = (core s)\<lparr>rsp := t + 32568, slots := ?m1(t + 32568 := im_ret_system_call im)\<rparr>"
    by (simp add: s3_def s2_def c1 push_def add.commute [of 32568 t])
  have ram3: "ram s3 = ram s"
    by (simp add: s3_def s2_def s1_def on_core_def poke_def kinfo_def log_printf_def)
  have "init im arg s = on_core (run [MovImm 0 RAX, Ret]) (snd (do_execve im (t + 32576) s3))"
  proof -
    have t: "get_current (kinfo fmt args s) = t" for fmt args by (simp add: get_current_def t_def)
    have th: "peek (t + 40) s = t + 88" using own by (simp add: peek_def m_def)
    have fst: "fst (do_execve im r u) = 0" for r and u :: "'a sched_state_scheme"
      by (simp add: do_execve_def Let_def)
    have off: "t + 88 + 8 = t + 96" "t + 88 + 16 = t + 104" "t + 32768 - 192 = t + 32576" by simp_all
    show ?thesis
      by (simp only: init_def Let_def split_def fst s1_def s2_def s3_def t field_defs STACK_SIZE_def)
        (simp add: th off t own [unfolded m_def])
  qed
  then show "core (init im arg s) = (core s)\<lparr>gpr := (gpr (core s))(RAX := 0), rip := im_ret_system_call im,
      rsp := frame, slots := (slots (core s))(get_current s + 96 := im_ret_system_call im,
        get_current s + 104 := frame, get_current s + 32568 := im_ret_system_call im,
        frame + 80 := 0x800000, frame + 72 := 0xa00000, frame + 128 := 1, frame + 112 := 0, frame + 120 := 0)\<rparr>"
    by (simp add: do_execve_def Let_def core_poke c3 run_simps frame_def m_def t_def)
  show "ram (init im arg s) = memcpy (VIR2PHY (im_user_level_function im)) 0x800000 1024 (ram s)"
    unfolding \<open>init im arg s = _\<close>
    by (simp add: do_execve_def Let_def on_core_def) (simp add: poke_def kinfo_def log_printf_def ram3)
qed

lemma ret_system_call_frame:
  fixes c :: cpu
  defines "f \<equiv> read_pt_regs (slots c) (rsp c)"
  shows "rip (run ret_system_call c) = pt_rdx f" "rsp (run ret_system_call c) = pt_rcx f"
    "gpr (run ret_system_call c) = (frame_gpr f)(RAX := gpr c RAX)" "segs (run ret_system_call c) = frame_segs f"
proof -
  have s: "run ret_system_call c =
      run [AddRsp 0x38, Sysexit] (run RESTORE_REGS (c\<lparr>slots := (slots c)(rsp c + 128 := gpr c RAX)\<rparr>))"
    by (simp add: ret_system_call_def run_append run_Cons)
  have g: "frame_gpr (f\<lparr>pt_rax := v\<rparr>) = (frame_gpr f)(RAX := v)" "frame_segs (f\<lparr>pt_rax := v\<rparr>) = frame_segs f"
    "frame_gpr f RDX = pt_rdx f" "frame_gpr f RCX = pt_rcx f" for v
    by (auto simp: frame_gpr_def frame_segs_def fun_eq_iff split: reg.split seg.split)
  show "rip (run ret_system_call c) = pt_rdx f" "rsp (run ret_system_call c) = pt_rcx f"
    "gpr (run ret_system_call c) = (frame_gpr f)(RAX := gpr c RAX)" "segs (run ret_system_call c) = frame_segs f"
    unfolding s run_restore
    by (simp_all add: run_Cons store_rax_frame f_def [symmetric] g)
qed

lemma init_user_mode:
  assumes "peek (task_thread (get_current s)) s = get_current s + 88"
  shows "rip (run ret_system_call (core (init im arg s))) = 0x800000"
    and "rsp (run ret_system_call (core (init im arg s))) = 0xa00000"
    and "gpr (run ret_system_call (core (init im arg s))) RAX = 0"
    and "segs (run ret_system_call (core (init im arg s))) = (\<lambda>_. 0)"
proof -
  have "frame_segs (read_pt_regs (slots (core (init im arg s))) (get_current s + 32576)) = (\<lambda>_. 0)"
    by (auto simp: init_core [OF assms] read_pt_regs_def frame_segs_def split: seg.split)
  then show "rip (run ret_system_call (core (init im arg s))) = 0x800000"
    "rsp (run ret_system_call (core (init im arg s))) = 0xa00000"
    "gpr (run ret_system_call (core (init im arg s))) RAX = 0"
    "segs (run ret_system_call (core (init im arg s))) = (\<lambda>_. 0)"
    unfolding ret_system_call_frame
    by (simp_all add: init_core [OF assms] read_pt_regs_def)
qed

lemma user_code_copied:
  assumes "forward_safe 0x800000 src 1024"
  shows "load_bytes (memcpy src 0x800000 1024 m) 0x800000 1024 = load_bytes m src 1024"
proof -
  have "unat (1024 :: u64) = 1024" by simp
  moreover have "0 \<le> sint (1024 :: u64)" by simp
  ultimately have "memcpy src 0x800000 1024 m = store_bytes m 0x800000 (load_bytes m src 1024)"
    using memcpy_store [of 1024 "0x800000" src m] assms by simp
  then show ?thesis using load_store_bytes [of "load_bytes m src 1024" m "0x800000"] by simp
qed

subsection \<open>From the boot task to the first thread\<close>

lemma task_setup_simps [simp]:
  "core (task_setup im s) = core s" "get_current (task_setup im s) = get_current s"
  "peek a (task_setup im s) = peek a s"
  "task_links (task_setup im s) = list_init (im_init_task im) (task_links s)"
proof -
  show c: "core (task_setup im s) = core s"
    by (simp add: task_setup_def Let_def fill_init_mm_def wrmsr_def emit_def)
  then show "get_current (task_setup im s) = get_current s" "peek a (task_setup im s) = peek a s"
    by (simp_all add: get_current_def peek_def)
  show "task_links (task_setup im s) = list_init (im_init_task im) (task_links s)"
    by (simp add: task_setup_def Let_def fill_init_mm_def wrmsr_def emit_def)
qed

text \<open>What the boot code relies on: the processor is on the first task's stack, that task is a kernel thread,
  and neither its structures nor the frame and the two slots pushed by the switch reach into the new
  task's 32 kilobytes or each other.\<close>

definition boot_ready :: "image \<Rightarrow> u64 \<Rightarrow> u64 \<Rightarrow> 'a sched_state_scheme \<Rightarrow> bool" where
  "boot_ready im regs tsk s \<longleftrightarrow>
     (let first = im_init_task im; thd = peek (task_thread first) s; sp = rsp (core s)
      in get_current s = first \<and> peek (task_flags first) s AND PF_KTHREAD \<noteq> 0 \<and>
         outside tsk first 88 \<and> outside tsk regs 192 \<and> outside tsk (sp - 16) 16 \<and> outside tsk thd 40 \<and>
         \<not> in_block regs 24 (task_flags first) \<and> \<not> in_block regs 24 (task_thread first) \<and>
         task_thread first \<notin> {sp - 8, sp - 16, thread_rip thd, thread_rsp thd, thread_fs thd})"

lemma list_init_next:
  "list_next a (list_add_tail a b (list_init b l)) = b" if "a \<noteq> b"
  using that by (simp add: list_next_def list_add_tail_def list_add_def list_init_def Let_def)

lemma read_pt_regs_upd:
  assumes "\<not> in_block p 24 a"
  shows "read_pt_regs (m(a := v)) p = read_pt_regs m p"
  by (rule read_pt_regs_cong) (use assms in auto)

lemma task_init_core:
  fixes s :: "'a sched_state_scheme" and im :: image
  defines "first \<equiv> im_init_task im"
  assumes alloc: "alloc_pages ZONE_NORMAL 8 (PG_PTable_Maped OR PG_Active OR PG_Kernel)
      (thread_frame im (im_init im) 10 regs (task_setup im s)) = (Some p, s1)"
    and tsk: "tsk = PHY2VIR (phy_addr (pages s1 p))"
    and ready: "boot_ready im regs tsk s"
  obtains s' where "task_init im back regs s = Inr s'" "rip (core s') = im_kernel_thread_func im"
    "rsp (core s') = tsk + 32576" "slots (core s') (tsk + 40) = tsk + 88"
    "read_pt_regs (slots (core s')) (tsk + 32576) =
      read_pt_regs (slots (core (thread_frame im (im_init im) 10 regs (task_setup im s)))) regs"
    "load_tss (TSS64_Table s') 1 = tsk + 32768"
proof -
  let ?s0 = "task_setup im s" and ?f = "thread_frame im (im_init im) 10 regs (task_setup im s)"
  define thd where "thd = peek (task_thread first) s"
  have cur: "get_current s = first" and kt: "peek (task_flags first) s AND PF_KTHREAD \<noteq> 0"
    and out: "outside tsk first 88" "outside tsk regs 192" "outside tsk (rsp (core s) - 16) 16" "outside tsk thd 40"
    and apart: "\<not> in_block regs 24 (task_flags first)" "\<not> in_block regs 24 (task_thread first)"
    and own: "task_thread first \<notin> {rsp (core s) - 8, rsp (core s) - 16, thread_rip thd, thread_rsp thd, thread_fs thd}"
    using ready by (simp_all add: boot_ready_def Let_def first_def thd_def)
  let ?flags = "CLONE_FS OR CLONE_FILES OR CLONE_SIGNAL"
  obtain s2 where s2: "kernel_thread im (im_init im) 10 ?flags regs ?s0 = Inr (0, s2)"
    "read_pt_regs (slots (core s2)) (tsk + 32576) = read_pt_regs (slots (core ?f)) regs"
    "peek (task_thread tsk) s2 = tsk + 88" "peek (thread_rip (tsk + 88)) s2 = im_kernel_thread_func im"
    "peek (thread_rsp (tsk + 88)) s2 = tsk + 32576" "peek (thread_rsp0 (tsk + 88)) s2 = tsk + 32768"
    "task_links s2 = list_add_tail first tsk (list_init tsk (task_links ?s0))"
    "\<And>x. 32768 \<le> unat (x - tsk) \<Longrightarrow> peek x s2 = slots (core ?f) x" "rsp (core s2) = rsp (core s)"
    using kernel_thread_forked [OF alloc tsk, of ?flags] out apart kt cur first_def
    by (metis task_setup_simps(1-3))
  define s3 where "s3 = poke (task_state first) TASK_RUNNING s2"
  have far: "32768 \<le> unat (first + 16 - tsk)" "32768 \<le> unat (first + 40 - tsk)"
    using outside_far [OF out(1)] by simp_all
  have neq: "first + 16 \<noteq> tsk + b" if "unat b < 32768" for b
    by (rule outside_neq [OF far(1) that])
  have cur3: "get_current s3 = first" using cur by (simp add: s3_def get_current_def s2(9))
  have "first \<noteq> tsk" using outside_neq [OF outside_far [OF out(1), of 0], of 0] by simp
  then have nx: "list_next (get_current s3) (task_links s3) = tsk"
    by (simp add: cur3) (simp add: s3_def s2(7) list_init_next)
  have thd3: "peek (task_thread first) s3 = thd"
  proof -
    have "peek (task_thread first) s2 = slots (core ?f) (task_thread first)"
      using s2(8) far(2) by (simp add: field_defs)
    also have "\<dots> = peek (task_thread first) ?s0"
      by (simp add: peek_def thread_frame_outside [OF apart(2)])
    finally show ?thesis by (simp add: s3_def thd_def) (simp add: field_defs)
  qed
  have rsp3: "rsp (core s3) = rsp (core s)" by (simp add: s3_def s2(9))
  have next3: "peek (task_thread tsk) s3 = tsk + 88" "peek (thread_rsp (tsk + 88)) s3 = tsk + 32576"
    "peek (thread_rip (tsk + 88)) s3 = im_kernel_thread_func im" "peek (thread_rsp0 (tsk + 88)) s3 = tsk + 32768"
    using s2(3-6) neq [of 40] neq [of 104] neq [of 96] neq [of 88]
    by (simp_all add: s3_def field_defs add.commute [of _ tsk])
  have out3: "outside tsk (rsp (core s3) - 16) 16" "outside tsk (peek (task_thread first) s3) 40"
    using out by (simp_all add: rsp3 thd3)
  have out8: "outside tsk (task_thread first) 8"
    using out(1) far(2) unat_plus [of "first - tsk" 40] by (simp add: outside_def field_defs diff_add_eq)
  have own3: "task_thread first \<notin> {rsp (core s3) - 8, rsp (core s3) - 16, thread_rip (peek (task_thread first) s3),
      thread_rsp (peek (task_thread first) s3), thread_fs (peek (task_thread first) s3)}"
    using own by (simp add: rsp3 thd3)
  note switched = switch_core [OF out3 out8 own3 next3(1,2), of "back"]
  note core = switched(1) [unfolded thd3 rsp3]
  have sp: "32768 \<le> unat (rsp (core s) - 16 - tsk)" "32768 \<le> unat (rsp (core s) - 8 - tsk)"
  proof -
    have "rsp (core s) - 16 + 8 = rsp (core s) - 8" by simp
    with outside_far [OF out(3), of 8] show "32768 \<le> unat (rsp (core s) - 8 - tsk)" by simp
    show "32768 \<le> unat (rsp (core s) - 16 - tsk)" using outside_far [OF out(3), of 0] by simp
  qed
  have th: "32768 \<le> unat (thd + 8 - tsk)" "32768 \<le> unat (thd + 16 - tsk)" "32768 \<le> unat (thd + 24 - tsk)"
    "32768 \<le> unat (thd + 32 - tsk)"
    using outside_far [OF out(4)] by simp_all
  note elsewhere = sp th far(1)
  have pts: "read_pt_regs (m(a := v)) (tsk + 32576) = read_pt_regs m (tsk + 32576)" if "32768 \<le> unat (a - tsk)" for m a v
    by (rule read_pt_regs_upd [OF outside_not_in [OF that]]) simp
  have pts8: "read_pt_regs (m(tsk + 32568 := v)) (tsk + 32576) = read_pt_regs m (tsk + 32576)" for m v
    by (rule read_pt_regs_upd) simp
  have slot: "(m(a := v)) (tsk + 40) = m (tsk + 40)" if "32768 \<le> unat (a - tsk)" for m :: "u64 \<Rightarrow> u64" and a v
    using outside_neq [OF that, of 40] by auto
  have slot8: "(m(tsk + 32568 := v)) (tsk + 40) = m (tsk + 40)" for m :: "u64 \<Rightarrow> u64" and v
    by simp
  have m3: "slots (core s3) = (slots (core s2))(first + 16 := TASK_RUNNING)"
    by (simp add: s3_def field_defs)
  have "slots (core (switch_to back first tsk s3)) (tsk + 40) = slots (core s3) (tsk + 40)"
    by (simp add: core slot slot8 elsewhere del: fun_upd_apply)
  also have "\<dots> = tsk + 88" using next3(1) by (simp add: peek_def field_defs)
  finally have own_thread: "slots (core (switch_to back first tsk s3)) (tsk + 40) = tsk + 88" .
  have "read_pt_regs (slots (core (switch_to back first tsk s3))) (tsk + 32576) =
      read_pt_regs (slots (core ?f)) regs"
    by (simp add: core m3 pts pts8 elsewhere s2(2))
  moreover have "task_init im back regs s = Inr (switch_to back first tsk s3)"
  proof -
    have "get_current s2 = first" "list_next first (task_links s2) = tsk"
      using cur3 nx by (simp_all add: s3_def)
    then show ?thesis by (simp add: task_init_def s2(1) Let_def s3_def first_def)
  qed
  moreover have "load_tss (TSS64_Table (switch_to back first tsk s3)) 1 = tsk + 32768"
    by (simp only: switched(2) next3(4))
  ultimately show ?thesis
    using own_thread by (intro that [of "switch_to back first tsk s3"]) (assumption | simp add: core next3)+
qed

lemma thread_reaches_init:
  assumes "alloc_pages ZONE_NORMAL 8 (PG_PTable_Maped OR PG_Active OR PG_Kernel)
      (thread_frame im (im_init im) 10 regs (task_setup im s)) = (Some p, s1)"
    and "tsk = PHY2VIR (phy_addr (pages s1 p))" "tsk AND 32767 = 0"
    and "boot_ready im regs tsk s"
  obtains s2 where "task_init im back regs s = Inr s2" "rip (core s2) = im_kernel_thread_func im"
    "rip (core (on_core (run (kernel_thread_func ret)) s2)) = im_init im"
    "gpr (core (on_core (run (kernel_thread_func ret)) s2)) RDI = 10"
    "get_current (on_core (run (kernel_thread_func ret)) s2) = tsk"
    "peek (task_thread tsk) (on_core (run (kernel_thread_func ret)) s2) = tsk + 88"
    "load_tss (TSS64_Table s2) 1 = tsk + 32768"
proof -
  obtain s2 where s2: "task_init im back regs s = Inr s2" "rip (core s2) = im_kernel_thread_func im"
    "rsp (core s2) = tsk + 32576" "slots (core s2) (tsk + 40) = tsk + 88"
    "read_pt_regs (slots (core s2)) (tsk + 32576) =
      read_pt_regs (slots (core (thread_frame im (im_init im) 10 regs (task_setup im s)))) regs"
    "load_tss (TSS64_Table s2) 1 = tsk + 32768"
    by (rule task_init_core [OF assms(1,2,4)])
  let ?s3 = "on_core (run (kernel_thread_func ret)) s2"
  have start: "rip (core ?s3) = im_init im" "gpr (core ?s3) RDI = 10" "rsp (core ?s3) = tsk + 32760"
    "slots (core ?s3) (tsk + 40) = tsk + 88"
    using run_thread_start [of ret "core s2"] s2 by (simp_all add: add.commute [of _ tsk])
  have "get_current ?s3 = tsk"
    using aligned_block [OF assms(3), of 32760] start(3) by (simp add: get_current_def)
  moreover have "peek (task_thread tsk) ?s3 = tsk + 88"
    using start(4) by (simp add: peek_def task_thread_def)
  ultimately show ?thesis by (rule that [OF s2(1,2) start(1,2) _ _ s2(6)])
qed

subsection \<open>A task that has switched away\<close>

text \<open>The eleven slots a switch uses, all different: the two pushes, the four fields of the thread that goes,
  the slot of the return address, and what is read of both tasks.\<close>

definition switch_apart :: "u64 \<Rightarrow> u64 \<Rightarrow> 'a sched_state_scheme \<Rightarrow> bool" where
  "switch_apart prev next s \<longleftrightarrow>
     (let sp = rsp (core s); tp = peek (task_thread prev) s; nt = peek (task_thread next) s;
          nsp = peek (thread_rsp nt) s
      in distinct [sp - 8, sp - 16, thread_rip tp, thread_rsp tp, thread_fs tp, thread_gs tp, nsp - 8,
           task_thread prev, task_thread next, thread_rip nt, thread_rsp nt])"

lemma switch_apart_core:
  fixes s :: "'a sched_state_scheme" and prev "next" :: u64
  defines "r \<equiv> rsp (core s)" and "tp \<equiv> peek (task_thread prev) s" and "nt \<equiv> peek (task_thread next) s"
  assumes "switch_apart prev next s"
  shows "core (switch_to back prev next s) = (core s)\<lparr>gpr := (gpr (core s))(RAX := back),
      rsp := peek (thread_rsp nt) s, rip := peek (thread_rip nt) s,
      slots := (slots (core s))(r - 8 := gpr (core s) RBP, r - 16 := gpr (core s) RAX, thread_rsp tp := r - 16,
        thread_rip tp := back, peek (thread_rsp nt) s - 8 := peek (thread_rip nt) s,
        thread_fs tp := ucast (fs_reg s), thread_gs tp := ucast (gs_reg s))\<rparr>"
  unfolding r_def tp_def nt_def
  by (rule switch_steps(1)) (use assms(4) in \<open>simp_all add: switch_apart_def Let_def eq_commute\<close>)

lemma switch_saves:
  fixes s :: "'a sched_state_scheme" and prev "next" "back" :: u64
  assumes "switch_apart prev next s"
  defines "r \<equiv> rsp (core s)" and "tp \<equiv> peek (task_thread prev) s" and "s1 \<equiv> switch_to back prev next s"
  shows "peek (task_thread prev) s1 = tp" "peek (thread_rip tp) s1 = back" "peek (thread_rsp tp) s1 = r - 16"
    "peek (r - 8) s1 = gpr (core s) RBP" "peek (r - 16) s1 = gpr (core s) RAX"
  using assms(1) switch_apart_core [OF assms(1), of "back"]
  by (simp_all add: s1_def tp_def r_def peek_def switch_apart_def Let_def eq_commute)

subsection \<open>Properties\<close>

text \<open>Two tasks to switch between: the first, on its stack, and a thread at 0xffff800000040000.\<close>

definition sample_pair :: sched_state where
  "sample_pair = poke 0xffff800000040028 0xffff800000040058 (poke 0xffff800000040060 0xffff800002001200
     (poke 0xffff800000040068 0xffff800000047f40 sample_tasks))"

lemma sample_boot:
  "boot_ready sample_image 0xffff800002117e00 0xffff800000040000 sample_tasks"
proof -
  have "peek (task_thread 0xffff800002110000) sample_tasks = 0xffff800002100000"
    by (simp add: sample_tasks_def INIT_TASK_def Let_def field_defs sample_image_def)
  moreover have "rsp (core sample_tasks) = 0xffff800002117d00"
    by (simp add: sample_tasks_def INIT_TASK_def init_thread_def Let_def) (simp add: blank_tasks_def)
  moreover have "im_init_task sample_image = 0xffff800002110000" by (simp add: sample_image_def)
  ultimately show ?thesis
    using sample_apart(1,2,3) sample_flags
    by (simp add: boot_ready_def Let_def sample_current PF_KTHREAD_def)
      (simp add: outside_def in_block_def field_defs)
qed

lemma task_setup_mm:
  "bits (task_setup im s) = bits s" "pages (task_setup im s) = pages s" "zones (task_setup im s) = zones s"
  by (simp_all add: task_setup_def Let_def fill_init_mm_def wrmsr_def put_tss_def set_tss64_def)

text \<open>From the boot task to user mode: when pages for the first thread are found, 32-kilobyte aligned and
  apart from the boot task, task_init switches to kernel_thread_func on the new stack, which calls init
  with the argument 10 in the new task; init patches its frame and returns through ret_system_call, which
  leaves the kernel to the user program at 0x800000 with the stack 0xa00000 and 0 in rax.\<close>

theorem boot_reaches_user_mode:
  assumes "alloc_pages ZONE_NORMAL 8 (PG_PTable_Maped OR PG_Active OR PG_Kernel)
      (thread_frame im (im_init im) 10 regs (task_setup im s)) = (Some p, s1)"
    and "tsk = PHY2VIR (phy_addr (pages s1 p))" "tsk AND 32767 = 0"
    and "boot_ready im regs tsk s"
  shows "\<exists>s2. task_init im back regs s = Inr s2 \<and> rip (core s2) = im_kernel_thread_func im \<and>
    (let s3 = on_core (run (kernel_thread_func ret)) s2; s4 = init im (gpr (core s3) RDI) s3;
         user = run ret_system_call (core s4)
     in rip (core s3) = im_init im \<and> gpr (core s3) RDI = 10 \<and> get_current s3 = tsk \<and>
        rip (core s4) = im_ret_system_call im \<and> rip user = 0x800000 \<and> rsp user = 0xa00000 \<and> gpr user RAX = 0)"
proof -
  obtain s2 where s2: "task_init im back regs s = Inr s2" "rip (core s2) = im_kernel_thread_func im"
    and s3: "rip (core (on_core (run (kernel_thread_func ret)) s2)) = im_init im"
      "gpr (core (on_core (run (kernel_thread_func ret)) s2)) RDI = 10"
      "get_current (on_core (run (kernel_thread_func ret)) s2) = tsk"
      "peek (task_thread tsk) (on_core (run (kernel_thread_func ret)) s2) = tsk + 88"
    by (rule thread_reaches_init [OF assms])
  let ?s3 = "on_core (run (kernel_thread_func ret)) s2"
  have own: "peek (task_thread (get_current ?s3)) ?s3 = get_current ?s3 + 88" using s3(3,4) by simp
  from init_user_mode(1-3) [OF own, of im 10] init_core(1) [OF own, of im 10] s3
  show ?thesis by (intro exI [of _ s2]) (simp add: s2 Let_def)
qed

theorem boot_reaches_user_mode_witness:
  "\<exists>s2. task_init sample_image 0x1000 0xffff800002117e00 sample_tasks = Inr s2 \<and>
    (let s3 = on_core (run (kernel_thread_func 0x1234)) s2; s4 = init sample_image (gpr (core s3) RDI) s3;
         user = run ret_system_call (core s4)
     in rip user = 0x800000 \<and> rsp user = 0xa00000)"
proof -
  let ?f = "thread_frame sample_image (im_init sample_image) 10 0xffff800002117e00 (task_setup sample_image sample_tasks)"
  obtain s1 where s1: "alloc_pages ZONE_NORMAL 8 (PG_PTable_Maped OR PG_Active OR PG_Kernel) ?f = (Some 64, s1)"
    "phy_addr (pages s1 64) = 0x40000"
    using sample_alloc [of ?f] by (auto simp: thread_frame_mm task_setup_mm sample_mm)
  have tsk: "0xffff800000040000 = PHY2VIR (phy_addr (pages s1 64))" by (simp only: s1(2) sample_tsk)
  have "(0xffff800000040000 :: u64) AND 32767 = 0" by simp
  from boot_reaches_user_mode [OF s1(1) tsk this sample_boot, of "0x1000" "0x1234"]
  show ?thesis by (auto simp: Let_def)
qed

text \<open>C11: A task that has switched away comes back as it left: whatever ran in between, as long as the two
  saved words, the thread's rip and rsp and the pointer to it are still there, the switch back to the
  task goes on behind its own switch with its rsp, rbp and rax. In both switches the words of the thread structures and of
  the stacks that are read and written are different words.\<close>

theorem switch_resumes:
  assumes "switch_apart prev next s"
    and "\<forall>a \<in> {task_thread prev, thread_rip (peek (task_thread prev) s), thread_rsp (peek (task_thread prev) s),
      rsp (core s) - 8, rsp (core s) - 16}. peek a s2 = peek a (switch_to back prev next s)"
    and "switch_apart other prev s2"
    and "{rsp (core s) - 8, rsp (core s) - 16} \<inter> {rsp (core s2) - 8, rsp (core s2) - 16,
      thread_rip (peek (task_thread other) s2), thread_rsp (peek (task_thread other) s2),
      thread_fs (peek (task_thread other) s2), thread_gs (peek (task_thread other) s2)} = {}"
  shows "let c = core (switch_to back2 other prev s2); c' = run switch_back c
    in rip c = back \<and> rsp c' = rsp (core s) \<and> gpr c' RBP = gpr (core s) RBP \<and> gpr c' RAX = gpr (core s) RAX"
proof -
  note saved = switch_saves [OF assms(1), of "back"]
  have s2: "peek (task_thread prev) s2 = peek (task_thread prev) s"
    "peek (thread_rip (peek (task_thread prev) s)) s2 = back"
    "peek (thread_rsp (peek (task_thread prev) s)) s2 = rsp (core s) - 16"
    "peek (rsp (core s) - 8) s2 = gpr (core s) RBP" "peek (rsp (core s) - 16) s2 = gpr (core s) RAX"
    using assms(2) saved by simp_all
  define r where "r = rsp (core s)"
  define c where "c = core (switch_to back2 other prev s2)"
  note c = switch_apart_core [OF assms(3), of back2, unfolded s2(1) s2(2,3), folded c_def r_def]
  have ret: "r - 8 \<noteq> r - 16 - 8" "r - 16 \<noteq> r - 16 - 8" by simp_all
  let ?writes = "{rsp (core s2) - 8, rsp (core s2) - 16, thread_rip (peek (task_thread other) s2),
    thread_rsp (peek (task_thread other) s2), thread_fs (peek (task_thread other) s2),
    thread_gs (peek (task_thread other) s2)}"
  have keep: "slots c x = peek x s2" if "x \<notin> ?writes" "x \<noteq> r - 16 - 8" for x
    using that by (simp add: c peek_def)
  have "r - 8 \<notin> ?writes" "r - 16 \<notin> ?writes" using assms(4) unfolding r_def by blast+
  then have "slots c (r - 8) = peek (r - 8) s2" "slots c (r - 16) = peek (r - 16) s2"
    using keep ret by blast+
  then have words: "slots c (r - 8) = gpr (core s) RBP" "slots c (r - 16) = gpr (core s) RAX"
    using s2(4,5) by (simp_all only: r_def)
  have pop: "rsp (run switch_back c) = rsp c + 16" "gpr (run switch_back c) RAX = slots c (rsp c)"
    "gpr (run switch_back c) RBP = slots c (rsp c + 8)"
    by (simp_all add: switch_back_def run_simps)
  have at: "rsp c = r - 16" "rip c = back" by (simp_all add: c)
  have "r - 16 + 16 = r" "r - 16 + 8 = r - 8" by simp_all
  then have "rsp (run switch_back c) = r" "gpr (run switch_back c) RAX = gpr (core s) RAX"
    "gpr (run switch_back c) RBP = gpr (core s) RBP"
    using words by (simp_all only: pop at)
  then show ?thesis using at(2) by (simp only: Let_def c_def [symmetric] r_def simp_thms)
qed

theorem switch_resumes_witness:
  "let s1 = switch_to 0x1000 0xffff800002110000 0xffff800000040000 sample_pair;
       c = core (switch_to 0x2000 0xffff800000040000 0xffff800002110000 s1)
   in rip c = 0x1000 \<and> rsp (run switch_back c) = 0xffff800002117d00"
proof -
  let ?a = "0xffff800002110000" and ?b = "0xffff800000040000"
  let ?s1 = "switch_to 0x1000 ?a ?b sample_pair"
  have sp: "rsp (core sample_pair) = 0xffff800002117d00"
    by (simp add: sample_pair_def sample_tasks_def INIT_TASK_def init_thread_def Let_def) (simp add: blank_tasks_def)
  have thread: "peek 0xffff800002110028 sample_pair = 0xffff800002100000"
    "peek 0xffff800000040028 sample_pair = 0xffff800000040058"
    "peek 0xffff800000040068 sample_pair = 0xffff800000047f40"
    by (simp_all add: sample_pair_def sample_tasks_def INIT_TASK_def Let_def field_defs sample_image_def)
  have apart: "switch_apart ?a ?b sample_pair"
    by (simp add: switch_apart_def Let_def field_defs thread sp)
  have core: "rsp (core ?s1) = 0xffff800000047f40" "peek 0xffff800002110028 ?s1 = 0xffff800002100000"
    "peek 0xffff800000040028 ?s1 = 0xffff800000040058" "peek 0xffff800002100010 ?s1 = 0xffff800002117cf0"
    using thread
    by (simp_all add: switch_apart_core [OF apart] field_defs sp peek_def)
  have apart1: "switch_apart ?b ?a ?s1"
    by (simp add: switch_apart_def Let_def field_defs core)
  have "{rsp (core sample_pair) - 8, rsp (core sample_pair) - 16} \<inter> {rsp (core ?s1) - 8, rsp (core ?s1) - 16,
      thread_rip (peek (task_thread ?b) ?s1), thread_rsp (peek (task_thread ?b) ?s1),
      thread_fs (peek (task_thread ?b) ?s1), thread_gs (peek (task_thread ?b) ?s1)} = {}"
    by (simp add: sp core field_defs)
  from switch_resumes [OF apart _ apart1 this, of "0x1000" "0x2000"] show ?thesis
    by (simp add: sp Let_def)
qed

end
