(* ===== verification/Boot.thy ===== *)
theory Boot
  imports Sched Irq Multiboot MemInit
begin

text \<open>
  \<^verbatim>\<open>kernel_start\<close> of \<^verbatim>\<open>kernel/kernel.c\<close>: the order in which the kernel brings up its parts. The state is
  that of Sched, which contains the states of all of them. Each phase is shown to leave the parts of the
  others alone; together they give the machine that \<^verbatim>\<open>task_init\<close> starts from.
\<close>

subsection \<open>kernel_start\<close>

text \<open>What the linker and the compiler choose: the symbols, the addresses of the interrupt stubs, of the
  two arrays of \<^verbatim>\<open>ata_init\<close>, of the label behind the switch of \<^verbatim>\<open>task_init\<close> and of its register frame.\<close>

record boot_env =
  env_linker :: linker
  env_image :: image
  env_stub :: "u64 \<Rightarrow> u64"
  env_bwrite :: u64
  env_buf :: u64
  env_back :: u64
  env_regs :: u64

text \<open>The kernel refuses the boot loader, writes past its copy of the memory map, has no pages for the first
  thread, or has switched to that thread.\<close>

datatype 's boot_outcome = Refused | MapTooLarge | NoPages | Switched 's

definition start_tasks :: "boot_env \<Rightarrow> 'a sched_state_scheme \<Rightarrow> 'a sched_state_scheme boot_outcome" where
  "start_tasks env s =
     (case task_init (env_image env) (env_back env) (env_regs env) s of
        Inl NullPage \<Rightarrow> NoPages
      | Inr s \<Rightarrow> Switched s)"

definition kernel_start ::
    "boot_env \<Rightarrow> u64 \<Rightarrow> u64 \<Rightarrow> 'a sched_state_scheme \<Rightarrow> 'a sched_state_scheme boot_outcome option" where
  "kernel_start env mb2_magic mb2_info s =
     (if mb2_magic \<noteq> MULTIBOOT2_BOOTLOADER_MAGIC \<or> mb2_info AND 7 \<noteq> 0 then Some Refused
      else
        let s = emit ClearScreen s;
            s = load_TR 10 s
        in Option.bind (parse_sys_info (mapped (ram s)) mb2_info s) (\<lambda>r.
             case r of
               Inl E820Overflow \<Rightarrow> Some MapTooLarge
             | Inr s \<Rightarrow>
                 Option.bind (init_memory (env_linker env) s) (\<lambda>s.
                   Option.bind (ata_init (env_bwrite env) (env_buf env) (init_interrupt (env_stub env) s)) (\<lambda>s.
                     Some (start_tasks env s)))))"

subsection \<open>What a phase leaves alone\<close>

text \<open>A relation between the states before and after, kept by doing nothing and by one step after the
  other, is kept by every sequence of steps.\<close>

locale step_relation =
  fixes kept :: "'s \<Rightarrow> 's \<Rightarrow> bool"
  assumes kept_refl: "kept s s"
    and kept_trans: "kept s t \<Longrightarrow> kept t u \<Longrightarrow> kept s u"
begin

lemma kept_fold: "(\<And>x s. kept s (f x s)) \<Longrightarrow> kept s (fold f xs s)"
  by (induction xs arbitrary: s) (auto intro: kept_refl kept_trans)

lemma kept_bind:
  "Option.bind x f = Some u \<Longrightarrow> (\<And>t. x = Some t \<Longrightarrow> kept s t) \<Longrightarrow> (\<And>t. f t = Some u \<Longrightarrow> kept t u) \<Longrightarrow> kept s u"
  by (cases x) (auto intro: kept_trans)

end

fun is_message :: "event \<Rightarrow> bool" where
  "is_message (Printk c fmt args) = True"
| "is_message _ = False"

text \<open>The memory phases print, and change nothing but the memory management.\<close>

definition memory_phase :: "'a mm_state_scheme \<Rightarrow> 'a mm_state_scheme \<Rightarrow> bool" where
  "memory_phase s t \<longleftrightarrow> dev t = dev s \<and> reads t = reads s \<and> mm_state.more t = mm_state.more s \<and>
     (\<exists>es. trace t = trace s @ es \<and> list_all is_message es)"

text \<open>The disk driver prints, uses the ports of its disk, and changes nothing but the byte memory.\<close>

fun disk_event :: "event \<Rightarrow> bool" where
  "disk_event (Out8 p v) = (0x1F0 \<le> p \<and> p \<le> 0x1F7)"
| "disk_event (In8 p v) = (p = 0x1F7)"
| "disk_event (In16 p v) = (p = 0x1F0)"
| "disk_event (Out32 p v) = (p = 0x1F0)"
| "disk_event (Printk c fmt args) = True"
| "disk_event _ = False"

definition disk_phase :: "'a ata_state_scheme \<Rightarrow> 'a ata_state_scheme \<Rightarrow> bool" where
  "disk_phase s t \<longleftrightarrow> t = s\<lparr>trace := trace t, reads := reads t, ram := ram t\<rparr> \<and>
     (\<exists>es. trace t = trace s @ es \<and> list_all disk_event es)"

text \<open>Interrupt setup writes the gates and talks to the outside.\<close>

definition gate_phase :: "'a gate_state_scheme \<Rightarrow> 'a gate_state_scheme \<Rightarrow> bool" where
  "gate_phase s t \<longleftrightarrow> t = s\<lparr>trace := trace t, IDT_Table := IDT_Table t\<rparr>"

interpretation gates: step_relation gate_phase
proof
  show "gate_phase s s" for s :: "'a gate_state_scheme"
    by (simp add: gate_phase_def)
  show "gate_phase s u" if "gate_phase s t" "gate_phase t u" for s t u :: "'a gate_state_scheme"
  proof -
    have t: "t = s\<lparr>trace := trace t, IDT_Table := IDT_Table t\<rparr>"
      and u: "u = t\<lparr>trace := trace u, IDT_Table := IDT_Table u\<rparr>"
      using that by (simp_all add: gate_phase_def)
    have "u = s\<lparr>trace := trace u, IDT_Table := IDT_Table u\<rparr>"
      by (subst u, subst t) simp
    then show ?thesis by (simp only: gate_phase_def)
  qed
qed

interpretation memory: step_relation memory_phase
proof
  show "memory_phase s s" for s :: "'a mm_state_scheme"
    by (simp add: memory_phase_def)
  show "memory_phase s u" if "memory_phase s t" "memory_phase t u" for s t u :: "'a mm_state_scheme"
    using that by (auto simp: memory_phase_def)
qed

interpretation disk: step_relation disk_phase
proof
  show "disk_phase s s" for s :: "'a ata_state_scheme"
    by (simp add: disk_phase_def)
  show "disk_phase s u" if "disk_phase s t" "disk_phase t u" for s t u :: "'a ata_state_scheme"
  proof -
    have t: "t = s\<lparr>trace := trace t, reads := reads t, ram := ram t\<rparr>"
      and u: "u = t\<lparr>trace := trace u, reads := reads u, ram := ram u\<rparr>"
      using that by (simp_all add: disk_phase_def)
    have "u = s\<lparr>trace := trace u, reads := reads u, ram := ram u\<rparr>"
      by (subst u, subst t) simp
    with that show ?thesis by (auto simp: disk_phase_def)
  qed
qed

subsection \<open>The memory phases\<close>

lemma memory_phase_messages:
  "dev t = dev s \<Longrightarrow> reads t = reads s \<Longrightarrow> mm_state.more t = mm_state.more s \<Longrightarrow>
    trace t = trace s @ es \<Longrightarrow> list_all is_message es \<Longrightarrow> memory_phase s t"
  by (auto simp: memory_phase_def)

lemma mm_more_emit [simp]: "mm_state.more (emit e s) = mm_state.more s"
  by (simp add: emit_def)

lemma record_entry_phase: "memory_phase s (record_entry i e s)"
  by (rule memory_phase_messages) (simp_all add: record_entry_def log_printf_def, simp)

lemma record_entries_phase: "memory_phase s (record_entries i es s)"
proof (induction es arbitrary: i s)
  case (Cons e es)
  from memory.kept_trans [OF record_entry_phase Cons.IH] show ?case by simp
qed (simp add: memory.kept_refl)

lemma take_tag_phase: "memory_phase s (take_tag t s)"
proof (cases t)
  case (MemoryMap es)
  let ?t = "record_entries 0 es s"
  have "memory_phase ?t (?t\<lparr>gmdsc := g\<rparr>)" for g by (simp add: memory_phase_def)
  then show ?thesis
    unfolding MemoryMap take_tag.simps Let_def by (rule memory.kept_trans [OF record_entries_phase])
qed (simp add: memory.kept_refl)

lemma place_tables_phase: "memory_phase s (place_tables ld s)"
  by (rule memory_phase_messages)
    (simp_all add: place_tables_def page_bitmap_init_def pages_struct_init_def zones_struct_init_def Let_def
      kinfo_def kdebug_def log_printf_def log_color_printf_def, simp)

lemma frames_loop_phase: "frames_loop start z len j p s = Some t \<Longrightarrow> memory_phase s t"
proof (rule frames_loop.raw_induct [where P = "\<lambda>start z len j p s t. memory_phase s t"])
  fix f :: "u64 \<Rightarrow> u64 \<Rightarrow> u64 \<Rightarrow> u32 \<Rightarrow> u64 \<Rightarrow> 'a mm_state_scheme \<Rightarrow> 'a mm_state_scheme option"
    and start z len j p s t
  assume IH: "\<And>start z len j p s t. f start z len j p s = Some t \<Longrightarrow> memory_phase s t"
    and step: "(if ucast j < len then f start z len (j + 1) (p + 1) (frame_setup start z j p s) else Some s) = Some t"
  have "memory_phase s (frame_setup start z j p s)"
    by (simp add: memory_phase_def frame_setup_def Let_def)
  with IH step show "memory_phase s t"
    by (auto split: if_splits intro: memory.kept_refl memory.kept_trans)
qed

lemma zone_setup_phase: "zone_setup z e s = Some t \<Longrightarrow> memory_phase s t"
  unfolding zone_setup_def Let_def by (drule frames_loop_phase) (simp add: memory_phase_def)

lemma zones_loop_phase: "zones_loop i zone_idx s = Some t \<Longrightarrow> memory_phase s t"
proof (rule zones_loop.raw_induct [where P = "\<lambda>i zone_idx s t. memory_phase s t"])
  fix f :: "u32 \<Rightarrow> u32 \<Rightarrow> 'a mm_state_scheme \<Rightarrow> 'a mm_state_scheme option" and i zone_idx s t
  assume IH: "\<And>i zone_idx s t. f i zone_idx s = Some t \<Longrightarrow> memory_phase s t"
    and step: "(if ucast i < e820_num (gmdsc s) then
        (let e = e820 (gmdsc s) (ucast i)
         in if e820_type e \<noteq> E820_TYPE_AVAILABLE then f (i + 1) zone_idx s
            else if range_end e \<le> range_start e then f (i + 1) zone_idx s
            else Option.bind (zone_setup (ucast zone_idx) e s) (f (i + 1) (zone_idx + 1)))
      else Some s) = Some t"
  show "memory_phase s t"
  proof (cases "\<exists>u z e. zone_setup z e s = Some u \<and> f (i + 1) (zone_idx + 1) u = Some t")
    case True
    then show ?thesis using IH zone_setup_phase memory.kept_trans by blast
  next
    case False
    with step have "f (i + 1) zone_idx s = Some t \<or> t = s"
      by (fastforce simp: Let_def bind_eq_Some_conv split: if_splits)
    then show ?thesis using IH memory.kept_refl by blast
  qed
qed

lemma page_init_phase: "memory_phase s (page_init f flags s)"
  by (simp add: memory_phase_def page_init_def Let_def)

lemma init_memory_phase: "init_memory ld s = Some t \<Longrightarrow> memory_phase s t"
proof -
  assume "init_memory ld s = Some t"
  then obtain u where u: "zones_loop 0 0 (place_tables ld s) = Some u"
    and t: "t = fold (\<lambda>i. page_init i kernel_page_flags) (kernel_frames (gmdsc u)) u"
    by (auto simp: init_memory_def construct_mem_struct_def)
  have "memory_phase s u"
    by (rule memory.kept_trans [OF place_tables_phase zones_loop_phase [OF u]])
  moreover have "memory_phase u t"
    unfolding t by (rule memory.kept_fold) (rule page_init_phase)
  ultimately show ?thesis by (rule memory.kept_trans)
qed

subsection \<open>The disk phase\<close>

lemma disk_phase_events:
  "t = s\<lparr>trace := trace t, reads := reads t, ram := ram t\<rparr> \<Longrightarrow> trace t = trace s @ es \<Longrightarrow> list_all disk_event es \<Longrightarrow>
    disk_phase s t"
  by (auto simp: disk_phase_def)

lemma polled_phase:
  assumes "polled s t"
  shows "disk_phase s t"
proof -
  have "t = s\<lparr>trace := trace t, reads := reads t, ram := ram t\<rparr>"
    using assms by (cases s; cases t) (auto simp: polled_def)
  moreover obtain es where "trace t = trace s @ es" "set es \<subseteq> range (In8 0x1F7)"
    using assms by (auto simp: polled_def)
  ultimately show ?thesis by (auto simp: disk_phase_def list_all_iff)
qed

lemmas wait_phases = polled_phase [OF conjunct1 [OF wait_BSY_polls]] polled_phase [OF conjunct1 [OF wait_DRQ_polls]]

lemma emit_phase: "disk_event e \<Longrightarrow> disk_phase s (emit e s)"
  by (simp add: disk_phase_def emit_def)

lemma ata_command_phase: "disk_phase s (ata_command LBA n cmd s)"
  by (rule disk_phase_events [OF _ ata_command_trace]) (simp_all add: ata_command_def io_out8_def emit_def Let_def)

lemma read_word_phase: "disk_phase s (read_word target i s)"
  by (simp add: disk_phase_def read_word_def io_in16_def emit_def Let_def)

lemma write_word_phase: "disk_phase s (write_word bytes i s)"
  by (simp add: write_word_def io_out32_def emit_phase)

lemma show_buf_phase: "disk_phase s (show_buf buf i s)"
  by (simp add: disk_phase_def show_buf_def log_err_printf_def emit_def Let_def)

lemma read_loop_phase: "read_loop n target s = Some t \<Longrightarrow> disk_phase s t"
proof (induction n arbitrary: target s)
  case (Suc n)
  then obtain u v where u: "ATA_wait_BSY s = Some u" and v: "ATA_wait_DRQ u = Some v"
    and rest: "read_loop n (target + 512) (fold (read_word target) [0..<256] v) = Some t"
    by (auto simp: bind_eq_Some_conv)
  have "disk_phase v (fold (read_word target) [0..<256] v)"
    by (rule disk.kept_fold) (rule read_word_phase)
  from disk.kept_trans [OF wait_phases(1) [OF u] disk.kept_trans [OF wait_phases(2) [OF v] this]]
  show ?case by (rule disk.kept_trans) (rule Suc.IH [OF rest])
qed (simp add: disk.kept_refl)

lemma write_loop_phase: "write_loop n bytes s = Some t \<Longrightarrow> disk_phase s t"
proof (induction n arbitrary: s)
  case (Suc n)
  then obtain u v where u: "ATA_wait_BSY s = Some u" and v: "ATA_wait_DRQ u = Some v"
    and rest: "write_loop n bytes (fold (write_word bytes) [0..<256] v) = Some t"
    by (auto simp: bind_eq_Some_conv)
  have "disk_phase v (fold (write_word bytes) [0..<256] v)"
    by (rule disk.kept_fold) (rule write_word_phase)
  from disk.kept_trans [OF wait_phases(1) [OF u] disk.kept_trans [OF wait_phases(2) [OF v] this]]
  show ?case by (rule disk.kept_trans) (rule Suc.IH [OF rest])
qed (simp add: disk.kept_refl)

lemma transfer_phases:
  "read_sectors_ATA_PIO target LBA n s = Some t \<Longrightarrow> disk_phase s t"
  "write_sectors_ATA_PIO LBA n bytes s = Some t \<Longrightarrow> disk_phase s t"
  unfolding read_sectors_ATA_PIO_def write_sectors_ATA_PIO_def
  by (erule disk.kept_bind, erule wait_phases(1),
      rule disk.kept_trans [OF ata_command_phase], erule read_loop_phase write_loop_phase)+

lemma ata_init_phase:
  assumes "ata_init bwrite buf s = Some t"
  shows "disk_phase s t"
proof -
  let ?s = "s\<lparr>ram := memset (VIR2PHY bwrite) (ucast (0xABCDEF12 :: u32)) 128 (ram s)\<rparr>"
  from assms obtain u v where u: "write_sectors_ATA_PIO 0 1 bwrite ?s = Some u"
    and v: "read_sectors_ATA_PIO (ucast buf) 0 1 u = Some v"
    and t: "t = log_err_printf [newline] [] (fold (show_buf buf) [0..<10] v)"
    by (auto simp: ata_init_def Let_def bind_eq_Some_conv)
  have "disk_phase v (fold (show_buf buf) [0..<10] v)"
    by (rule disk.kept_fold) (rule show_buf_phase)
  then have "disk_phase v t"
    unfolding t log_err_printf_def by (rule disk.kept_trans) (simp add: emit_phase)
  moreover have "disk_phase s ?s" by (simp add: disk_phase_def)
  ultimately show ?thesis
    using transfer_phases(2) [OF u] transfer_phases(1) [OF v] disk.kept_trans by blast
qed

subsection \<open>The machine between the phases\<close>

lemma record_entry_descriptor:
  "gmdsc (record_entry i e s) = (gmdsc s)\<lparr>e820 := (e820 (gmdsc s))(ucast i := e)\<rparr>"
  by (simp add: record_entry_def log_printf_def)

lemma record_entries_descriptor:
  "gmdsc s = gmdsc t \<Longrightarrow> gmdsc (record_entries i es s) = gmdsc (record_entries i es t)"
proof (induction es arbitrary: i s t)
  case (Cons e es)
  have "gmdsc (record_entry i e s) = gmdsc (record_entry i e t)"
    using Cons.prems by (simp only: record_entry_descriptor)
  from Cons.IH [OF this] show ?case by simp
qed simp

lemma take_tags_descriptor:
  "gmdsc s = gmdsc t \<Longrightarrow> gmdsc (fold take_tag tags s) = gmdsc (fold take_tag tags t)"
proof (induction tags arbitrary: s t)
  case (Cons tag tags)
  have "gmdsc (take_tag tag s) = gmdsc (take_tag tag t)"
    using Cons.prems record_entries_descriptor [OF Cons.prems] by (cases tag) (simp_all add: Let_def)
  from Cons.IH [OF this] show ?case by simp
qed simp

lemma map_taken_entries:
  assumes "map_taken g es" "length es \<le> 32"
  shows "map_entries g 0 = es"
proof -
  have "unat (e820_num g) = length es" using assms by (simp add: map_taken_def unat_of_nat_u64)
  then show ?thesis using assms(1)
    by (intro nth_equalityI) (simp_all add: map_entries_def map_taken_def)
qed

lemma books_cong:
  assumes "bits s = bits t" "pages s = pages t" "zones s = zones t" "gmdsc s = gmdsc t"
  shows "books_right s = books_right t" "owned_frames s = owned_frames t" "used_frames s = used_frames t"
proof -
  have f: "frames_of s z = frames_of t z" "used_of s z = used_of t z" for z
    using assms by (simp_all add: frames_of_def used_of_def)
  then show "owned_frames s = owned_frames t" "used_frames s = used_frames t"
    using assms by (simp_all add: owned_frames_def used_frames_def)
  then show "books_right s = books_right t"
    using assms f by (simp add: books_right_def zone_counted_def frame_recorded_def)
qed

lemma set_gate_phase: "gate_phase s (set_intr_gate n ist addr s)" "gate_phase s (emit e s)"
  by (simp_all add: gate_phase_def set_intr_gate_def set_gate_def emit_def)

lemma init_interrupt_phase: "gate_phase s (init_interrupt stub s)"
proof -
  have gates: "gate_phase s (set_irq_gates stub s)" for s :: "'a gate_state_scheme"
    unfolding set_irq_gates_def by (rule gates.kept_fold) (rule set_gate_phase)
  have emit: "gate_phase s t \<Longrightarrow> gate_phase s (emit e t)" for s t :: "'a gate_state_scheme" and e
    by (rule gates.kept_trans [OF _ set_gate_phase(2)])
  show ?thesis
    unfolding init_interrupt_def Let_def port_defs message_defs
    by (rule emit)+ (rule gates)
qed

lemma gate_phase_fields:
  assumes "gate_phase s t"
  shows "dev t = dev s" "gmdsc t = gmdsc s" "bits t = bits s" "pages t = pages s" "zones t = zones s"
    "gate_state.more t = gate_state.more s"
proof -
  have t: "t = s\<lparr>trace := trace t, IDT_Table := IDT_Table t\<rparr>" using assms by (simp only: gate_phase_def)
  show "dev t = dev s" "gmdsc t = gmdsc s" "bits t = bits s" "pages t = pages s" "zones t = zones s"
    "gate_state.more t = gate_state.more s"
    by (subst t, simp)+
qed

lemma disk_phase_fields:
  assumes "disk_phase s t"
  shows "IDT_Table t = IDT_Table s" "gmdsc t = gmdsc s" "bits t = bits s" "pages t = pages s" "zones t = zones s"
    "ata_state.more t = ata_state.more s"
proof -
  have t: "t = s\<lparr>trace := trace t, reads := reads t, ram := ram t\<rparr>" using assms by (simp only: disk_phase_def)
  show "IDT_Table t = IDT_Table s" "gmdsc t = gmdsc s" "bits t = bits s" "pages t = pages s" "zones t = zones s"
    "ata_state.more t = ata_state.more s"
    by (subst t, simp)+
qed

lemma memory_phase_core: "memory_phase s t \<Longrightarrow> core t = core s"
  by (cases s; cases t) (simp add: memory_phase_def)

lemma core_cong: "gate_state.more s = gate_state.more t \<Longrightarrow> core s = core t"
  by (cases s; cases t) simp

lemma core_cong_ata: "ata_state.more s = ata_state.more t \<Longrightarrow> core s = core t"
  by (cases s; cases t) simp

lemma init_interrupt_quiet:
  "\<exists>es. trace (init_interrupt stub s) = trace s @ es @ [Sti] \<and> Sti \<notin> set es \<and> filter is_port_read es = []"
  by (simp add: init_interrupt_trace)

lemma info_walk:
  assumes "holds m (info + 8) (info_bytes tags)" "list_all tag_ok tags"
    and "unat (info + 8) + length (info_bytes tags) < 2 ^ 64" "last_map tags = Some es"
  shows "parse_sys_info m info s = Some (Inr (fold take_tag tags s))" "map_entries (gmdsc (fold take_tag tags s)) 0 = es"
    "memory_phase s (fold take_tag tags s)"
proof -
  show "parse_sys_info m info s = Some (Inr (fold take_tag tags s))"
    using parse_tags_info [OF assms(1-3)] by (simp add: parse_sys_info_def MULTIBOOT_TAG_ALIGN_def)
  have "last_map tags = Some es \<Longrightarrow> list_all tag_ok tags \<Longrightarrow> length es \<le> 32" for tags
    by (induction tags) (auto split: option.splits boot_tag.splits)
  then show "map_entries (gmdsc (fold take_tag tags s)) 0 = es"
    using map_taken_entries [OF take_tags_map [OF assms(2,4)]] assms(2,4) by blast
  show "memory_phase s (fold take_tag tags s)" by (rule memory.kept_fold) (rule take_tag_phase)
qed

lemma phase_events:
  "list_all is_message es \<Longrightarrow> Sti \<notin> set es \<and> filter is_port_read es = []"
  "list_all disk_event es \<Longrightarrow> Sti \<notin> set es \<and> filter controller_write es = []"
proof -
  have "is_message e \<Longrightarrow> e \<noteq> Sti \<and> \<not> is_port_read e" for e by (cases e) simp_all
  then show "list_all is_message es \<Longrightarrow> Sti \<notin> set es \<and> filter is_port_read es = []"
    by (auto simp: list_all_iff filter_empty_conv)
  have "p \<noteq> 0x20 \<and> p \<noteq> 0x21 \<and> p \<noteq> 0xa0 \<and> p \<noteq> 0xa1" if "0x1F0 \<le> p" for p :: u16
    using that by auto
  then have "disk_event e \<Longrightarrow> e \<noteq> Sti \<and> \<not> controller_write e" for e by (cases e) simp_all
  then show "list_all disk_event es \<Longrightarrow> Sti \<notin> set es \<and> filter controller_write es = []"
    by (auto simp: list_all_iff filter_empty_conv)
qed

text \<open>The states of a successful boot: behind the walk over the tags, the memory, the interrupts, the disk.\<close>

lemma boot_phases:
  fixes s :: "'a sched_state_scheme" and tags :: "boot_tag list"
  defines "s0 \<equiv> load_TR 10 (emit ClearScreen s)" and "g \<equiv> gmdsc (fold take_tag tags s)"
  assumes loader: "magic = MULTIBOOT2_BOOTLOADER_MAGIC" "info AND 7 = 0"
    and walk: "holds (mapped (ram s)) (info + 8) (info_bytes tags)" "list_all tag_ok tags"
      "unat (info + 8) + length (info_bytes tags) < 2 ^ 64" "last_map tags = Some es"
    and fits: "map_ok (placed (env_linker env) g)" "unat (sym_start_kernel (env_linker env)) < 2 ^ 43"
      "unat (end_of_struct (placed (env_linker env) g)) < 2 ^ 43"
      "kernel_range (env_linker env) g \<subseteq> usable_frames es"
    and disk: "responsive s"
  obtains s1 s2 s3 where "memory_phase s0 s1" "gmdsc s1 = g" "init_memory (env_linker env) s1 = Some s2"
    "books_right s2" "gmdsc s2 = placed (env_linker env) g" "owned_frames s2 = usable_frames es"
    "used_frames s2 = kernel_range (env_linker env) g" "memory_phase s1 s2"
    "disk_phase (init_interrupt (env_stub env) s2) s3" "kernel_start env magic info s = Some (start_tasks env s3)"
    "ata_init (env_bwrite env) (env_buf env) (init_interrupt (env_stub env) s2) = Some s3"
    "responsive (init_interrupt (env_stub env) s2)" "map_entries (gmdsc s1) 0 = es" "s1 = fold take_tag tags s0"
proof -
  have ram0: "ram s0 = ram s" "gmdsc s0 = gmdsc s" by (simp_all add: s0_def load_TR_def)
  define s1 where "s1 = fold take_tag tags s0"
  note walked = info_walk [OF walk, of s0, folded s1_def]
  have g: "gmdsc s1 = g" unfolding s1_def g_def by (rule take_tags_descriptor) (rule ram0(2))
  obtain s2 where s2: "init_memory (env_linker env) s1 = Some s2" "books_right s2"
    "gmdsc s2 = placed (env_linker env) g" "owned_frames s2 = usable_frames es"
    "used_frames s2 = kernel_range (env_linker env) g"
    using init_memory_books [of "env_linker env" s1] fits walked(2) by (auto simp: g)
  note phase2 = init_memory_phase [OF s2(1)]
  have "dev s2 = dev s"
    using walked(3) phase2 by (simp add: memory_phase_def s0_def load_TR_def)
  then have "dev (init_interrupt (env_stub env) s2) = dev s"
    using gate_phase_fields(1) [OF init_interrupt_phase [of s2 "env_stub env"]] by simp
  then have "responsive (init_interrupt (env_stub env) s2)" using disk by (simp add: responsive_def)
  then obtain s3 where s3: "ata_init (env_bwrite env) (env_buf env) (init_interrupt (env_stub env) s2) = Some s3"
    using ata_init_effect by blast
  have "kernel_start env magic info s = Some (start_tasks env s3)"
    using loader walked(1) s2(1) s3
    by (simp add: kernel_start_def Let_def s0_def [symmetric] ram0)
  then show ?thesis
    using that [OF walked(3) g s2 phase2 ata_init_phase [OF s3]] s3
      \<open>responsive (init_interrupt (env_stub env) s2)\<close> walked(2) s1_def by blast
qed

subsection \<open>Properties\<close>

text \<open>C3: From the boot loader to the machine that task_init gets: when the loader's information holds a memory
  map that the kernel image fits in, and the disk answers, kernel_start prepares the machine and starts
  the tasks: the books of the page allocator are right, the zones own the map's available frames, the
  used ones are those of the kernel and its tables; every interrupt vector has its stub; and interrupts
  were enabled once, when memory and gates were ready and before the disk was first touched.\<close>

theorem boot_prepares_the_machine:
  assumes "magic = MULTIBOOT2_BOOTLOADER_MAGIC" "info AND 7 = 0"
    and "holds (mapped (ram s)) (info + 8) (info_bytes tags)" "list_all tag_ok tags"
    and "unat (info + 8) + length (info_bytes tags) < 2 ^ 64" "last_map tags = Some es"
    and "map_ok (placed (env_linker env) (gmdsc (fold take_tag tags s)))"
    and "unat (sym_start_kernel (env_linker env)) < 2 ^ 43"
    and "unat (end_of_struct (placed (env_linker env) (gmdsc (fold take_tag tags s)))) < 2 ^ 43"
    and "kernel_range (env_linker env) (gmdsc (fold take_tag tags s)) \<subseteq> usable_frames es"
    and "responsive s"
  shows "\<exists>s'. kernel_start env magic info s = Some (start_tasks env s') \<and>
    books_right s' \<and> owned_frames s' = usable_frames es \<and>
    used_frames s' = kernel_range (env_linker env) (gmdsc (fold take_tag tags s)) \<and>
    (\<forall>v. 0x20 \<le> v \<and> v \<le> 0x37 \<longrightarrow> gate_offset (IDT_Table s' v) = env_stub env (ucast v)) \<and>
    core s' = core s \<and>
    (\<exists>ms ds. trace s' = trace s @ ClearScreen # Ltr 0x50 # ms @ Sti # ds \<and> Sti \<notin> set (ms @ ds) \<and>
       filter is_port_read ms = [] \<and> filter controller_write ds = [])"
proof -
  obtain s1 s2 s3 where ph: "memory_phase (load_TR 10 (emit ClearScreen s)) s1" "memory_phase s1 s2"
    "disk_phase (init_interrupt (env_stub env) s2) s3" "kernel_start env magic info s = Some (start_tasks env s3)"
    and books: "books_right s2" "owned_frames s2 = usable_frames es"
      "used_frames s2 = kernel_range (env_linker env) (gmdsc (fold take_tag tags s))"
    using boot_phases [OF assms] by metis
  let ?i = "init_interrupt (env_stub env) s2"
  note fi = gate_phase_fields [OF init_interrupt_phase [of s2 "env_stub env"]]
  note fd = disk_phase_fields [OF ph(3)]
  have "books_right s3" "owned_frames s3 = usable_frames es"
    "used_frames s3 = kernel_range (env_linker env) (gmdsc (fold take_tag tags s))"
    using books books_cong [of s3 s2] by (simp_all add: fi fd)
  moreover have "gate_offset (IDT_Table s3 v) = env_stub env (ucast v)" if "0x20 \<le> v" "v \<le> 0x37" for v
    using that gate_parts [of "0x8E"] by (simp add: fd init_interrupt_gates irq_gates)
  moreover have "core s3 = core s"
    using memory_phase_core [OF ph(1)] memory_phase_core [OF ph(2)] core_cong [OF fi(6)] core_cong_ata [OF fd(6)]
    by (simp add: load_TR_def emit_def)
  moreover obtain es1 es2 ds where tr: "trace s1 = trace s @ [ClearScreen, Ltr 0x50] @ es1" "list_all is_message es1"
    "trace s2 = trace s1 @ es2" "list_all is_message es2" "trace s3 = trace ?i @ ds" "list_all disk_event ds"
    using ph by (auto simp: memory_phase_def disk_phase_def load_TR_def)
  moreover obtain irqs where irqs: "trace ?i = trace s2 @ irqs @ [Sti]" "Sti \<notin> set irqs" "filter is_port_read irqs = []"
    using init_interrupt_quiet by blast
  note quiet = phase_events(1) [OF tr(2)] phase_events(1) [OF tr(4)] phase_events(2) [OF tr(6)]
  have "trace s3 = trace s @ ClearScreen # Ltr 0x50 # (es1 @ es2 @ irqs) @ Sti # ds \<and>
      Sti \<notin> set ((es1 @ es2 @ irqs) @ ds) \<and> filter is_port_read (es1 @ es2 @ irqs) = [] \<and> filter controller_write ds = []"
    using tr(1,3,5) irqs quiet by simp
  then have "\<exists>ms ds. trace s3 = trace s @ ClearScreen # Ltr 0x50 # ms @ Sti # ds \<and> Sti \<notin> set (ms @ ds) \<and>
      filter is_port_read ms = [] \<and> filter controller_write ds = []"
    by blast
  ultimately show ?thesis using ph(4) by (intro exI [of _ s3] conjI allI impI) simp_all
qed

text \<open>A loader that reports one megabyte, with the kernel of MemInit in it.\<close>

definition small_tags :: "boot_tag list" where
  "small_tags = [MemoryMap [\<lparr>e820_addr = 0, e820_len = 0x100000, e820_type = 1\<rparr>]]"

definition small_env :: boot_env where
  "small_env = \<lparr>env_linker = small_linker, env_image = sample_image, env_stub = (\<lambda>v. 0xffff800002000000 + 16 * v),
     env_bwrite = 0xffff800000007000, env_buf = 0xffff800000007800, env_back = 0x1000,
     env_regs = 0xffff800002117e00\<rparr>"

definition loaded :: sched_state where
  "loaded = blank_tasks\<lparr>gmdsc := small_map, ram := store_bytes (\<lambda>_. 0) 0x10008 (info_bytes small_tags)\<rparr>"

lemma loaded_map: "gmdsc (fold take_tag small_tags loaded) = small_map"
proof -
  have "gmdsc (fold take_tag small_tags loaded) = small_map
      \<lparr>e820 := (e820 small_map)(0 := \<lparr>e820_addr = 0, e820_len = 0x100000, e820_type = 1\<rparr>),
       e820_num := 1, e820_available_size := 1\<rparr>"
    by (simp add: small_tags_def record_entry_descriptor E820_TYPE_AVAILABLE_def) (simp add: loaded_def)
  also have "\<dots> = small_map" by (simp add: small_map_def fun_upd_idem)
  finally show ?thesis .
qed

theorem boot_prepares_the_machine_witness:
  "\<exists>s'. kernel_start small_env 0x36d76289 0x10000 loaded = Some (start_tasks small_env s') \<and>
    books_right s' \<and> owned_frames s' = {f. f < 0x100} \<and> used_frames s' = {f. 0x10 \<le> f \<and> f < 0x1d}"
proof -
  have len: "length (info_bytes small_tags) = 48" by (simp add: info_bytes_def small_tags_def)
  have 1: "0x36d76289 = MULTIBOOT2_BOOTLOADER_MAGIC" by (simp add: MULTIBOOT2_BOOTLOADER_MAGIC_def)
  have 2: "(0x10000 :: u64) AND 7 = 0" by simp
  have g: "in_gigabyte (0x10000 + 8) 48" "VIR2PHY 0x10008 = 0x10008"
    by (simp_all add: in_gigabyte_def VIR2PHY_def KERNEL_VIRADDR_def)
  have 3: "holds (mapped (ram loaded)) (0x10000 + 8) (info_bytes small_tags)"
    using load_store_bytes [of "info_bytes small_tags" "\<lambda>_. 0" "0x10008"] len mapped_bytes [OF g(1), of "ram loaded"]
    by (simp add: holds_def loaded_def g(2))
  have 4: "list_all tag_ok small_tags" "last_map small_tags = Some [\<lparr>e820_addr = 0, e820_len = 0x100000, e820_type = 1\<rparr>]"
    by (simp_all add: small_tags_def)
  have 5: "unat ((0x10000 :: u64) + 8) + length (info_bytes small_tags) < 2 ^ 64" by (simp add: len)
  have env: "env_linker small_env = small_linker" by (simp add: small_env_def)
  have 6: "responsive loaded" by (auto simp: responsive_def loaded_def blank_tasks_def)
  note fits = small_map_ok small_kernel_inside [unfolded small_entries]
  have 7: "unat (sym_start_kernel small_linker) < 2 ^ 43" "unat (end_of_struct (placed small_linker small_map)) < 2 ^ 43"
    by (simp_all add: small_places)
  from boot_prepares_the_machine [OF 1 2 3 4(1) 5 4(2) _ _ _ _ 6, of small_env, unfolded env loaded_map,
      OF fits(1) 7 fits(2)]
  show ?thesis
    using small_usable_frames by (auto simp: small_kernel_range small_entries)
qed

text \<open>kernel_start refuses exactly a wrong magic number or an information that is not aligned to eight
  bytes.\<close>

theorem kernel_start_refuses:
  "kernel_start env magic info s = Some Refused \<longleftrightarrow>
     magic \<noteq> MULTIBOOT2_BOOTLOADER_MAGIC \<or> info AND 7 \<noteq> 0"
proof -
  have "start_tasks env t \<noteq> Refused" for t :: "'a sched_state_scheme"
    by (simp add: start_tasks_def split: sum.split fork_error.split)
  then show ?thesis
    by (auto simp: kernel_start_def Let_def bind_eq_Some_conv split: sum.splits boot_error.splits)
qed

end
