(* ===== verification/Launch.thy ===== *)
theory Launch
  imports Boot
begin

text \<open>
  From the boot loader to the first user program, on a machine whose memory map begins with usable memory at
  address 0, as every PC's does. Boot gives the machine that \<^verbatim>\<open>task_init\<close> starts from; here the first
  allocation on it is computed (Boot with PageAlloc), and with it the switch to the first task and its way
  into user mode (Sched): one run of the code of five source files.
\<close>

subsection \<open>The page structures after init_memory\<close>

lemma zone_setup_pages:
  assumes "zone_setup z e s = Some s'" "usable e" "range_fits (gmdsc s) e"
  shows "pages s' g = (if g \<in> range_frames e
     then \<lparr>phy_addr = push_bit 12 g, attribute = 0, ref_count = 0, age = 0, zone = Some z\<rparr> else pages s g)"
    "gmdsc s' = gmdsc s"
  using zone_setup_result [OF assms(2,3), of z] assms(1) by auto

lemma setup_zones_elsewhere:
  assumes "setup_zones es n s = Some s'" "\<forall>e \<in> set es. usable e \<longrightarrow> range_fits (gmdsc s) e"
    and "f \<notin> usable_frames es"
  shows "pages s' f = pages s f"
  using assms
proof (induction es arbitrary: n s)
  case (Cons e es)
  show ?case
  proof (cases "usable e")
    case True
    then obtain s1 where s1: "zone_setup (ucast n) e s = Some s1" "setup_zones es (n + 1) s1 = Some s'"
      using Cons.prems(1) by (auto simp: bind_eq_Some_conv)
    have f: "f \<notin> usable_frames es" "f \<notin> range_frames e"
      using Cons.prems(3) True by (auto simp: usable_frames_def)
    note s1p = zone_setup_pages [OF s1(1) True]
    show ?thesis
      using Cons.IH [OF s1(2) _ f(1)] s1p f(2) Cons.prems(2) True by simp
  next
    case False
    then show ?thesis using Cons by (auto simp: usable_frames_def)
  qed
qed simp

lemma setup_zones_first:
  assumes "setup_zones es n s = Some s'" "\<forall>e \<in> set es. usable e \<longrightarrow> range_fits (gmdsc s) e"
    and "ranges_apart es" "filter usable es = e # rest" "f \<in> range_frames e"
  shows "zone (pages s' f) = Some (ucast n)"
  using assms
proof (induction es arbitrary: n s)
  case (Cons d es)
  show ?case
  proof (cases "usable d")
    case True
    then have e: "d = e" using Cons.prems(4) by simp
    obtain s1 where s1: "zone_setup (ucast n) d s = Some s1" "setup_zones es (n + 1) s1 = Some s'"
      using Cons.prems(1) True by (auto simp: bind_eq_Some_conv)
    note s1p = zone_setup_pages [OF s1(1) True]
    have "f \<notin> usable_frames es"
      using Cons.prems(3,5) True e ranges_disjoint by (auto simp: usable_frames_def)
    then have "pages s' f = pages s1 f"
      using setup_zones_elsewhere [OF s1(2)] s1p(2) Cons.prems(2) True by simp
    then show ?thesis using s1p(1) Cons.prems(2,5) True e by simp
  next
    case False
    then show ?thesis using Cons by simp
  qed
qed simp

lemma page_inits_zone:
  "zone (pages (fold (\<lambda>f. page_init f flags) fs s) g) = zone (pages s g)"
  "phy_addr (pages (fold (\<lambda>f. page_init f flags) fs s) g) = phy_addr (pages s g)"
  by (induction fs arbitrary: s) auto

lemma last_frame_unusable: "- 1 \<notin> usable_frames es"
proof
  assume "- 1 \<in> usable_frames es"
  then obtain e where "(- 1 :: u64) < drop_bit 12 (range_end e)"
    by (auto simp: usable_frames_def range_frames_def)
  then show False using word_order.extremum [of "drop_bit 12 (range_end e)"] by (simp add: not_less [symmetric])
qed

lemma init_memory_pages:
  assumes "init_memory ld s = Some s'" "map_ok (placed ld (gmdsc s))"
  shows "phy_addr (pages s' (- 1)) = phy_addr (pages s (- 1))"
    and "filter usable (map_entries (gmdsc s) 0) = e # rest \<Longrightarrow> f \<in> range_frames e \<Longrightarrow> zone (pages s' f) = Some 0"
proof -
  let ?es = "map_entries (gmdsc s) 0" and ?p = "place_tables ld s"
  obtain s1 where s1: "setup_zones ?es 0 ?p = Some s1"
    "s' = fold (\<lambda>i. page_init i kernel_page_flags) (kernel_frames (gmdsc s1)) s1"
    using assms zones_loop_eq [of ?p 0 0]
    by (auto simp: init_memory_def construct_mem_struct_def gmdsc_place_tables map_ok_def)
  have fits: "\<forall>e \<in> set ?es. usable e \<longrightarrow> range_fits (gmdsc ?p) e" "ranges_apart ?es"
    using assms(2) by (simp_all add: map_ok_def gmdsc_place_tables)
  have "pages s1 (- 1) = pages ?p (- 1)"
    by (rule setup_zones_elsewhere [OF s1(1) fits(1) last_frame_unusable])
  also have "\<dots> = pages s (- 1)"
    using word_order.extremum [of "pages_size (placed ld (gmdsc s))"]
    by (simp add: pages_place_tables fill_table_def not_less [symmetric])
  finally show "phy_addr (pages s' (- 1)) = phy_addr (pages s (- 1))" by (simp add: s1(2) page_inits_zone)
  show "zone (pages s' f) = Some 0" if "filter usable ?es = e # rest" "f \<in> range_frames e"
    using setup_zones_first [OF s1(1) fits that] by (simp add: s1(2) page_inits_zone)
qed

subsection \<open>The first allocation\<close>

text \<open>A memory map whose first usable range starts at 0 and has the first 72 frames, with the frames that the
  scan looks at free of the kernel.\<close>

definition low_memory_free :: "e820_t list \<Rightarrow> u64 set \<Rightarrow> bool" where
  "low_memory_free es taken \<longleftrightarrow>
     (case filter usable es of
        [] \<Rightarrow> False
      | e # rest \<Rightarrow> range_start e = 0 \<and> 72 \<le> drop_bit 12 (range_end e)) \<and>
     (\<forall>f \<in> taken. 8 \<le> f \<and> (f < 64 \<or> 72 \<le> f))"

lemma unused_frame_free:
  "books_right s \<Longrightarrow> f \<in> owned_frames s \<Longrightarrow> f \<notin> used_frames s \<Longrightarrow> \<not> frame_used (bits s) f"
  by (auto simp: books_right_def frame_recorded_def used_frames_def)

lemma low_word: "n < 72 \<Longrightarrow> (of_nat n :: u64) < 72"
  by (simp add: word_less_nat_alt unat_of_nat_u64)

lemma free_count_8:
  assumes "books_right s" "\<forall>i < 8. of_nat i \<in> owned_frames s \<and> of_nat i \<notin> used_frames s \<and> zone (pages s (of_nat i)) = Some 0"
  shows "\<not> page_free_count (zones s (Some 0)) < of_nat 8"
proof -
  let ?F = "frames_of s (Some 0) - used_of s (Some 0)"
  have "zone_counted s (Some 0)"
    using assms(1) spec [OF assms(2), of 0] by (auto simp: books_right_def)
  then have count: "page_free_count (zones s (Some 0)) = of_nat (card ?F)" by (simp add: zone_counted_def)
  have "of_nat i \<in> ?F" if "i < 8" for i
    using assms(2) that by (auto simp: frames_of_def used_of_def owned_frames_def used_frames_def)
  then have "of_nat ` {0..<8 :: nat} \<subseteq> ?F" by auto
  moreover have "card (of_nat ` {0..<8 :: nat} :: u64 set) = 8"
  proof -
    have "inj_on (of_nat :: nat \<Rightarrow> u64) {0..<8}"
    proof (rule inj_onI)
      fix i j :: nat assume ij: "i \<in> {0..<8}" "j \<in> {0..<8}" and eq: "(of_nat i :: u64) = of_nat j"
      have "i < 2 ^ 64" "j < 2 ^ 64" using ij by simp_all
      then show "i = j" by (metis eq unat_of_nat_u64)
    qed
    then show ?thesis by (simp add: card_image)
  qed
  moreover have "finite ?F" by (simp add: frames_of_def)
  ultimately have ge: "8 \<le> card ?F" using card_mono [of ?F "of_nat ` {0..<8 :: nat}"] by simp
  have "?F \<subseteq> {f. 0 \<le> f \<and> f < pages_size (gmdsc s)}" by (auto simp: frames_of_def)
  then have "card ?F \<le> unat (pages_size (gmdsc s))"
    using card_mono [of "{f. 0 \<le> f \<and> f < pages_size (gmdsc s)}" ?F] card_u64_interval [of 0 "pages_size (gmdsc s)"] by simp
  then have "unat (of_nat (card ?F) :: u64) = card ?F"
    using unsigned_less [of "pages_size (gmdsc s)", where ?'a = nat] by (intro unat_of_nat_u64) simp
  then show ?thesis using ge by (simp add: count word_less_nat_alt)
qed

lemma first_allocation:
  assumes "books_right s" "owned_frames s = usable_frames es" "used_frames s = taken" "low_memory_free es taken"
    and zones: "\<And>e rest. filter usable es = e # rest \<Longrightarrow> zone_range (zones s (Some 0)) = entry_range e"
    and zone0: "\<And>e rest f. filter usable es = e # rest \<Longrightarrow> f \<in> range_frames e \<Longrightarrow> zone (pages s f) = Some 0"
    and same: "bits t = bits s" "pages t = pages s" "zones t = zones s"
  shows "\<exists>t'. alloc_pages ZONE_NORMAL 8 flags t = (Some (- 1), t') \<and> phy_addr (pages t' (- 1)) = phy_addr (pages s (- 1))"
proof -
  obtain e rest where e: "filter usable es = e # rest" "range_start e = 0" "72 \<le> drop_bit 12 (range_end e)"
    using assms(4) by (auto simp: low_memory_free_def split: list.splits)
  have above: "8 \<le> f \<and> (f < 64 \<or> 72 \<le> f)" if "f \<in> taken" for f
    using assms(4) that by (simp add: low_memory_free_def)
  have low: "of_nat i \<in> range_frames e" if "i < 72" for i
    using low_word [OF that] e(2,3) by (simp add: range_frames_def)
  have "e \<in> set (filter usable es)" by (simp add: e(1))
  then have "e \<in> set es" "usable e" by auto
  then have owned: "of_nat i \<in> owned_frames s" if "i < 72" for i
    using low [OF that] assms(2) by (auto simp: usable_frames_def)
  have unused: "of_nat i \<notin> used_frames s" if "i < 8 \<or> 64 \<le> i \<and> i < 72" for i
  proof
    assume "of_nat i \<in> used_frames s"
    then have "8 \<le> (of_nat i :: u64) \<and> ((of_nat i :: u64) < 64 \<or> 72 \<le> (of_nat i :: u64))" using above assms(3) by simp
    moreover have "unat (of_nat i :: u64) = i" using that by (intro unat_of_nat_u64) auto
    ultimately show False using that by (auto simp: word_le_nat_alt word_less_nat_alt)
  qed
  have clear: "\<not> frame_used (bits s) (of_nat i)" if "i < 8 \<or> 64 \<le> i \<and> i < 72" for i
    using unused_frame_free [OF assms(1) owned unused] that by auto
  have free: "free_run (bits s) 0 8" "free_run (bits s) 64 8"
    using clear unfolding free_run_def by (simp_all del: of_nat_add)
  have "\<not> page_free_count (zones s (Some 0)) < of_nat 8"
    by (rule free_count_8 [OF assms(1)]) (use owned unused zone0 [OF e(1) low] in auto)
  moreover have "zone_first t = 0"
    using zones [OF e(1)] by (simp add: zone_first_def same zone_range_def entry_range_def e(2))
  ultimately have "alloc_pages ZONE_NORMAL (int 8) flags t = (Some (- 1), take_pages (- 1) (int 8) flags t)"
    using free by (intro zone_at_zero_returns_page_minus_one) (simp_all add: same)
  then show ?thesis by (simp add: take_pages_def page_inits_zone same)
qed

subsection \<open>The machine that task_init gets\<close>

lemma ram_more: "mm_state.more s = mm_state.more t \<Longrightarrow> ram s = ram t"
  by (cases s; cases t) simp

lemma ram_more_gate: "gate_state.more s = gate_state.more t \<Longrightarrow> ram s = ram t"
  by (cases s; cases t) simp

lemma mm_more_load_TR: "mm_state.more (load_TR n (emit e s)) = mm_state.more s"
  by (simp add: load_TR_def emit_def)

lemma pages_load_TR: "pages (load_TR n (emit e s)) = pages s"
  by (simp add: load_TR_def emit_def)

lemma take_tag_pages: "pages (fold take_tag tags s) = pages s"
proof -
  have "pages (record_entries i es s) = pages s" for i es and s :: "'a mm_state_scheme"
    by (induction es arbitrary: i s) (simp_all add: record_entry_def log_printf_def emit_def)
  then have "pages (take_tag t s) = pages s" for t and s :: "'a mm_state_scheme"
    by (cases t) (simp_all add: Let_def)
  then show ?thesis by (induction tags arbitrary: s) simp_all
qed

text \<open>What the disk test leaves in the byte memory: its two arrays are overwritten.\<close>

definition after_disk_test :: "boot_env \<Rightarrow> u16 list \<Rightarrow> mem \<Rightarrow> mem" where
  "after_disk_test env ws m =
     store_bytes (memset (VIR2PHY (env_bwrite env)) 0x12 128 m) (take_bit 32 (env_buf env)) (words_bytes ws)"

lemma boot_machine:
  fixes s :: "'a sched_state_scheme" and tags :: "boot_tag list"
  defines "g \<equiv> gmdsc (fold take_tag tags s)"
  assumes "magic = MULTIBOOT2_BOOTLOADER_MAGIC" "info AND 7 = 0"
    and "holds (mapped (ram s)) (info + 8) (info_bytes tags)" "list_all tag_ok tags"
    and "unat (info + 8) + length (info_bytes tags) < 2 ^ 64" "last_map tags = Some es"
    and "map_ok (placed (env_linker env) g)" "unat (sym_start_kernel (env_linker env)) < 2 ^ 43"
    and "unat (end_of_struct (placed (env_linker env) g)) < 2 ^ 43"
    and "kernel_range (env_linker env) g \<subseteq> usable_frames es" "responsive s"
    and low: "low_memory_free es (kernel_range (env_linker env) g)"
  obtains s' ws where "kernel_start env magic info s = Some (start_tasks env s')" "core s' = core s"
    "ram s' = after_disk_test env ws (ram s)" "length ws = 256"
    "\<And>v. 0x20 \<le> v \<Longrightarrow> v \<le> 0x37 \<Longrightarrow> IDT_Table s' v = gate_words 0x8E 0 (env_stub env (ucast v))"
    "\<And>t :: 'a sched_state_scheme. bits t = bits s' \<Longrightarrow> pages t = pages s' \<Longrightarrow> zones t = zones s' \<Longrightarrow>
      \<exists>t'. alloc_pages ZONE_NORMAL 8 flags t = (Some (- 1), t') \<and> phy_addr (pages t' (- 1)) = phy_addr (pages s (- 1))"
proof -
  obtain s1 s2 s3 where ph: "memory_phase (load_TR 10 (emit ClearScreen s)) s1" "memory_phase s1 s2"
    "disk_phase (init_interrupt (env_stub env) s2) s3" "kernel_start env magic info s = Some (start_tasks env s3)"
    and init: "init_memory (env_linker env) s1 = Some s2"
    and books: "books_right s2" "owned_frames s2 = usable_frames es" "used_frames s2 = kernel_range (env_linker env) g"
    and ata: "ata_init (env_bwrite env) (env_buf env) (init_interrupt (env_stub env) s2) = Some s3"
      "responsive (init_interrupt (env_stub env) s2)"
    and s1: "map_entries (gmdsc s1) 0 = es" "gmdsc s1 = g" "s1 = fold take_tag tags (load_TR 10 (emit ClearScreen s))"
    by (rule boot_phases [OF assms(2-12)[unfolded g_def], folded g_def], rule that) assumption+
  note fi = gate_phase_fields [OF init_interrupt_phase [of s2 "env_stub env"]]
  note fd = disk_phase_fields [OF ph(3)]
  have core: "core s3 = core s"
    using memory_phase_core [OF ph(1)] memory_phase_core [OF ph(2)] core_cong [OF fi(6)] core_cong_ata [OF fd(6)]
    by (simp add: load_TR_def emit_def)
  have "ram (init_interrupt (env_stub env) s2) = ram s"
    using ph(1,2) ram_more_gate [OF fi(6)] ram_more [of s2 s]
    by (simp add: memory_phase_def mm_more_load_TR)
  then obtain ws where ram: "ram s3 = after_disk_test env ws (ram s)" "length ws = 256"
    using ata_init_effect [OF ata(2), of "env_bwrite env" "env_buf env"] ata(1) by (auto simp: after_disk_test_def)
  have ok: "map_ok (placed (env_linker env) (gmdsc s1))" using assms(8) by (simp add: s1(2))
  have minus1: "phy_addr (pages s3 (- 1)) = phy_addr (pages s (- 1))"
    using init_memory_pages(1) [OF init ok] by (simp add: fd fi s1(3) take_tag_pages pages_load_TR)
  have books3: "books_right s3" "owned_frames s3 = usable_frames es" "used_frames s3 = kernel_range (env_linker env) g"
    using books books_cong [of s3 s2] by (simp_all add: fi fd)
  have zones: "zone_range (zones s3 (Some 0)) = entry_range e" if "filter usable es = e # rest" for e rest
    using init_memory_ranges [OF init ok, of 0] that by (simp add: fi fd s1(1))
  have zone0: "zone (pages s3 f) = Some 0" if "filter usable es = e # rest" "f \<in> range_frames e" for e rest f
    using init_memory_pages(2) [OF init ok, of e rest f] that by (simp add: fi fd s1(1))
  have "\<exists>t'. alloc_pages ZONE_NORMAL 8 flags t = (Some (- 1), t') \<and> phy_addr (pages t' (- 1)) = phy_addr (pages s (- 1))"
    if "bits t = bits s3" "pages t = pages s3" "zones t = zones s3" for t :: "'a sched_state_scheme"
    using first_allocation [OF books3 low zones zone0 that] minus1 by simp
  moreover have "IDT_Table s3 v = gate_words 0x8E 0 (env_stub env (ucast v))" if "0x20 \<le> v" "v \<le> 0x37" for v
    using that by (simp add: fd init_interrupt_gates irq_gates)
  ultimately show ?thesis using that [OF ph(4) core ram] by blast
qed

subsection \<open>What the task code leaves alone\<close>

text \<open>Up to the copy of the user program the task code prints, and does not touch the byte memory or the gates.\<close>

definition task_phase :: "'a sched_state_scheme \<Rightarrow> 'a sched_state_scheme \<Rightarrow> bool" where
  "task_phase s t \<longleftrightarrow> ram t = ram s \<and> IDT_Table t = IDT_Table s \<and> (\<exists>es. trace t = trace s @ es \<and> list_all is_message es)"

interpretation tasks: step_relation task_phase
  by unfold_locales (auto simp: task_phase_def)

lemma task_phase_steps:
  "task_phase s (poke a v s)" "task_phase s (on_core f s)" "task_phase s (put_tss t s)"
  "task_phase s (kinfo fmt args s)" "task_phase s (s\<lparr>fs_reg := x\<rparr>)" "task_phase s (s\<lparr>gs_reg := x\<rparr>)"
  "task_phase s (s\<lparr>init_tss := y\<rparr>)" "task_phase s (s\<lparr>task_links := l\<rparr>)"
  by (simp_all add: task_phase_def poke_def on_core_def put_tss_def set_tss64_def Let_def kinfo_def log_printf_def emit_def)

lemma zero_slots_phase: "task_phase s (zero_slots a n s)"
  unfolding zero_slots_def by (rule tasks.kept_fold) (rule task_phase_steps)

lemma copy_slots_phase: "task_phase s (copy_slots from to n s)"
  unfolding copy_slots_def by (rule tasks.kept_fold) (rule task_phase_steps)

lemma page_init_task_phase: "task_phase s (page_init f flags s)"
proof -
  have "ram (page_init f flags s) = ram s" "IDT_Table (page_init f flags s) = IDT_Table s"
    by (rule ram_more, simp add: page_init_def Let_def) (simp add: page_init_def Let_def)
  then show ?thesis by (simp add: task_phase_def)
qed

lemma alloc_pages_phase: "alloc_pages ZONE_NORMAL n flags s = (Some p, t) \<Longrightarrow> task_phase s t"
proof -
  have "task_phase s (take_pages page n flags s)" for page
    unfolding take_pages_def by (rule tasks.kept_fold) (rule page_init_task_phase)
  then show "alloc_pages ZONE_NORMAL n flags s = (Some p, t) \<Longrightarrow> task_phase s t"
    by (auto simp: alloc_normal split: option.splits simp del: search_zones.simps)
qed

lemmas task_steps = task_phase_steps zero_slots_phase copy_slots_phase

lemma thread_frame_phase: "task_phase s (thread_frame im fn arg regs s)"
  unfolding thread_frame_def Let_def by (intro tasks.kept_trans [OF _ task_steps(1)] zero_slots_phase)

lemma fork_phases: "task_phase s (fork_copy im tsk s)" "task_phase s (fork_thread regs tsk s)"
  "task_phase s (fork_finish im regs tsk s)"
proof -
  have clear: "task_phase s (clear_task tsk s)" and copy: "task_phase s (copy_task from tsk s)" for s :: "'b sched_state_scheme" and "from"
    unfolding clear_task_def copy_task_def Let_def
    by (rule tasks.kept_trans [OF task_steps(8) zero_slots_phase] tasks.kept_trans [OF task_steps(8) copy_slots_phase])+
  show "task_phase s (fork_copy im tsk s)"
    unfolding fork_copy_def Let_def link_task_def
    by (intro tasks.kept_trans [OF _ task_steps(1)] tasks.kept_trans [OF _ task_steps(8)] tasks.kept_trans [OF clear copy])
  show "task_phase s (fork_thread regs tsk s)"
    unfolding fork_thread_def Let_def
    by (intro tasks.kept_trans [OF _ task_steps(1)] tasks.kept_trans [OF task_steps(1) copy_slots_phase])
  show "task_phase s (fork_finish im regs tsk s)"
    unfolding fork_finish_def Let_def
    by (simp, intro conjI impI tasks.kept_trans [OF _ task_steps(1)] tasks.kept_refl)
qed

lemma kernel_thread_phase:
  assumes "kernel_thread im fn arg flags regs s = Inr (r, t)"
  shows "task_phase s t"
proof -
  let ?f = "thread_frame im fn arg regs s"
  obtain p u where alloc: "alloc_pages ZONE_NORMAL 8 (PG_PTable_Maped OR PG_Active OR PG_Kernel) ?f = (Some p, u)"
    using assms by (auto simp: kernel_thread_def do_fork_def split: prod.splits option.splits)
  let ?k = "kinfo (''struct task_struct address:%#018lx'' @ [newline]) [PHY2VIR (phy_addr (pages u p))] u"
  have k: "task_phase s ?k"
    by (rule tasks.kept_trans [OF tasks.kept_trans [OF thread_frame_phase alloc_pages_phase [OF alloc]] task_steps(4)])
  have t: "t = fork_finish im regs (PHY2VIR (phy_addr (pages u p))) (fork_thread regs (PHY2VIR (phy_addr (pages u p)))
      (fork_copy im (PHY2VIR (phy_addr (pages u p))) ?k))"
    using assms alloc by (simp add: kernel_thread_def do_fork_def Let_def)
  show ?thesis
    unfolding t by (rule tasks.kept_trans [OF tasks.kept_trans [OF tasks.kept_trans [OF k fork_phases(1)] fork_phases(2)] fork_phases(3)])
qed

lemma switch_to_phase: "task_phase s (switch_to back prev next s)"
  unfolding switch_to_def switch_context_def Let_def
  by (intro tasks.kept_trans [OF _ task_steps(1)] tasks.kept_trans [OF _ task_steps(2)] tasks.kept_trans [OF _ task_steps(3)]
      tasks.kept_trans [OF _ task_steps(4)] tasks.kept_trans [OF _ task_steps(5)] tasks.kept_trans [OF _ task_steps(6)]
      tasks.kept_trans [OF _ task_steps(7)] tasks.kept_refl)

lemma task_init_phase:
  assumes "task_init im back regs s = Inr t"
  shows "task_phase (task_setup im s) t"
  using assms unfolding task_init_def Let_def
  by (auto split: sum.splits dest!: kernel_thread_phase intro: tasks.kept_trans [OF tasks.kept_trans [OF _ task_steps(1)] switch_to_phase])

subsection \<open>Model-specific registers\<close>

text \<open>The value that the last \<^verbatim>\<open>wrmsr\<close> of a trace has left in each register.\<close>

fun note_msr :: "event \<Rightarrow> (u64 \<Rightarrow> u64) \<Rightarrow> u64 \<Rightarrow> u64" where
  "note_msr (Wrmsr a hi lo) m = m(a := push_bit 32 (ucast hi) OR ucast lo)"
| "note_msr _ m = m"

definition msrs :: "'a machine_scheme \<Rightarrow> u64 \<Rightarrow> u64" where
  "msrs s = fold note_msr (trace s) (\<lambda>_. 0)"

lemma wrmsr_value: "push_bit 32 (ucast (ucast (drop_bit 32 v) :: u32)) OR ucast (ucast (v AND 0xffffffff) :: u32) = (v :: u64)"
proof -
  have m: "v AND 0xffffffff = take_bit 32 v" by (simp add: take_bit_eq_mask mask_eq_exp_minus_1)
  show ?thesis
    unfolding m by (rule bit_word_eqI) (auto simp: bit_simps)
qed

lemma msrs_messages: "list_all is_message es \<Longrightarrow> fold note_msr es m = m"
proof (induction es arbitrary: m)
  case (Cons e es)
  then show ?case by (cases e) simp_all
qed simp

lemma task_setup_msrs:
  "msrs (task_setup im s) 0x176 = im_system_call im"
  "msrs (task_setup im s) 0x175 = peek (thread_rsp0 (peek (task_thread (get_current s)) s)) s"
  "ram (task_setup im s) = ram s" "IDT_Table (task_setup im s) = IDT_Table s"
proof -
  have tr: "trace (task_setup im s) = trace s @ [Wrmsr 0x174 (ucast (drop_bit 32 KERNEL_CS)) (ucast (KERNEL_CS AND 0xffffffff)),
      Wrmsr 0x175 (ucast (drop_bit 32 (peek (thread_rsp0 (peek (task_thread (get_current s)) s)) s)))
        (ucast (peek (thread_rsp0 (peek (task_thread (get_current s)) s)) s AND 0xffffffff)),
      Wrmsr 0x176 (ucast (drop_bit 32 (im_system_call im))) (ucast (im_system_call im AND 0xffffffff))]"
    by (simp add: task_setup_def Let_def fill_init_mm_def wrmsr_def put_tss_def set_tss64_def get_current_def peek_def emit_def)
  show "msrs (task_setup im s) 0x176 = im_system_call im"
    "msrs (task_setup im s) 0x175 = peek (thread_rsp0 (peek (task_thread (get_current s)) s)) s"
    by (simp_all add: msrs_def tr wrmsr_value)
  show "ram (task_setup im s) = ram s" "IDT_Table (task_setup im s) = IDT_Table s"
    by (simp_all add: task_setup_def Let_def fill_init_mm_def wrmsr_def put_tss_def set_tss64_def)
qed

lemma msrs_phase: "task_phase s t \<Longrightarrow> msrs t = msrs s"
  by (auto simp: task_phase_def msrs_def msrs_messages)

lemma init_msrs: "msrs (init im arg s) = msrs s"
proof -
  have "\<exists>es. trace (init im arg s) = trace s @ es \<and> list_all is_message es"
    by (simp add: init_def do_execve_def Let_def poke_def on_core_def)
  then show ?thesis by (auto simp: msrs_def msrs_messages)
qed

lemma init_gate_tables: "IDT_Table (init im arg s) = IDT_Table s" "TSS64_Table (init im arg s) = TSS64_Table s"
  by (simp_all add: init_def do_execve_def Let_def poke_def on_core_def kinfo_def log_printf_def emit_def)

lemma user_level: "cs (run ret_system_call c) = 0x2b" "ss (run ret_system_call c) = 0x33"
  by (simp_all add: ret_system_call_def run_append run_simps)

subsection \<open>The launch\<close>

text \<open>\<open>bytes_apart a n b k\<close>: the \<open>n\<close> bytes at \<open>a\<close> and the \<open>k\<close> bytes at \<open>b\<close> have none in common.\<close>

definition bytes_apart :: "u64 \<Rightarrow> nat \<Rightarrow> u64 \<Rightarrow> nat \<Rightarrow> bool" where
  "bytes_apart a n b k \<longleftrightarrow> k \<le> unat (a - b) \<and> unat (a - b) + n \<le> 2 ^ 64"

text \<open>Where the linker and the compiler must put the user program and the arrays of the disk test.\<close>

definition program_safe :: "boot_env \<Rightarrow> bool" where
  "program_safe env \<longleftrightarrow>
     (let src = im_user_level_function (env_image env); p = VIR2PHY src
      in in_gigabyte src 1024 \<and> forward_safe 0x800000 p 1024 \<and>
         bytes_apart p 1024 (VIR2PHY (env_bwrite env)) 128 \<and> bytes_apart p 1024 (take_bit 32 (env_buf env)) 512)"

lemma bytes_apart_at:
  assumes "bytes_apart a n b k" "i < n"
  shows "k \<le> unat (a + of_nat i - b)"
proof -
  have "unat (a - b) + i < 2 ^ 64" using assms by (simp add: bytes_apart_def)
  then have "unat (a - b + of_nat i) = unat (a - b) + i"
    using unat_plus [of "a - b" "of_nat i"] by (simp add: unat_of_nat_u64)
  moreover have "a + of_nat i - b = a - b + of_nat i" by simp
  ultimately show ?thesis using assms(1) by (simp only: bytes_apart_def) simp
qed

lemma program_survives:
  assumes "program_safe env" "length ws = 256"
  shows "load_bytes (after_disk_test env ws m) (VIR2PHY (im_user_level_function (env_image env))) 1024 =
    load_bytes m (VIR2PHY (im_user_level_function (env_image env))) 1024"
proof (rule load_bytes_cong)
  fix i :: nat assume i: "i < 1024"
  let ?x = "VIR2PHY (im_user_level_function (env_image env)) + of_nat i"
  have "128 \<le> unat (?x - VIR2PHY (env_bwrite env))" "512 \<le> unat (?x - take_bit 32 (env_buf env))"
    using assms(1) bytes_apart_at [OF _ i] by (auto simp: program_safe_def Let_def)
  then show "after_disk_test env ws m ?x = m ?x"
    using assms(2) by (simp add: after_disk_test_def store_bytes_read memset_read word_less_nat_alt)
qed

lemma boot_ready_core: "core s = core t \<Longrightarrow> boot_ready im regs tsk s = boot_ready im regs tsk t"
  by (simp add: boot_ready_def get_current_def peek_def)

text \<open>From the boot loader's information to the first user instruction. User continues with the program and states
  the whole run as a property.\<close>

lemma launch_run:
  fixes s :: "'a sched_state_scheme"
  assumes "magic = MULTIBOOT2_BOOTLOADER_MAGIC" "info AND 7 = 0"
    and "holds (mapped (ram s)) (info + 8) (info_bytes tags)" "list_all tag_ok tags"
    and "unat (info + 8) + length (info_bytes tags) < 2 ^ 64" "last_map tags = Some es"
    and "map_ok (placed (env_linker env) (gmdsc (fold take_tag tags s)))"
    and "unat (sym_start_kernel (env_linker env)) < 2 ^ 43"
    and "unat (end_of_struct (placed (env_linker env) (gmdsc (fold take_tag tags s)))) < 2 ^ 43"
    and "kernel_range (env_linker env) (gmdsc (fold take_tag tags s)) \<subseteq> usable_frames es"
    and "responsive s" "low_memory_free es (kernel_range (env_linker env) (gmdsc (fold take_tag tags s)))"
    and "tsk = PHY2VIR (phy_addr (pages s (- 1)))" "tsk AND 32767 = 0"
    and "boot_ready (env_image env) (env_regs env) tsk s" "program_safe env"
  shows "\<exists>s2. kernel_start env magic info s = Some (Switched s2) \<and>
    rip (core s2) = im_kernel_thread_func (env_image env) \<and>
    (let s3 = on_core (run (kernel_thread_func ret)) s2; s4 = init (env_image env) (gpr (core s3) RDI) s3;
         user = run ret_system_call (core s4)
     in rip (core s3) = im_init (env_image env) \<and> get_current s3 = tsk \<and>
        rip (core s4) = im_ret_system_call (env_image env) \<and> rip user = 0x800000 \<and> rsp user = 0xa00000 \<and>
        load_bytes (mapped (ram s4)) 0x800000 1024 =
          load_bytes (mapped (ram s)) (im_user_level_function (env_image env)) 1024 \<and>
        msrs s4 0x176 = im_system_call (env_image env) \<and>
        msrs s4 0x175 = peek (thread_rsp0 (peek (task_thread (get_current s)) s)) s \<and>
        (\<forall>v. 0x20 \<le> v \<and> v \<le> 0x37 \<longrightarrow> IDT_Table s4 v = gate_words 0x8E 0 (env_stub env (ucast v))) \<and>
        load_tss (TSS64_Table s4) 1 = tsk + 32768 \<and> cs user = 0x2b)"
proof -
  let ?im = "env_image env" and ?src = "im_user_level_function (env_image env)"
  obtain s' ws where s': "kernel_start env magic info s = Some (start_tasks env s')" "core s' = core s"
    "ram s' = after_disk_test env ws (ram s)" "length ws = 256"
    "\<And>v. 0x20 \<le> v \<Longrightarrow> v \<le> 0x37 \<Longrightarrow> IDT_Table s' v = gate_words 0x8E 0 (env_stub env (ucast v))"
    "\<And>t :: 'a sched_state_scheme. bits t = bits s' \<Longrightarrow> pages t = pages s' \<Longrightarrow> zones t = zones s' \<Longrightarrow>
      \<exists>t'. alloc_pages ZONE_NORMAL 8 (PG_PTable_Maped OR PG_Active OR PG_Kernel) t = (Some (- 1), t') \<and>
        phy_addr (pages t' (- 1)) = phy_addr (pages s (- 1))"
    by (rule boot_machine [where flags = "PG_PTable_Maped OR PG_Active OR PG_Kernel", OF assms(1-12)]) (rule that)
  obtain s1 where s1: "alloc_pages ZONE_NORMAL 8 (PG_PTable_Maped OR PG_Active OR PG_Kernel)
      (thread_frame ?im (im_init ?im) 10 (env_regs env) (task_setup ?im s')) = (Some (- 1), s1)"
    "phy_addr (pages s1 (- 1)) = phy_addr (pages s (- 1))"
    using s'(6) [of "thread_frame ?im (im_init ?im) 10 (env_regs env) (task_setup ?im s')"]
    by (auto simp: thread_frame_mm task_setup_mm)
  have tsk: "tsk = PHY2VIR (phy_addr (pages s1 (- 1)))" by (simp only: s1(2) assms(13))
  have ready: "boot_ready ?im (env_regs env) tsk s'" using assms(15) boot_ready_core [OF s'(2)] by blast
  obtain s2 where s2: "task_init ?im (env_back env) (env_regs env) s' = Inr s2" "rip (core s2) = im_kernel_thread_func ?im"
    and s3: "rip (core (on_core (run (kernel_thread_func ret)) s2)) = im_init ?im"
      "gpr (core (on_core (run (kernel_thread_func ret)) s2)) RDI = 10"
      "get_current (on_core (run (kernel_thread_func ret)) s2) = tsk"
      "peek (task_thread tsk) (on_core (run (kernel_thread_func ret)) s2) = tsk + 88"
      "load_tss (TSS64_Table s2) 1 = tsk + 32768"
    by (rule thread_reaches_init [OF s1(1) tsk assms(14) ready])
  let ?s3 = "on_core (run (kernel_thread_func ret)) s2"
  have own: "peek (task_thread (get_current ?s3)) ?s3 = get_current ?s3 + 88" using s3(3,4) by simp
  have kept: "ram ?s3 = ram s'" "msrs ?s3 = msrs (task_setup ?im s')" "IDT_Table ?s3 = IDT_Table s'"
  proof -
    have ph: "task_phase (task_setup ?im s') ?s3"
      by (rule tasks.kept_trans [OF task_init_phase [OF s2(1)] task_steps(2)])
    show "ram ?s3 = ram s'" "IDT_Table ?s3 = IDT_Table s'" using ph by (simp_all add: task_phase_def task_setup_msrs(3,4))
    show "msrs ?s3 = msrs (task_setup ?im s')" by (rule msrs_phase [OF ph])
  qed
  have cur: "get_current s' = get_current s" "peek a s' = peek a s" for a
    using s'(2) by (simp_all add: get_current_def peek_def)
  have safe: "in_gigabyte ?src 1024" "forward_safe 0x800000 (VIR2PHY ?src) 1024"
    using assms(16) by (simp_all add: program_safe_def Let_def)
  have at: "in_gigabyte 0x800000 1024" "VIR2PHY 0x800000 = 0x800000"
    by (simp_all add: in_gigabyte_def VIR2PHY_def KERNEL_VIRADDR_def)
  have "load_bytes (mapped (ram (init ?im 10 ?s3))) 0x800000 1024 = load_bytes (ram s') (VIR2PHY ?src) 1024"
    unfolding mapped_bytes [OF at(1)] at(2) init_core(2) [OF own] user_code_copied [OF safe(2)] kept(1) ..
  also have "\<dots> = load_bytes (mapped (ram s)) ?src 1024"
    unfolding s'(3) program_survives [OF assms(16) s'(4)] mapped_bytes [OF safe(1)] ..
  finally have program: "load_bytes (mapped (ram (init ?im 10 ?s3))) 0x800000 1024 = load_bytes (mapped (ram s)) ?src 1024" .
  have msr: "msrs (init ?im 10 ?s3) 0x176 = im_system_call ?im"
    "msrs (init ?im 10 ?s3) 0x175 = peek (thread_rsp0 (peek (task_thread (get_current s)) s)) s"
    unfolding init_msrs kept(2) task_setup_msrs cur by (rule refl)+
  have gates: "\<forall>v. 0x20 \<le> v \<and> v \<le> 0x37 \<longrightarrow>
      IDT_Table (init ?im 10 ?s3) v = gate_words 0x8E 0 (env_stub env (ucast v))"
    unfolding init_gate_tables kept(3) using s'(5) by blast
  have tss: "load_tss (TSS64_Table (init ?im 10 ?s3)) 1 = tsk + 32768"
    unfolding init_gate_tables by (simp add: on_core_def s3(5) [unfolded One_nat_def])
  have "kernel_start env magic info s = Some (Switched s2)" by (simp add: s'(1) start_tasks_def s2(1))
  with s2(2) s3(1-4) program msr gates tss init_user_mode(1,2) [OF own, of ?im 10] init_core(1) [OF own, of ?im 10]
  show ?thesis by (intro exI [of _ s2]) (simp add: Let_def user_level del: load_bytes.simps)
qed

text \<open>The loader of Boot, the tasks of Sched, and a page structure before the table that is all zero.\<close>

definition launched :: sched_state where
  "launched = sample_tasks\<lparr>gmdsc := small_map, pages := (\<lambda>_. zero_page),
     ram := store_bytes (\<lambda>_. 0) 0x10008 (info_bytes small_tags)\<rparr>"

lemma launched_ready: "boot_ready sample_image 0xffff800002117e00 0xffff800000000000 launched"
proof -
  have core: "core launched = core sample_tasks" by (simp add: launched_def)
  have "peek (task_thread 0xffff800002110000) sample_tasks = 0xffff800002100000"
    by (simp add: sample_tasks_def INIT_TASK_def Let_def field_defs sample_image_def)
  moreover have "rsp (core sample_tasks) = 0xffff800002117d00"
    by (simp add: sample_tasks_def INIT_TASK_def init_thread_def Let_def) (simp add: blank_tasks_def)
  moreover have "im_init_task sample_image = 0xffff800002110000" by (simp add: sample_image_def)
  ultimately show ?thesis
    unfolding boot_ready_core [OF core]
    using sample_apart(3) sample_flags
    by (simp add: boot_ready_def Let_def sample_current PF_KTHREAD_def)
      (simp add: outside_def in_block_def field_defs)
qed

end
