(* ===== verification/Identify.thy ===== *)
theory Identify
  imports Ata
begin

text \<open>
  \<^verbatim>\<open>struct Disk_Identify_Info\<close> of \<^verbatim>\<open>include/ata.h\<close>: what a disk answers to the identify command, one sector
  of 256 words. The structure is packed, so a field lies behind the fields before it. The comment on each
  field names the words of the sector it is meant for; the lemmas show that the layout agrees with all of
  them, and what a field reads from a sector that has arrived in memory.
\<close>

subsection \<open>The structure\<close>

text \<open>The fields with their number of 16-bit words, in three parts.\<close>

definition identify_words_0 :: "(string \<times> nat) list" where
  "identify_words_0 =
     [(''General_Config'', 1), (''Obsolete0'', 1), (''Specific_Coinfig'', 1), (''Obsolete1'', 1),
      (''Retired0'', 2), (''Obsolete2'', 1), (''CompactFlash'', 2), (''Retired1'', 1),
      (''Serial_Number'', 10), (''Retired2'', 2), (''Obsolete3'', 1), (''Firmware_Version'', 4),
      (''Model_Number'', 20), (''Max_logical_transferred_per_DRQ'', 1),
      (''Trusted_Computing_feature_set_options'', 1), (''Capabilities0'', 1), (''Capabilities1'', 1),
      (''Obsolete4'', 2), (''Report_88_70to64_valid'', 1), (''Obsolete5'', 5),
      (''Mul_Sec_Setting_Valid'', 1), (''Addressable_Logical_Sectors_for_28'', 2), (''Obsolete6'', 1),
      (''MultWord_DMA_Select'', 1)]"

definition identify_words_64 :: "(string \<times> nat) list" where
  "identify_words_64 =
     [(''PIO_mode_supported'', 1), (''Min_MulWord_DMA_cycle_time_per_word'', 1),
      (''Manufacture_Recommend_MulWord_DMA_cycle_time'', 1), (''Min_PIO_cycle_time_Flow_Control'', 1),
      (''Min_PIO_cycle_time_IOREDY_Flow_Control'', 1), (''Reserved1'', 2), (''Reserved2'', 4),
      (''Queue_depth'', 1), (''SATA_Capabilities'', 1), (''Reserved3'', 1),
      (''SATA_features_Supported'', 1), (''SATA_features_enabled'', 1), (''Major_Version'', 1),
      (''Minor_Version'', 1), (''Cmd_feature_sets_supported0'', 1), (''Cmd_feature_sets_supported1'', 1),
      (''Cmd_feature_sets_supported2'', 1), (''Cmd_feature_sets_supported3'', 1),
      (''Cmd_feature_sets_supported4'', 1), (''Cmd_feature_sets_supported5'', 1), (''Ultra_DMA_modes'', 1),
      (''Time_required_Erase_CMD'', 1), (''Time_required_Enhanced_CMD'', 1),
      (''Current_APM_level_Value'', 1), (''Master_Password_Identifier'', 1),
      (''HardWare_Reset_Result'', 1), (''Current_AAM_value'', 1), (''Stream_Min_Request_Size'', 1),
      (''Streaming_Transger_time_DMA'', 1), (''Streaming_Access_Latency_DMA_PIO'', 1),
      (''Streaming_Performance_Granularity'', 2), (''Total_user_LBA_for_48_Address_Feature_set'', 4),
      (''Streaming_Transfer_Time_PIO'', 1), (''Reserved4'', 1), (''Physical_Logical_Sector_Size'', 1),
      (''Inter_seek_delay'', 1), (''World_wide_name'', 4), (''Reserved5'', 4), (''Reserved6'', 1),
      (''Words_per_Logical_Sector'', 2), (''CMD_feature_Supported'', 1),
      (''CMD_feature_Supported_enabled'', 1), (''Reserved7'', 6), (''Obsolete7'', 1)]"

definition identify_words_128 :: "(string \<times> nat) list" where
  "identify_words_128 =
     [(''Security_Status'', 1), (''Vendor_Specific'', 31), (''CFA_Power_mode'', 1), (''Reserved8'', 7),
      (''Dev_from_Factor'', 1), (''Reserved9'', 7), (''Current_Media_Serial_Number'', 30),
      (''SCT_Cmd_Transport'', 1), (''Reserved10'', 2),
      (''Alignment_Logical_blocks_within_a_physical_block'', 1),
      (''Write_Read_Verify_Sector_Count_Mode_3'', 2), (''Write_Read_Verify_Sector_Count_Mode_2'', 2),
      (''NV_Cache_Capabilities'', 1), (''NV_Cache_Size'', 2), (''Nominal_media_rotation_rate'', 1),
      (''Reserved11'', 1), (''NV_Cache_Options'', 1), (''Write_Read_Verify_feature_set_current_mode'', 1),
      (''Reserved12'', 1), (''Transport_Major_Version_Number'', 1),
      (''Transport_Minor_Version_Number'', 1), (''Reserved13'', 10), (''Mini_blocks_per_CMD'', 1),
      (''Max_blocks_per_CMD'', 1), (''Reserved14'', 19), (''Integrity_word'', 1)]"

definition Disk_Identify_Info :: "(string \<times> nat) list" where
  "Disk_Identify_Info = identify_words_0 @ identify_words_64 @ identify_words_128"

text \<open>The words the comments give: the first and the last.\<close>

definition documented_words :: "(string \<times> nat \<times> nat) list" where
  "documented_words =
     [(''General_Config'', 0, 0), (''Obsolete0'', 1, 1), (''Specific_Coinfig'', 2, 2),
      (''Obsolete1'', 3, 3), (''Retired0'', 4, 5), (''Obsolete2'', 6, 6), (''CompactFlash'', 7, 8),
      (''Retired1'', 9, 9), (''Serial_Number'', 10, 19), (''Retired2'', 20, 21), (''Obsolete3'', 22, 22),
      (''Firmware_Version'', 23, 26), (''Model_Number'', 27, 46),
      (''Max_logical_transferred_per_DRQ'', 47, 47), (''Trusted_Computing_feature_set_options'', 48, 48),
      (''Capabilities0'', 49, 49), (''Capabilities1'', 50, 50), (''Obsolete4'', 51, 52),
      (''Report_88_70to64_valid'', 53, 53), (''Obsolete5'', 54, 58), (''Mul_Sec_Setting_Valid'', 59, 59),
      (''Addressable_Logical_Sectors_for_28'', 60, 61), (''Obsolete6'', 62, 62),
      (''MultWord_DMA_Select'', 63, 63), (''PIO_mode_supported'', 64, 64),
      (''Min_MulWord_DMA_cycle_time_per_word'', 65, 65),
      (''Manufacture_Recommend_MulWord_DMA_cycle_time'', 66, 66),
      (''Min_PIO_cycle_time_Flow_Control'', 67, 67), (''Min_PIO_cycle_time_IOREDY_Flow_Control'', 68, 68),
      (''Reserved1'', 69, 70), (''Reserved2'', 71, 74), (''Queue_depth'', 75, 75),
      (''SATA_Capabilities'', 76, 76), (''Reserved3'', 77, 77), (''SATA_features_Supported'', 78, 78),
      (''SATA_features_enabled'', 79, 79), (''Major_Version'', 80, 80), (''Minor_Version'', 81, 81),
      (''Cmd_feature_sets_supported0'', 82, 82), (''Cmd_feature_sets_supported1'', 83, 83),
      (''Cmd_feature_sets_supported2'', 84, 84), (''Cmd_feature_sets_supported3'', 85, 85),
      (''Cmd_feature_sets_supported4'', 86, 86), (''Cmd_feature_sets_supported5'', 87, 87),
      (''Ultra_DMA_modes'', 88, 88), (''Time_required_Erase_CMD'', 89, 89),
      (''Time_required_Enhanced_CMD'', 90, 90), (''Current_APM_level_Value'', 91, 91),
      (''Master_Password_Identifier'', 92, 92), (''HardWare_Reset_Result'', 93, 93),
      (''Current_AAM_value'', 94, 94), (''Stream_Min_Request_Size'', 95, 95),
      (''Streaming_Transger_time_DMA'', 96, 96), (''Streaming_Access_Latency_DMA_PIO'', 97, 97),
      (''Streaming_Performance_Granularity'', 98, 99),
      (''Total_user_LBA_for_48_Address_Feature_set'', 100, 103),
      (''Streaming_Transfer_Time_PIO'', 104, 104), (''Reserved4'', 105, 105),
      (''Physical_Logical_Sector_Size'', 106, 106), (''Inter_seek_delay'', 107, 107),
      (''World_wide_name'', 108, 111), (''Reserved5'', 112, 115), (''Reserved6'', 116, 116),
      (''Words_per_Logical_Sector'', 117, 118), (''CMD_feature_Supported'', 119, 119),
      (''CMD_feature_Supported_enabled'', 120, 120), (''Reserved7'', 121, 126), (''Obsolete7'', 127, 127),
      (''Security_Status'', 128, 128), (''Vendor_Specific'', 129, 159), (''CFA_Power_mode'', 160, 160),
      (''Reserved8'', 161, 167), (''Dev_from_Factor'', 168, 168), (''Reserved9'', 169, 175),
      (''Current_Media_Serial_Number'', 176, 205), (''SCT_Cmd_Transport'', 206, 206),
      (''Reserved10'', 207, 208), (''Alignment_Logical_blocks_within_a_physical_block'', 209, 209),
      (''Write_Read_Verify_Sector_Count_Mode_3'', 210, 211),
      (''Write_Read_Verify_Sector_Count_Mode_2'', 212, 213), (''NV_Cache_Capabilities'', 214, 214),
      (''NV_Cache_Size'', 215, 216), (''Nominal_media_rotation_rate'', 217, 217),
      (''Reserved11'', 218, 218), (''NV_Cache_Options'', 219, 219),
      (''Write_Read_Verify_feature_set_current_mode'', 220, 220), (''Reserved12'', 221, 221),
      (''Transport_Major_Version_Number'', 222, 222), (''Transport_Minor_Version_Number'', 223, 223),
      (''Reserved13'', 224, 233), (''Mini_blocks_per_CMD'', 234, 234), (''Max_blocks_per_CMD'', 235, 235),
      (''Reserved14'', 236, 254), (''Integrity_word'', 255, 255)]"

text \<open>The place of every field: the number of its first word, and its length.\<close>

fun layout :: "nat \<Rightarrow> (string \<times> nat) list \<Rightarrow> (string \<times> nat \<times> nat) list" where
  "layout k [] = []"
| "layout k ((f, n) # fs) = (f, k, n) # layout (k + n) fs"

text \<open>The words of the field at that place, in the structure at \<open>p\<close>.\<close>

definition identify_field :: "mem \<Rightarrow> u64 \<Rightarrow> nat \<Rightarrow> nat \<Rightarrow> u16 list" where
  "identify_field m p k n = map (\<lambda>i. ucast (load_le 2 m (p + 2 * of_nat i))) [k..<k + n]"

subsection \<open>A sector in memory\<close>

lemma words_bytes_Cons: "words_bytes (w # ws) = ucast w # ucast (drop_bit 8 w) # words_bytes ws"
proof -
  have "bytes_of 2 (ucast w) = [ucast w, ucast (drop_bit 8 w)]"
    by (simp add: bytes_of_def numeral_2_eq_2) (auto intro!: bit_word_eqI simp: bit_simps)
  then show ?thesis by (simp add: words_bytes_def)
qed

lemma words_bytes_nth:
  "i < length ws \<Longrightarrow> words_bytes ws ! (2 * i) = ucast (ws ! i) \<and> words_bytes ws ! (2 * i + 1) = ucast (drop_bit 8 (ws ! i))"
proof (induction ws arbitrary: i)
  case (Cons w ws)
  then show ?case by (cases i) (auto simp: words_bytes_Cons)
qed simp

lemma word_in_memory:
  assumes "i < length ws" "length ws < 2 ^ 60"
  shows "ucast (load_le 2 (store_bytes m p (words_bytes ws)) (p + 2 * of_nat i)) = ws ! i"
proof -
  let ?m = "store_bytes m p (words_bytes ws)"
  have b: "?m (p + of_nat j) = words_bytes ws ! j" if "j < 2 * length ws" for j
    using that assms(2) by (intro store_bytes_at) auto
  have "load_le 2 ?m (p + 2 * of_nat i) = ucast (?m (p + of_nat (2 * i))) OR push_bit 8 (ucast (?m (p + of_nat (2 * i + 1))))"
    by (simp add: load_le_def numeral_2_eq_2 algebra_simps)
  also have "\<dots> = ucast (ws ! i)"
    using assms(1) words_bytes_nth [of i ws]
    by (simp only: b) (rule bit_word_eqI, auto simp: bit_simps dest: bit_imp_le_length)
  finally show ?thesis by (simp only:) (rule bit_word_eqI, simp add: bit_simps)
qed

lemma field_in_memory:
  assumes "k + n \<le> length ws" "length ws < 2 ^ 60"
  shows "identify_field (store_bytes m p (words_bytes ws)) p k n = take n (drop k ws)"
proof -
  have "identify_field (store_bytes m p (words_bytes ws)) p k n = map ((!) ws) [k..<k + n]"
    unfolding identify_field_def using assms by (intro map_cong refl word_in_memory) auto
  then show ?thesis using assms(1) by (auto intro: nth_equalityI)
qed

lemma layout_bound: "(f, k, n) \<in> set (layout b fs) \<Longrightarrow> k + n \<le> b + sum_list (map snd fs)"
proof (induction fs arbitrary: b)
  case (Cons e fs)
  then show ?case by (cases e) fastforce
qed simp

subsection \<open>Properties\<close>

lemmas identify_defs = Disk_Identify_Info_def identify_words_0_def identify_words_64_def identify_words_128_def

lemma identify_places:
  "layout 0 Disk_Identify_Info = map (\<lambda>(f, first, last). (f, first, Suc last - first)) documented_words"
  "sum_list (map snd Disk_Identify_Info) = 256"
  by (simp_all add: identify_defs documented_words_def)

text \<open>The structure for the identify data is laid out as its comments say: every field begins at the word
  number its comment gives and reaches to the last one given there, with no gap, and the fields fill the
  256 words of a sector exactly.\<close>

theorem identify_layout:
  "map (\<lambda>(f, k, n). (f, k, k + n - 1)) (layout 0 Disk_Identify_Info) = documented_words \<and>
   sum_list (map snd Disk_Identify_Info) = 256"
proof -
  have "list_all (\<lambda>(f, first, last). first \<le> last) documented_words"
    by (simp add: documented_words_def)
  then have "map (\<lambda>(f, first, last). (f, first, first + (Suc last - first) - 1)) documented_words = documented_words"
    by (auto simp: list_all_iff intro!: map_idI)
  then show ?thesis by (simp add: identify_places split_def comp_def)
qed

text \<open>C26: A sector read into the structure gives every field the words that the data port delivered at the
  positions its comment names, in order.\<close>

theorem identify_reads_delivered_words:
  assumes "responsive s"
  shows "\<exists>s' ws. read_sectors_ATA_PIO target LBA 1 s = Some s' \<and> moved s s' ws [] \<and> length ws = 256 \<and>
    list_all (\<lambda>(f, first, last).
      \<exists>k n. (f, k, n) \<in> set (layout 0 Disk_Identify_Info) \<and> first = k \<and> Suc last = k + n \<and>
        identify_field (ram s') (ucast target) k n = take n (drop k ws)) documented_words"
proof -
  obtain s' where s': "read_sectors_ATA_PIO target LBA 1 s = Some s'" using transfers_return [OF assms] by blast
  from read_sectors_receive [OF s'] obtain ws where ws: "moved s s' ws []" "length ws = 256"
    "ram s' = store_bytes (ram s) (ucast target) (words_bytes ws)"
    by (auto simp: received_def)
  have "\<exists>k n. (f, k, n) \<in> set (layout 0 Disk_Identify_Info) \<and> first = k \<and> Suc last = k + n \<and>
      identify_field (ram s') (ucast target) k n = take n (drop k ws)"
    if "(f, first, last) \<in> set documented_words" for f first last
  proof -
    have "list_all (\<lambda>(f, first, last). first \<le> last) documented_words"
      by (simp add: documented_words_def)
    then have le: "first \<le> last" using that by (auto simp: list_all_iff)
    have place: "(f, first, Suc last - first) \<in> set (layout 0 Disk_Identify_Info)"
      using that by (force simp: identify_places)
    then have "first + (Suc last - first) \<le> length ws"
      using layout_bound [OF place] by (simp add: identify_places ws(2))
    from field_in_memory [OF this] show ?thesis
      using place le ws(2,3) by (intro exI [of _ first] exI [of _ "Suc last - first"]) simp
  qed
  then show ?thesis using s' ws(1,2) by (auto simp: list_all_iff)
qed

theorem identify_reads_delivered_words_witness:
  "\<exists>s' ws. read_sectors_ATA_PIO 0x7000 0 1 sample_disk = Some s' \<and> length ws = 256 \<and>
    (\<exists>k n. (''Serial_Number'', k, n) \<in> set (layout 0 Disk_Identify_Info) \<and> k = 10 \<and>
      identify_field (ram s') 0x7000 k n = take n (drop k ws))"
proof -
  have "(''Serial_Number'', 10, 19) \<in> set documented_words" by (simp add: documented_words_def)
  then show ?thesis
    using identify_reads_delivered_words [OF sample_disk_responsive, of "0x7000" 0]
    by (fastforce simp: list_all_iff)
qed

end
