(* ===== verification/Entry.thy ===== *)
theory Entry
  imports Irq
begin

text \<open>
  \<^verbatim>\<open>arch/x86/boot/multiboot2.S\<close>, the code between the boot loader and \<^verbatim>\<open>kernel_start\<close>: the first page
  tables, the descriptor tables, the gate of every vector, and the handler of interrupts nobody expects.
  Physical memory is a map from addresses to 8-byte words; the 32-bit code stores to the low half of one.
  The page walk and the fields of a descriptor, as the processor's manual gives them, are the
  specification.
\<close>

subsection \<open>The page tables\<close>

type_synonym phys = "u64 \<Rightarrow> u64"

definition mov32 :: "u32 \<Rightarrow> u32 \<Rightarrow> phys \<Rightarrow> phys" where
  "mov32 a v m = m(ucast a := (m (ucast a) AND NOT 0xffffffff) OR ucast v)"

text \<open>\<open>n\<close> is \<^verbatim>\<open>%ecx\<close>, which \<^verbatim>\<open>loop\<close> decrements.\<close>

fun pd_loop :: "nat \<Rightarrow> u32 \<Rightarrow> u32 \<Rightarrow> phys \<Rightarrow> phys" where
  "pd_loop 0 eax ebx m = m"
| "pd_loop (Suc n) eax ebx m = pd_loop n (eax + 0x08) (ebx + 0x200000) (mov32 eax ebx m)"

definition setup_pages :: "u32 \<Rightarrow> u32 \<Rightarrow> u32 \<Rightarrow> phys \<Rightarrow> phys" where
  "setup_pages pml4 pdpt pd m =
     (let eax = pml4;
          ebx = pdpt OR 0x07;
          m = mov32 eax ebx m;
          m = mov32 (eax + 2048) ebx m;
          eax = pdpt;
          ebx = pd OR 0x07;
          m = mov32 eax ebx m
      in pd_loop 512 pd 0x87 m)"

text \<open>The processor's walk: the index of the entry at each level, the present bit, the large page bit of the
  third level, and a page only if every level is user accessible. An address is canonical if its highest 17 bits
  are equal. \<open>None\<close> is a fault; the fourth level is not needed here, so a small page is also \<open>None\<close>.\<close>

definition canonical :: "u64 \<Rightarrow> bool" where
  "canonical va \<longleftrightarrow> drop_bit 47 va = 0 \<or> drop_bit 47 va = 0x1ffff"

definition entry_index :: "nat \<Rightarrow> u64 \<Rightarrow> u64" where
  "entry_index k va = take_bit 9 (drop_bit k va)"

definition entry_base :: "u64 \<Rightarrow> u64" where
  "entry_base e = e AND 0x000ffffffffff000"

definition walk :: "phys \<Rightarrow> u64 \<Rightarrow> u64 \<Rightarrow> (u64 \<times> bool) option" where
  "walk m cr3 va =
     (let e4 = m (entry_base cr3 + 8 * entry_index 39 va);
          e3 = m (entry_base e4 + 8 * entry_index 30 va);
          e2 = m (entry_base e3 + 8 * entry_index 21 va)
      in if canonical va \<and> bit e4 0 \<and> bit e3 0 \<and> bit e2 0 \<and> bit e2 7
         then Some ((e2 AND 0x000fffffffe00000) + take_bit 21 va, bit e4 2 \<and> bit e3 2 \<and> bit e2 2)
         else None)"

subsection \<open>What the tables hold\<close>

lemma ucast_u32_add:
  assumes "unat (a :: u32) + n < 2 ^ 32"
  shows "(ucast (a + of_nat n) :: u64) = ucast a + of_nat n"
proof -
  have "unat (a + of_nat n) = unat a + n"
    using assms unat_add_lem [of a "of_nat n"] by (simp add: unat_of_nat)
  moreover have "unat (ucast a + of_nat n :: u64) = unat a + n"
    using assms unat_add_nat_u64 [of "ucast a" n] by simp
  ultimately show ?thesis by (simp add: word_unat_eq_iff)
qed

lemma same_offset: "i < 2 ^ 64 \<Longrightarrow> j < 2 ^ 64 \<Longrightarrow> (T + of_nat i :: u64) = T + of_nat j \<longleftrightarrow> i = j"
  by (metis add_left_cancel unat_of_nat_u64)

lemma pd_loop_other:
  assumes "unat eax + 8 * n \<le> 2 ^ 32" "\<forall>i < n. x \<noteq> ucast eax + of_nat (8 * i)"
  shows "pd_loop n eax ebx m x = m x"
  using assms
proof (induction n arbitrary: eax ebx m)
  case (Suc n)
  have "x \<noteq> ucast (eax + 8) + of_nat (8 * i)" if "i < n" for i
    using Suc.prems that ucast_u32_add [of eax 8] by (auto dest: spec [of _ "Suc i"] simp: algebra_simps)
  moreover have "unat (eax + 8) + 8 * n \<le> 2 ^ 32 \<or> n = 0"
    using Suc.prems(1) unat_add_lem [of eax 8] by (cases n) auto
  moreover have "x \<noteq> ucast eax" using Suc.prems(2) by (auto dest: spec [of _ 0])
  ultimately show ?case using Suc.IH [of "eax + 8"] by (auto simp: mov32_def)
qed simp

lemma pd_loop_entry:
  assumes "unat eax + 8 * n \<le> 2 ^ 32" "i < n"
  shows "pd_loop n eax ebx m (ucast eax + of_nat (8 * i)) =
    (m (ucast eax + of_nat (8 * i)) AND NOT 0xffffffff) OR ucast (ebx + 0x200000 * of_nat i)"
  using assms
proof (induction n arbitrary: eax ebx m i)
  case (Suc n)
  have n: "unat (eax + 8) + 8 * n \<le> 2 ^ 32" if "n \<noteq> 0"
    using Suc.prems(1) that unat_add_lem [of eax 8] by simp
  have step: "(ucast (eax + 8) :: u64) = ucast eax + 8" if "n \<noteq> 0"
    using ucast_u32_add [of eax 8] Suc.prems(1) that by simp
  show ?case
  proof (cases i)
    case 0
    have "pd_loop n (eax + 8) ebx' m' (ucast eax) = m' (ucast eax)" for ebx' m'
    proof (cases "n = 0")
      case False
      have "ucast eax \<noteq> ucast (eax + 8) + (of_nat (8 * j) :: u64)" if "j < n" for j
        using same_offset [of 0 "8 + 8 * j" "ucast eax"] that Suc.prems(1) step [OF False] by (simp add: algebra_simps)
      then show ?thesis by (intro pd_loop_other n [OF False]) blast
    qed simp
    then show ?thesis using 0 by (simp add: mov32_def)
  next
    case (Suc j)
    then have j: "j < n" "n \<noteq> 0" using Suc.prems(2) by auto
    have a: "ucast eax + of_nat (8 * i) = ucast (eax + 8) + (of_nat (8 * j) :: u64)"
      using step [OF j(2)] Suc by (simp add: algebra_simps)
    have "ucast eax + of_nat (8 * i) \<noteq> (ucast eax :: u64)"
      using same_offset [of "8 * i" 0 "ucast eax"] Suc.prems Suc by simp
    then have keep: "mov32 eax ebx m (ucast eax + of_nat (8 * i)) = m (ucast eax + of_nat (8 * i))"
      by (simp add: mov32_def)
    have val: "ebx + 0x200000 + 0x200000 * of_nat j = ebx + 0x200000 * of_nat i"
      using Suc by (simp add: algebra_simps)
    show ?thesis
      using Suc.IH [OF n [OF j(2)] j(1), of "ebx + 0x200000" "mov32 eax ebx m"]
      by (simp only: a [symmetric] keep val pd_loop.simps)
  qed
qed simp

text \<open>The three tables one behind the other, empty at first.\<close>

definition blank_tables :: "u32 \<Rightarrow> phys \<Rightarrow> bool" where
  "blank_tables t m \<longleftrightarrow> t AND 0xfff = 0 \<and> unat t + 0x3000 \<le> 2 ^ 32 \<and>
     (\<forall>k < 1536. m (ucast t + of_nat (8 * k)) = 0)"

lemma tables_after:
  assumes "blank_tables t m" "k < 1536"
  shows "setup_pages t (t + 0x1000) (t + 0x2000) m (ucast t + of_nat (8 * k)) =
    (if k = 0 \<or> k = 256 then ucast (t + 0x1000 OR 7) else if k = 512 then ucast (t + 0x2000 OR 7)
     else if 1024 \<le> k then of_nat (0x87 + 0x200000 * (k - 1024)) else 0)"
proof -
  define A :: "nat \<Rightarrow> u64" where "A i = ucast t + of_nat (8 * i)" for i
  have t: "unat t + 0x3000 \<le> 2 ^ 32" and blank: "\<And>k. k < 1536 \<Longrightarrow> m (A k) = 0"
    using assms(1) by (simp_all add: blank_tables_def A_def)
  have addr: "ucast t = A 0" "ucast (t + 2048) = A 256" "ucast (t + 0x1000) = A 512" "ucast (t + 0x2000) = A 1024"
    using ucast_u32_add [of t 2048] ucast_u32_add [of t "0x1000"] ucast_u32_add [of t "0x2000"] t
    by (simp_all add: A_def)
  have slot: "A i = A j \<longleftrightarrow> i = j" if "i < 1536" "j < 1536" for i j
    unfolding A_def using same_offset [of "8 * i" "8 * j"] that by simp
  define m3 where "m3 = mov32 (t + 0x1000) (t + 0x2000 OR 7) (mov32 (t + 2048) (t + 0x1000 OR 7) (mov32 t (t + 0x1000 OR 7) m))"
  have m3: "m3 (A k) = (if k = 0 \<or> k = 256 then ucast (t + 0x1000 OR 7)
      else if k = 512 then ucast (t + 0x2000 OR 7) else 0)"
    using assms(2) blank [of k] blank [of 0] blank [of 256] blank [of 512]
    by (simp add: m3_def mov32_def addr slot)
  have pd: "unat (t + 0x2000) + 8 * 512 \<le> 2 ^ 32"
    using t unat_add_lem [of t "0x2000"] by simp
  have third: "A (1024 + i) = ucast (t + 0x2000) + of_nat (8 * i)" for i
    using addr(4) by (simp add: A_def algebra_simps)
  have whole: "setup_pages t (t + 0x1000) (t + 0x2000) m (A k) = pd_loop 512 (t + 0x2000) 0x87 m3 (A k)"
    by (simp add: setup_pages_def Let_def m3_def)
  show ?thesis
  proof (cases "1024 \<le> k")
    case False
    have "A k \<noteq> ucast (t + 0x2000) + of_nat (8 * i)" if "i < 512" for i
      using slot [of k "1024 + i"] that False assms(2) unfolding third [symmetric] by simp
    then have "setup_pages t (t + 0x1000) (t + 0x2000) m (A k) = m3 (A k)"
      unfolding whole by (intro pd_loop_other [OF pd]) blast
    with False show ?thesis by (simp only: A_def m3 [unfolded A_def]) simp
  next
    case True
    define i where "i = k - 1024"
    have i: "i < 512" "k = 1024 + i" using True assms(2) by (simp_all add: i_def)
    have v: "(ucast (0x87 + 0x200000 * of_nat i :: u32) :: u64) = of_nat (0x87 + 0x200000 * i)"
      using ucast_of_nat_u32 [of "0x87 + 0x200000 * i"] i by simp
    have zero: "m3 (ucast (t + 0x2000) + of_nat (8 * i)) = 0"
      using True m3 by (simp only: third [symmetric] i(2) [symmetric]) simp
    have "setup_pages t (t + 0x1000) (t + 0x2000) m (A k) =
        pd_loop 512 (t + 0x2000) 0x87 m3 (ucast (t + 0x2000) + of_nat (8 * i))"
      unfolding whole by (simp only: i(2) third)
    also have "\<dots> = of_nat (0x87 + 0x200000 * i)"
      unfolding pd_loop_entry [OF pd i(1)] zero v by simp
    finally have "setup_pages t (t + 0x1000) (t + 0x2000) m (A k) = of_nat (0x87 + 0x200000 * i)" .
    then show ?thesis
      using True by (simp only: A_def i_def) simp
  qed
qed

subsection \<open>The walk\<close>

lemma page_masks: "(0x000ffffffffff000 :: u64) = push_bit 12 (mask 40)" "(0x000fffffffe00000 :: u64) = push_bit 21 (mask 31)"
  "(7 :: u32) = mask 3" "(0xfff :: u32) = mask 12"
  by (simp_all add: mask_eq_exp_minus_1)

lemma table_entry:
  assumes "p AND 0xfff = (0 :: u32)"
  shows "entry_base (ucast (p OR 7)) = ucast p" "bit (ucast (p OR 7) :: u64) 0" "bit (ucast (p OR 7) :: u64) 2"
proof -
  have low: "\<not> bit p n" if "n < 12" for n
  proof -
    have "bit (p AND mask 12) n \<longleftrightarrow> bit p n" using that bit_imp_le_length [of p n] by (auto simp: bit_simps)
    then show ?thesis using assms by (simp add: page_masks)
  qed
  have high: "bit p n \<Longrightarrow> 12 \<le> n" for n using low [of n] by (cases "n < 12") auto
  show "entry_base (ucast (p OR 7)) = ucast p"
    unfolding entry_base_def page_masks
    by (rule bit_word_eqI) (auto simp: bit_simps dest: bit_imp_le_length high)
qed (simp_all add: page_masks bit_simps)

lemma bit_0x87: "bit (0x87 :: u64) n \<longleftrightarrow> n \<in> {0, 1, 2, 7}" "bit (0x87 :: int) n \<longleftrightarrow> n \<in> {0, 1, 2, 7}"
proof -
  have parts: "(0x87 :: u64) = mask 3 OR push_bit 7 1" "(0x87 :: int) = mask 3 OR push_bit 7 1"
    by (simp_all add: mask_eq_exp_minus_1)
  show "bit (0x87 :: u64) n \<longleftrightarrow> n \<in> {0, 1, 2, 7}" "bit (0x87 :: int) n \<longleftrightarrow> n \<in> {0, 1, 2, 7}"
    unfolding parts by (simp_all only: bit_or_iff bit_mask_iff bit_push_bit_iff bit_1_iff) auto
qed

lemma page_entry:
  fixes w :: u64
  assumes "w < 512"
  shows "bit (0x87 + push_bit 21 w) 0" "bit (0x87 + push_bit 21 w) 2" "bit (0x87 + push_bit 21 w) 7"
    "(0x87 + push_bit 21 w) AND 0x000fffffffe00000 = push_bit 21 w"
proof -
  have or: "0x87 + push_bit 21 w = 0x87 OR push_bit 21 w"
    by (rule disjunctive_add) (auto simp: bit_0x87 bit_simps)
  have "bit w n \<Longrightarrow> n < 9" for n
  proof -
    have "w = take_bit 9 w" using assms
      by (simp add: word_unat_eq_iff unsigned_take_bit_eq take_bit_nat_eq_self word_less_nat_alt)
    then show "bit w n \<Longrightarrow> n < 9" by (metis bit_take_bit_iff)
  qed
  then show "(0x87 + push_bit 21 w) AND 0x000fffffffe00000 = push_bit 21 w"
    unfolding or page_masks by (intro bit_word_eqI) (fastforce simp: bit_0x87 bit_simps)
  show "bit (0x87 + push_bit 21 w) 0" "bit (0x87 + push_bit 21 w) 2" "bit (0x87 + push_bit 21 w) 7"
    unfolding or by (simp_all add: bit_0x87 bit_or_iff)
qed

lemma entry_index_less: "entry_index k va < 512"
  using take_bit_nat_less_exp [of 9 "unat (drop_bit k va)"]
  by (simp add: entry_index_def word_less_nat_alt unsigned_take_bit_eq)

lemma walk_entries:
  assumes "blank_tables t m"
  defines "m' \<equiv> setup_pages t (t + 0x1000) (t + 0x2000) m"
  shows "m' (ucast t + 8 * entry_index 39 va) =
      (if entry_index 39 va = 0 \<or> entry_index 39 va = 256 then ucast (t + 0x1000 OR 7) else 0)"
    "m' (ucast (t + 0x1000) + 8 * entry_index 30 va) = (if entry_index 30 va = 0 then ucast (t + 0x2000 OR 7) else 0)"
    "m' (ucast (t + 0x2000) + 8 * entry_index 21 va) = 0x87 + push_bit 21 (entry_index 21 va)"
proof -
  have t: "unat t + 0x3000 \<le> 2 ^ 32" using assms(1) by (simp add: blank_tables_def)
  have addr: "(ucast (t + 0x1000) :: u64) = ucast t + of_nat (8 * 512)" "(ucast (t + 0x2000) :: u64) = ucast t + of_nat (8 * 1024)"
    using ucast_u32_add [of t "0x1000"] ucast_u32_add [of t "0x2000"] t by simp_all
  have idx: "\<exists>k < 512. entry_index b va = of_nat k" for b
    using entry_index_less [of b va] by (intro exI [of _ "unat (entry_index b va)"]) (simp add: word_less_nat_alt)
  note after = tables_after [OF assms(1), folded m'_def]
  have inj: "(of_nat k :: u64) = of_nat j \<longleftrightarrow> k = j" if "k < 512" "j < 512" for k j
    using same_offset [of k j 0] that by simp
  obtain k where k: "k < 512" "entry_index 39 va = of_nat k" using idx by blast
  have "m' (ucast t + of_nat (8 * k)) = (if k = 0 \<or> k = 256 then ucast (t + 0x1000 OR 7) else 0)"
    using after [of k] k(1) by simp
  then show "m' (ucast t + 8 * entry_index 39 va) =
      (if entry_index 39 va = 0 \<or> entry_index 39 va = 256 then ucast (t + 0x1000 OR 7) else 0)"
    using inj [of k 0] inj [of k 256] k by simp
  obtain i where i: "i < 512" "entry_index 30 va = of_nat i" using idx by blast
  have "m' (ucast t + of_nat (8 * (512 + i))) = (if i = 0 then ucast (t + 0x2000 OR 7) else 0)"
    using after [of "512 + i"] i(1) by simp
  then show "m' (ucast (t + 0x1000) + 8 * entry_index 30 va) = (if entry_index 30 va = 0 then ucast (t + 0x2000 OR 7) else 0)"
    using inj [of i 0] i by (simp add: addr algebra_simps)
  obtain j where j: "j < 512" "entry_index 21 va = of_nat j" using idx by blast
  have "m' (ucast t + of_nat (8 * (1024 + j))) = of_nat (0x87 + 0x200000 * j)"
    using after [of "1024 + j"] j(1) by simp
  then show "m' (ucast (t + 0x2000) + 8 * entry_index 21 va) = 0x87 + push_bit 21 (entry_index 21 va)"
    using j by (simp add: addr algebra_simps push_bit_eq_mult)
qed

lemma aligned_add:
  assumes "t AND 0xfff = (0 :: u32)"
  shows "(t + 0x1000) AND 0xfff = 0" "(t + 0x2000) AND 0xfff = 0"
proof -
  have "take_bit 12 t = 0" using assms by (simp only: page_masks) (simp add: take_bit_eq_mask)
  moreover have z: "take_bit 12 x = 0 \<longleftrightarrow> unat x mod 4096 = 0" for x :: u32
    by (simp add: word_unat_eq_iff take_bit_eq_mod unat_mod)
  moreover have "unat (t + c) mod 4096 = (unat t + unat c) mod 4096" for c
    by (simp add: unat_word_ariths mod_mod_cancel)
  ultimately have "take_bit 12 (t + 0x1000) = 0" "take_bit 12 (t + 0x2000) = 0"
    by (simp_all only: z) (simp_all add: mod_add_eq [symmetric])
  then show "(t + 0x1000) AND 0xfff = 0" "(t + 0x2000) AND 0xfff = 0"
    by (simp_all only: page_masks) (simp_all add: take_bit_eq_mask)
qed

lemma walk_tables:
  assumes "blank_tables t m"
  shows "walk (setup_pages t (t + 0x1000) (t + 0x2000) m) (ucast t) va =
    (if canonical va \<and> (entry_index 39 va = 0 \<or> entry_index 39 va = 256) \<and> entry_index 30 va = 0
     then Some (take_bit 30 va, True) else None)"
proof -
  define m' where "m' = setup_pages t (t + 0x1000) (t + 0x2000) m"
  have al: "t AND 0xfff = 0" using assms by (simp add: blank_tables_def)
  note entries = walk_entries [OF assms, of va, folded m'_def]
  note first = table_entry [OF aligned_add(1) [OF al]] and second = table_entry [OF aligned_add(2) [OF al]]
  note page = page_entry [OF entry_index_less [of 21 va]]
  have cr3: "entry_base (ucast t) = ucast t"
  proof -
    have "entry_base (ucast (t OR 7)) = ucast t" by (rule table_entry(1) [OF al])
    moreover have "entry_base (ucast t) = entry_base (ucast (t OR 7))"
      unfolding entry_base_def page_masks by (rule bit_word_eqI) (auto simp: bit_simps)
    ultimately show ?thesis by simp
  qed
  have pa: "push_bit 21 (entry_index 21 va) + take_bit 21 va = take_bit 30 va"
  proof -
    have "push_bit 21 (entry_index 21 va) + take_bit 21 va = push_bit 21 (entry_index 21 va) OR take_bit 21 va"
      by (rule disjunctive_add) (auto simp: bit_simps)
    also have "\<dots> = take_bit 30 va"
      unfolding entry_index_def by (rule bit_word_eqI) (auto simp: bit_simps)
    finally show ?thesis .
  qed
  show ?thesis
  proof (cases "canonical va \<and> (entry_index 39 va = 0 \<or> entry_index 39 va = 256) \<and> entry_index 30 va = 0")
    case True
    then have "m' (ucast t + 8 * entry_index 39 va) = ucast (t + 0x1000 OR 7)"
      "m' (ucast (t + 0x1000) + 8 * entry_index 30 va) = ucast (t + 0x2000 OR 7)"
      unfolding entries by (simp_all add: True)
    with True show ?thesis
      unfolding walk_def Let_def m'_def [symmetric] cr3
      by (simp only: first second entries(3) page pa simp_thms if_True)
  next
    case False
    show ?thesis
    proof (cases "canonical va \<and> (entry_index 39 va = 0 \<or> entry_index 39 va = 256)")
      case True
      then have "m' (ucast t + 8 * entry_index 39 va) = ucast (t + 0x1000 OR 7)"
        "m' (ucast (t + 0x1000) + 8 * entry_index 30 va) = 0"
        unfolding entries using True False by simp_all
      with False show ?thesis
        unfolding walk_def Let_def m'_def [symmetric] cr3 by (simp add: first)
    next
      case no: False
      then have "canonical va \<Longrightarrow> m' (ucast t + 8 * entry_index 39 va) = 0" unfolding entries by simp
      with no show ?thesis
        unfolding walk_def Let_def m'_def [symmetric] cr3 by (cases "canonical va") auto
    qed
  qed
qed

lemma low_and_high_index:
  assumes "pa < 2 ^ 30"
  shows "entry_index 39 pa = 0 \<and> entry_index 30 pa = 0 \<and> take_bit 30 pa = pa \<and>
    entry_index 39 (PHY2VIR pa) = 256 \<and> entry_index 30 (PHY2VIR pa) = 0 \<and> take_bit 30 (PHY2VIR pa) = pa"
proof -
  have self: "take_bit 30 pa = pa"
    using assms by (simp add: word_unat_eq_iff unsigned_take_bit_eq take_bit_nat_eq_self word_less_nat_alt)
  then have low: "bit pa n \<Longrightarrow> n < 30" for n by (metis bit_take_bit_iff)
  have k: "bit KERNEL_VIRADDR n \<longleftrightarrow> 47 \<le> n \<and> n < 64" for n
    by (simp add: KERNEL_VIRADDR_mask bit_simps) (auto simp: not_less)
  have c: "bit (256 :: u64) n \<longleftrightarrow> n = 8" "bit (256 :: int) n \<longleftrightarrow> n = 8" for n
  proof -
    have "(256 :: u64) = push_bit 8 1" "(256 :: int) = push_bit 8 1" by simp_all
    then show "bit (256 :: u64) n \<longleftrightarrow> n = 8" "bit (256 :: int) n \<longleftrightarrow> n = 8"
      by (simp_all only: bit_push_bit_iff) (auto simp: bit_1_iff)
  qed
  have "entry_index 39 pa = 0" "entry_index 30 pa = 0"
    unfolding entry_index_def by (rule bit_word_eqI, auto simp: bit_take_bit_iff bit_drop_bit_eq dest: low)+
  moreover have "entry_index 39 (PHY2VIR pa) = 256"
    unfolding entry_index_def PHY2VIR_def
    by (rule bit_word_eqI) (auto simp: bit_take_bit_iff bit_drop_bit_eq bit_or_iff k c dest: low)
  moreover have "entry_index 30 (PHY2VIR pa) = 0" "take_bit 30 (PHY2VIR pa) = take_bit 30 pa"
    unfolding entry_index_def PHY2VIR_def
    by (rule bit_word_eqI, auto simp: bit_take_bit_iff bit_drop_bit_eq bit_or_iff k dest: low)+
  ultimately show ?thesis using self by simp
qed

lemma quotient_range: "0 < N \<Longrightarrow> Q * N \<le> x \<and> x < Suc Q * N \<longleftrightarrow> x div N = (Q :: nat)"
  using div_nat_eqI [of N Q x] div_times_less_eq_dividend [of x N] dividend_less_div_times [of N x]
  by (auto simp: mult.commute)

lemma mapped_range:
  "canonical va \<and> (entry_index 39 va = 0 \<or> entry_index 39 va = 256) \<and> entry_index 30 va = 0 \<longleftrightarrow>
    va < 2 ^ 30 \<or> KERNEL_VIRADDR \<le> va \<and> va < KERNEL_VIRADDR + 2 ^ 30"
proof -
  define q where "q = unat va div 2 ^ 30"
  have k: "unat KERNEL_VIRADDR = 0x3fffe0000 * 2 ^ 30" by (simp add: KERNEL_VIRADDR_def)
  have kk: "unat (KERNEL_VIRADDR + 2 ^ 30) = Suc 0x3fffe0000 * 2 ^ 30" by (simp add: KERNEL_VIRADDR_def)
  have "va < 2 ^ 30 \<longleftrightarrow> q = 0" by (simp add: q_def word_less_nat_alt div_eq_0_iff)
  moreover have "KERNEL_VIRADDR \<le> va \<and> va < KERNEL_VIRADDR + 2 ^ 30 \<longleftrightarrow> q = 0x3fffe0000"
    unfolding word_le_nat_alt word_less_nat_alt k kk q_def by (rule quotient_range) simp
  moreover have "entry_index 30 va = 0 \<longleftrightarrow> q mod 512 = 0"
    by (simp add: entry_index_def word_unat_eq_iff q_def drop_bit_eq_div take_bit_eq_mod unat_mod unat_div)
  moreover have "entry_index 39 va = i \<longleftrightarrow> q div 512 mod 512 = unat i" for i
    by (simp add: entry_index_def word_unat_eq_iff q_def drop_bit_eq_div take_bit_eq_mod unat_mod unat_div div_mult2_eq [symmetric])
  moreover have "canonical va \<longleftrightarrow> q div 512 div 256 = 0 \<or> q div 512 div 256 = 0x1ffff"
    by (simp add: canonical_def word_unat_eq_iff q_def drop_bit_eq_div unat_div div_mult2_eq [symmetric])
  moreover have "(q div 512 div 256 = 0 \<or> q div 512 div 256 = 0x1ffff) \<and>
      (q div 512 mod 512 = 0 \<or> q div 512 mod 512 = 256) \<and> q mod 512 = 0 \<longleftrightarrow> q = 0 \<or> q = 0x3fffe0000"
  proof -
    define p where "p = q div 512"
    have q: "q = 512 * p + q mod 512" by (simp add: p_def)
    have p: "p = 256 * (p div 256) + p mod 256" "p mod 256 < 256" by simp_all
    have small: "r mod 512 = r" if "r < 512" for r :: nat using that by simp
    have "p mod 512 = p mod 256" if "p div 256 = 0" using p that small [of "p mod 256"] by simp
    moreover have "p mod 512 = 256 + p mod 256" if "p div 256 = 0x1ffff"
    proof -
      have "p = 256 + p mod 256 + 512 * 65535" using p(1) unfolding that by simp
      then have "p mod 512 = (256 + p mod 256) mod 512" by (metis mod_mult_self2)
      then show ?thesis using small [of "256 + p mod 256"] p(2) by simp
    qed
    ultimately have low: "p div 256 = 0 \<Longrightarrow> p mod 512 = 256 \<Longrightarrow> False"
      "p div 256 = 0 \<Longrightarrow> p mod 512 = 0 \<Longrightarrow> p = 0" "p div 256 = 0x1ffff \<Longrightarrow> p mod 512 = 0 \<Longrightarrow> False"
      "p div 256 = 0x1ffff \<Longrightarrow> p mod 512 = 256 \<Longrightarrow> p = 0x1ffff00"
      using p by simp_all
    have "p = 0 \<Longrightarrow> q mod 512 = 0 \<Longrightarrow> q = 0" "p = 0x1ffff00 \<Longrightarrow> q mod 512 = 0 \<Longrightarrow> q = 0x3fffe0000"
      using q by simp_all
    with low have "(p div 256 = 0 \<or> p div 256 = 0x1ffff) \<and> (p mod 512 = 0 \<or> p mod 512 = 256) \<and> q mod 512 = 0 \<Longrightarrow>
        q = 0 \<or> q = 0x3fffe0000"
      by (elim conjE disjE) metis+
    then show ?thesis unfolding p_def by (intro iffI) auto
  qed
  ultimately show ?thesis by simp
qed

lemmas walk_after_setup = walk_tables [unfolded mapped_range]

lemma high_half:
  assumes "pa < 2 ^ 30"
  shows "KERNEL_VIRADDR \<le> PHY2VIR pa \<and> PHY2VIR pa < KERNEL_VIRADDR + 2 ^ 30"
proof -
  have "drop_bit 47 pa = 0" using assms by (simp add: word_unat_eq_iff drop_bit_eq_div unat_div word_less_nat_alt)
  moreover have "drop_bit 47 KERNEL_VIRADDR = 0x1ffff" by (simp add: KERNEL_VIRADDR_def)
  ultimately have "canonical (PHY2VIR pa)" by (simp add: canonical_def PHY2VIR_def drop_bit_or)
  then have "PHY2VIR pa < 2 ^ 30 \<or> KERNEL_VIRADDR \<le> PHY2VIR pa \<and> PHY2VIR pa < KERNEL_VIRADDR + 2 ^ 30"
    using low_and_high_index [OF assms] mapped_range [of "PHY2VIR pa"] by simp
  moreover have "KERNEL_VIRADDR \<le> PHY2VIR pa" unfolding PHY2VIR_def by (rule le_word_or2)
  then have "\<not> PHY2VIR pa < 2 ^ 30" by (simp add: KERNEL_VIRADDR_def word_le_nat_alt word_less_nat_alt)
  ultimately show ?thesis by blast
qed

subsection \<open>The descriptor tables\<close>

text \<open>\<^verbatim>\<open>GDT_Table\<close> in the image, and the two words that the code behind \<^verbatim>\<open>SetUp_TSS64\<close> stores at offsets 80
  and 88: the descriptor of the task state segment at \<open>tss\<close>.\<close>

definition GDT_Table :: "u64 list" where
  "GDT_Table =
     [0x0000000000000000, 0x0020980000000000, 0x0000920000000000, 0x0000000000000000, 0x0000000000000000,
      0x0020f80000000000, 0x0000f20000000000, 0x00cf9a000000ffff, 0x00cf92000000ffff] @ replicate 10 0"

definition tss_words :: "u64 \<Rightarrow> u64 \<times> u64" where
  "tss_words tss =
     (let rdx = tss;
          rax = 0x89;
          rax = push_bit 40 rax;
          rcx = rdx AND 0xffffffff;
          rcx = drop_bit 24 rcx;
          rcx = push_bit 56 rcx;
          rax = rax + rcx;
          rcx = rdx AND 0xffffffff;
          rcx = rcx AND 0xffffff;
          rcx = push_bit 16 rcx;
          rax = rax + rcx;
          rax = rax + 103;
          rdx = drop_bit 32 rdx
      in (rax, rdx))"

definition SetUp_TSS64 :: "u64 \<Rightarrow> u64 list \<Rightarrow> u64 list" where
  "SetUp_TSS64 tss gdt = (gdt[80 div 8 := fst (tss_words tss)])[88 div 8 := snd (tss_words tss)]"

text \<open>A selector picks the descriptor at its multiple of eight; the fields of a descriptor.\<close>

definition descriptor :: "u64 list \<Rightarrow> u64 \<Rightarrow> u64" where
  "descriptor gdt sel = gdt ! unat (drop_bit 3 sel)"

definition desc_type :: "u64 \<Rightarrow> u64" where "desc_type d = drop_bit 40 d AND 0x1f"
definition desc_dpl :: "u64 \<Rightarrow> u64" where "desc_dpl d = drop_bit 45 d AND 3"
definition desc_present :: "u64 \<Rightarrow> bool" where "desc_present d = bit d 47"
definition desc_long :: "u64 \<Rightarrow> bool" where "desc_long d = bit d 53"
definition desc_limit :: "u64 \<Rightarrow> u64" where
  "desc_limit d = (d AND 0xffff) OR push_bit 16 (drop_bit 48 d AND 0xf)"
definition desc_base :: "u64 \<times> u64 \<Rightarrow> u64" where
  "desc_base d = (drop_bit 16 (fst d) AND 0xffffff) OR push_bit 24 (drop_bit 56 (fst d)) OR push_bit 32 (snd d)"

text \<open>The code behind \<^verbatim>\<open>setup_IDT\<close> fills all 256 gates with the same two words; \<open>n\<close> is \<^verbatim>\<open>%rcx\<close>, which it
  decrements.\<close>

definition idt_words :: "u64 \<Rightarrow> u64 \<times> u64" where
  "idt_words ignore_int =
     (let rdx = ignore_int;
          rax = push_bit 16 0x08;
          rax = (rax AND NOT 0xffff) OR (rdx AND 0xffff);
          rcx = push_bit 32 0x8E00;
          rax = rax + rcx;
          rcx = rdx AND 0xffffffff;
          rcx = drop_bit 16 rcx;
          rcx = push_bit 48 rcx;
          rax = rax + rcx;
          rdx = drop_bit 32 rdx
      in (rax, rdx))"

fun rp_sidt :: "nat \<Rightarrow> u32 \<Rightarrow> u64 \<times> u64 \<Rightarrow> 'a gate_state_scheme \<Rightarrow> 'a gate_state_scheme" where
  "rp_sidt 0 rdi w s = s"
| "rp_sidt (Suc n) rdi w s = rp_sidt n (rdi + 1) w (s\<lparr>IDT_Table := (IDT_Table s)(rdi := w)\<rparr>)"

definition setup_IDT :: "u64 \<Rightarrow> 'a gate_state_scheme \<Rightarrow> 'a gate_state_scheme" where
  "setup_IDT ignore_int s = rp_sidt 256 0 (idt_words ignore_int) s"

subsection \<open>An interrupt nobody expects\<close>

text \<open>\<^verbatim>\<open>ignore_int\<close> saves the registers and leaves for \<^verbatim>\<open>IRQ_nothing\<close> of \<^verbatim>\<open>irq.c\<close> by a far return, which takes
  away the two words it has pushed for it. \<^verbatim>\<open>IRQ_nothing\<close> is empty and returns.\<close>

definition ignore_int :: "u64 \<Rightarrow> instr list" where
  "ignore_int irq_nothing =
     [Pushq RAX, Pushq RBX, Pushq RCX, Pushq RDX, Pushq RBP, Pushq RDI, Pushq RSI,
      Pushq R8, Pushq R9, Pushq R10, Pushq R11, Pushq R12, Pushq R13, Pushq R14, Pushq R15,
      MovSegReg ES RAX, Pushq RAX, MovSegReg DS RAX, Pushq RAX,
      MovImm 0x10 RAX, MovRegSeg RAX DS, MovRegSeg RAX ES,
      MovImm irq_nothing RAX, PushImm 0x08, Pushq RAX, Lretq]"

definition IRQ_nothing :: "instr list" where
  "IRQ_nothing = [Ret]"

subsection \<open>What the tables say\<close>

lemma bit_103: "bit (103 :: u64) n \<longleftrightarrow> n \<in> {0, 1, 2, 5, 6}" "bit (103 :: int) n \<longleftrightarrow> n \<in> {0, 1, 2, 5, 6}"
proof -
  have parts: "(103 :: u64) = mask 3 OR push_bit 5 (mask 2)" "(103 :: int) = mask 3 OR push_bit 5 (mask 2)"
    by (simp_all add: mask_eq_exp_minus_1)
  show "bit (103 :: u64) n \<longleftrightarrow> n \<in> {0, 1, 2, 5, 6}" "bit (103 :: int) n \<longleftrightarrow> n \<in> {0, 1, 2, 5, 6}"
    unfolding parts by (simp_all only: bit_or_iff bit_mask_iff bit_push_bit_iff) auto
qed

lemma bit_0x89: "bit (0x89 :: u64) n \<longleftrightarrow> n \<in> {0, 3, 7}" "bit (0x89 :: int) n \<longleftrightarrow> n \<in> {0, 3, 7}"
proof -
  have parts: "(0x89 :: u64) = mask 1 OR push_bit 3 (mask 1) OR push_bit 7 (mask 1)"
    "(0x89 :: int) = mask 1 OR push_bit 3 (mask 1) OR push_bit 7 (mask 1)"
    by (simp_all add: mask_eq_exp_minus_1)
  show "bit (0x89 :: u64) n \<longleftrightarrow> n \<in> {0, 3, 7}" "bit (0x89 :: int) n \<longleftrightarrow> n \<in> {0, 3, 7}"
    unfolding parts by (simp_all only: bit_or_iff bit_mask_iff bit_push_bit_iff) auto
qed

lemma bit_9: "bit (0x9 :: u64) n \<longleftrightarrow> n = 0 \<or> n = 3"
proof -
  have parts: "(0x9 :: u64) = mask 1 OR push_bit 3 (mask 1)"
    by (simp add: mask_eq_exp_minus_1)
  show ?thesis
    unfolding parts by (simp only: bit_or_iff bit_mask_iff bit_push_bit_iff) auto
qed

lemma masks_24: "(0xffffff :: u64) = mask 24" "(0x1f :: u64) = mask 5" "(3 :: u64) = mask 2" "(0xf :: u64) = mask 4"
  by (simp_all add: mask_eq_exp_minus_1)

lemma tss_low_bit:
  "bit (fst (tss_words tss)) n \<longleftrightarrow> n \<in> {0, 1, 2, 5, 6} \<or> (16 \<le> n \<and> n < 40 \<and> bit tss (n - 16)) \<or>
     n \<in> {40, 43, 47} \<or> (56 \<le> n \<and> n < 64 \<and> bit tss (n - 32))"
proof -
  define A B C :: u64 where "A = push_bit 40 0x89" and "B = push_bit 56 (drop_bit 24 (tss AND 0xffffffff))"
    and "C = push_bit 16 ((tss AND 0xffffffff) AND 0xffffff)"
  have A: "bit A k \<longleftrightarrow> k \<in> {40, 43, 47}" for k
    unfolding A_def by (simp only: bit_push_bit_iff bit_0x89) auto
  have B: "bit B k \<longleftrightarrow> 56 \<le> k \<and> k < 64 \<and> bit tss (k - 32)" for k
  proof (cases "56 \<le> k")
    case True
    then have "24 + (k - 56) = k - 32" by simp
    then show ?thesis
      using True by (auto simp: B_def masks_u64 bit_push_bit_iff bit_drop_bit_eq bit_and_iff bit_mask_iff)
  qed (simp only: B_def bit_push_bit_iff, simp)
  have C: "bit C k \<longleftrightarrow> 16 \<le> k \<and> k < 40 \<and> bit tss (k - 16)" for k
    unfolding C_def masks_u64 masks_24 by (auto simp: bit_push_bit_iff bit_and_iff bit_mask_iff)
  have "A + B = A OR B" "(A OR B) + C = A OR B OR C" "(A OR B OR C) + 103 = A OR B OR C OR 103"
    by (subst disjunctive_add; auto simp: A B C bit_or_iff bit_103 or.assoc)+
  then have "fst (tss_words tss) = A OR B OR C OR 103"
    by (simp only: tss_words_def Let_def fst_conv A_def [symmetric] B_def [symmetric] C_def [symmetric])
  then show ?thesis by (auto simp: bit_or_iff A B C bit_103)
qed

lemma rp_sidt_gates:
  assumes "n < 2 ^ 32"
  shows "IDT_Table (rp_sidt n rdi w s) v = (if unat (v - rdi) < n then w else IDT_Table s v)"
  using assms
proof (induction n arbitrary: rdi s)
  case (Suc n)
  show ?case
  proof (cases "v = rdi")
    case True
    then have "unat (v - (rdi + 1)) = 2 ^ 32 - 1"
      by (simp add: unsigned_minus_1_eq_mask mask_eq_exp_minus_1)
    then show ?thesis using Suc True by simp
  next
    case False
    then have "v - rdi \<noteq> 0" by simp
    then have "unat (v - (rdi + 1)) = unat (v - rdi) - 1" "0 < unat (v - rdi)"
      using unat_minus_one [of "v - rdi"] by (simp_all add: algebra_simps unat_gt_0)
    then show ?thesis using Suc False by auto
  qed
qed simp

lemma setup_IDT_gates: "IDT_Table (setup_IDT a s) v = (if v < 256 then gate_words 0x8E 0 a else IDT_Table s v)"
proof -
  have "idt_words a = gate_words 0x8E 0 a" by (simp add: idt_words_def gate_words_def Let_def)
  then show ?thesis by (simp add: setup_IDT_def rp_sidt_gates word_less_nat_alt)
qed

lemma tss_descriptor:
  "desc_base (tss_words tss) = tss" "desc_limit (fst (tss_words tss)) = 103"
  "desc_type (fst (tss_words tss)) = 0x9" "desc_present (fst (tss_words tss))"
proof -
  have snd: "snd (tss_words tss) = drop_bit 32 tss" by (simp add: tss_words_def Let_def)
  show "desc_base (tss_words tss) = tss"
  proof (rule bit_word_eqI)
    fix n
    assume "n < LENGTH(64)"
    then show "bit (desc_base (tss_words tss)) n \<longleftrightarrow> bit tss n"
      unfolding desc_base_def snd masks_24
      by (cases "32 \<le> n"; cases "24 \<le> n") (auto simp: bit_simps tss_low_bit)
  qed
  show "desc_limit (fst (tss_words tss)) = 103"
    unfolding desc_limit_def masks_u64 masks_24
    by (rule bit_word_eqI) (auto simp: bit_or_iff bit_and_iff bit_push_bit_iff bit_drop_bit_eq bit_mask_iff tss_low_bit bit_103)
  show "desc_type (fst (tss_words tss)) = 0x9"
  proof (rule bit_word_eqI)
    fix n
    assume "n < LENGTH(64)"
    have "bit (desc_type (fst (tss_words tss))) n \<longleftrightarrow> n < 5 \<and> bit (fst (tss_words tss)) (40 + n)"
      unfolding desc_type_def masks_24 by (auto simp: bit_and_iff bit_drop_bit_eq bit_mask_iff)
    also have "\<dots> \<longleftrightarrow> n = 0 \<or> n = 3" by (auto simp: tss_low_bit)
    finally show "bit (desc_type (fst (tss_words tss))) n \<longleftrightarrow> bit (0x9 :: u64) n" by (simp only: bit_9)
  qed
  show "desc_present (fst (tss_words tss))" by (simp add: desc_present_def tss_low_bit)
qed

subsection \<open>Properties\<close>

text \<open>C14: The first page tables map exactly the first gigabyte of physical memory, twice, in pages of
  2 megabytes: at the virtual addresses below 2^30 and at the gigabyte from KERNEL_VIRADDR, where PHY2VIR puts it.
  Every other address faults, those that are not canonical included, and every page is accessible to user
  mode, the kernel's included. The space of the three tables is page aligned, below 4 gigabytes and all 0
  before, as the section is.\<close>

theorem first_gigabyte_mapped:
  assumes "blank_tables t m"
  shows "let m' = setup_pages t (t + 0x1000) (t + 0x2000) m
    in walk m' (ucast t) va =
         (if va < 2 ^ 30 \<or> KERNEL_VIRADDR \<le> va \<and> va < KERNEL_VIRADDR + 2 ^ 30
          then Some (take_bit 30 va, True) else None) \<and>
       (if pa < 2 ^ 30 then walk m' (ucast t) pa = Some (pa, True) \<and> walk m' (ucast t) (PHY2VIR pa) = Some (pa, True)
        else True)"
  using low_and_high_index [of pa] high_half [of pa] by (simp add: Let_def walk_after_setup [OF assms])

theorem first_gigabyte_mapped_witness:
  "let m' = setup_pages 0x2000000 0x2001000 0x2002000 (\<lambda>_. 0)
   in walk m' 0x2000000 0xffff800002110000 = Some (0x2110000, True) \<and> walk m' 0x2000000 0x40000000 = None"
proof -
  have "blank_tables 0x2000000 (\<lambda>_. 0)" by (simp add: blank_tables_def)
  from first_gigabyte_mapped [OF this, of "0xffff800002110000" 0] first_gigabyte_mapped [OF this, of "0x40000000" 0]
  show ?thesis by (simp add: Let_def KERNEL_VIRADDR_def)
qed

text \<open>C16: The descriptors are the ones the kernel's code relies on: selector 8 is a present 64-bit code segment
  of level 0; the segments that sysexit derives from the MSR 0x174, 32 and 40 above KERNEL_CS, are a
  64-bit code and a writable data segment of level 3; and the task register is loaded with a present
  64-bit task state segment at TSS64_Table with the 104 bytes of that table.\<close>

theorem descriptors_fit_the_code:
  "let gdt = SetUp_TSS64 tss GDT_Table; k = descriptor gdt 0x08; c = descriptor gdt (0x08 + 32);
     d = descriptor gdt (0x08 + 40); r = push_bit 3 10; t = descriptor gdt r
   in trace (load_TR 10 s) = trace s @ [Ltr r] \<and>
      desc_present k \<and> desc_long k \<and> desc_dpl k = 0 \<and> desc_type k = 0x18 \<and>
      desc_present c \<and> desc_long c \<and> desc_dpl c = 3 \<and> desc_type c = 0x18 \<and>
      desc_present d \<and> desc_dpl d = 3 \<and> desc_type d = 0x12 \<and>
      desc_present t \<and> desc_type t = 0x9 \<and> desc_limit t = 4 * 26 - 1 \<and> desc_base (t, descriptor gdt (r + 8)) = tss"
proof -
  let ?gdt = "SetUp_TSS64 tss GDT_Table"
  have d: "descriptor ?gdt 0x08 = 0x0020980000000000" "descriptor ?gdt 0x28 = 0x0020f80000000000"
    "descriptor ?gdt 0x30 = 0x0000f20000000000" "descriptor ?gdt 0x50 = fst (tss_words tss)"
    "descriptor ?gdt 0x58 = snd (tss_words tss)"
    by (simp_all add: descriptor_def SetUp_TSS64_def GDT_Table_def)
  have f: "desc_present 0x0020980000000000" "desc_long 0x0020980000000000" "desc_dpl 0x0020980000000000 = 0"
    "desc_type 0x0020980000000000 = 0x18" "desc_present 0x0020f80000000000" "desc_long 0x0020f80000000000"
    "desc_dpl 0x0020f80000000000 = 3" "desc_type 0x0020f80000000000 = 0x18" "desc_present 0x0000f20000000000"
    "desc_dpl 0x0000f20000000000 = 3" "desc_type 0x0000f20000000000 = 0x12"
    by code_simp+
  show ?thesis
    using tss_descriptor [of tss] by (simp add: Let_def d f load_TR_def)
qed

text \<open>C15: When the kernel runs, every one of the 256 vectors has a handler: its stub for those from 0x20 to
  0x37, ignore_int for all others, each as an interrupt gate of the kernel's code segment.\<close>

theorem every_vector_has_a_gate:
  "if v < 256
   then let g = IDT_Table (init_interrupt stub (setup_IDT ignore s)) v
        in gate_offset g = (if 0x20 \<le> v \<and> v \<le> 0x37 then stub (ucast v) else ignore) \<and>
           gate_selector g = 0x8 \<and> gate_ist g = 0 \<and> gate_attr g = 0x8E
   else IDT_Table (init_interrupt stub (setup_IDT ignore s)) v = IDT_Table s v"
proof -
  have "(0x8E :: u64) < 0x100" by simp
  note parts = gate_parts [OF this]
  have "v < 256" if "v \<le> 0x37"
    using that by (simp add: word_le_nat_alt word_less_nat_alt)
  then show ?thesis
    by (simp add: init_interrupt_gates irq_gates setup_IDT_gates parts Let_def)
qed

text \<open>C17: An interrupt or exception with a vector outside the stubs does not come back: the far return at the
  end of ignore_int leaves the saved registers on the stack and no return address, so IRQ_nothing
  returns to the number in ds, an address near zero.\<close>

theorem ignored_interrupt_jumps_to_ds:
  "let c1 = run (ignore_int nothing) (deliver base c); c2 = run IRQ_nothing c1
   in rip c1 = nothing \<and> rip c2 = ucast (segs c DS) \<and> rip c2 < 0x10000 \<and> segs c2 = (\<lambda>_. 0x10)"
proof -
  have "segs (run (ignore_int nothing) (deliver base c)) = (\<lambda>_. 0x10)"
  proof
    fix g
    show "segs (run (ignore_int nothing) (deliver base c)) g = 0x10"
      by (cases g) (simp_all add: ignore_int_def deliver_def run_simps)
  qed
  moreover have "(ucast (segs c DS) :: u64) < 0x10000"
    using unsigned_less [of "segs c DS", where ?'a = nat]
    by (simp add: word_less_nat_alt unsigned_ucast_eq take_bit_nat_eq_self)
  ultimately show ?thesis
    by (simp add: Let_def IRQ_nothing_def run_append [symmetric])
      (simp add: ignore_int_def deliver_def run_simps)
qed

end
