(* ===== verification/Header.thy ===== *)
theory Header
  imports Prelude
begin

text \<open>
  The Multiboot2 header of \<^verbatim>\<open>arch/x86/boot/multiboot2.S\<close> as the bytes that the assembler lays out, and what
  a boot loader makes of it. The loader's side is the specification: it looks for the magic number on
  8-byte boundaries in the first 32 kilobytes, adds up the four fields, and walks the tags to the end tag.
\<close>

definition MULTIBOOT_SEARCH :: nat where "MULTIBOOT_SEARCH = 32768"
definition MULTIBOOT_HEADER_ALIGN :: nat where "MULTIBOOT_HEADER_ALIGN = 8"
definition MULTIBOOT2_HEADER_MAGIC :: u32 where "MULTIBOOT2_HEADER_MAGIC = 0xe85250d6"
definition MULTIBOOT_ARCHITECTURE_I386 :: u32 where "MULTIBOOT_ARCHITECTURE_I386 = 0"
definition MULTIBOOT_HEADER_TAG_END :: u16 where "MULTIBOOT_HEADER_TAG_END = 0"
definition MULTIBOOT_HEADER_TAG_FRAMEBUFFER :: u16 where "MULTIBOOT_HEADER_TAG_FRAMEBUFFER = 5"
definition MULTIBOOT_HEADER_TAG_OPTIONAL :: u16 where "MULTIBOOT_HEADER_TAG_OPTIONAL = 1"
definition FRAMEBUFFER_WIDTH :: u32 where "FRAMEBUFFER_WIDTH = 1024"
definition FRAMEBUFFER_HEIGHT :: u32 where "FRAMEBUFFER_HEIGHT = 768"
definition FRAMEBUFFER_BPP :: u32 where "FRAMEBUFFER_BPP = 24"

lemmas header_constants = MULTIBOOT2_HEADER_MAGIC_def MULTIBOOT_ARCHITECTURE_I386_def MULTIBOOT_HEADER_TAG_END_def
  MULTIBOOT_HEADER_TAG_FRAMEBUFFER_def MULTIBOOT_HEADER_TAG_OPTIONAL_def FRAMEBUFFER_WIDTH_def
  FRAMEBUFFER_HEIGHT_def FRAMEBUFFER_BPP_def

subsection \<open>The bytes\<close>

definition short :: "u16 \<Rightarrow> u8 list" where
  "short w = bytes_of 2 (ucast w)"

definition long :: "u32 \<Rightarrow> u8 list" where
  "long w = bytes_of 4 (ucast w)"

text \<open>\<^verbatim>\<open>.align 8\<close>: the assembler fills with bytes of its choice.\<close>

definition align_8 :: "u8 \<Rightarrow> u8 list \<Rightarrow> u8 list" where
  "align_8 fill bs = bs @ replicate ((8 - length bs mod 8) mod 8) fill"

definition tag_framebuffer :: "u8 list" where
  "tag_framebuffer = short MULTIBOOT_HEADER_TAG_FRAMEBUFFER @ short MULTIBOOT_HEADER_TAG_OPTIONAL @
     long 20 @ long FRAMEBUFFER_WIDTH @ long FRAMEBUFFER_HEIGHT @ long FRAMEBUFFER_BPP"

text \<open>\<open>vbe\<close> is whether \<^verbatim>\<open>KERN_VBE_MODE\<close> is defined.\<close>

definition header_body :: "u8 \<Rightarrow> bool \<Rightarrow> u32 \<Rightarrow> u8 list" where
  "header_body fill vbe len =
     (let h = long MULTIBOOT2_HEADER_MAGIC @ long MULTIBOOT_ARCHITECTURE_I386 @ long len @
            long (- (MULTIBOOT2_HEADER_MAGIC + MULTIBOOT_ARCHITECTURE_I386 + len));
          h = (if vbe then align_8 fill h @ tag_framebuffer else h)
      in align_8 fill h @ short MULTIBOOT_HEADER_TAG_END @ short 0 @ long 8)"

text \<open>\<^verbatim>\<open>multiboot_header_end - multiboot_header\<close>: the distance of the two labels, whatever the length field holds.\<close>

definition header_length :: "bool \<Rightarrow> nat" where
  "header_length vbe = length (header_body 0 vbe 0)"

definition multiboot_header :: "u8 \<Rightarrow> bool \<Rightarrow> u8 list" where
  "multiboot_header fill vbe = header_body fill vbe (of_nat (header_length vbe))"

text \<open>The start of the section \<^verbatim>\<open>.bs.text\<close>: the jump over the header, and the header.\<close>

definition boot_section :: "u8 \<Rightarrow> bool \<Rightarrow> u8 list \<Rightarrow> u8 list" where
  "boot_section fill vbe jmp = align_8 fill jmp @ multiboot_header fill vbe"

subsection \<open>The loader\<close>

definition field :: "nat \<Rightarrow> nat \<Rightarrow> u8 list \<Rightarrow> u64" where
  "field off k bs = word_of_bytes (take k (drop off bs))"

definition header_at :: "u8 list \<Rightarrow> nat \<Rightarrow> bool" where
  "header_at bs off \<longleftrightarrow> off mod MULTIBOOT_HEADER_ALIGN = 0 \<and> off + 16 \<le> length bs \<and>
     field off 4 bs = ucast MULTIBOOT2_HEADER_MAGIC \<and>
     off + unat (field (off + 8) 4 bs) \<le> min MULTIBOOT_SEARCH (length bs) \<and>
     (ucast (field off 4 bs) + ucast (field (off + 4) 4 bs) + ucast (field (off + 8) 4 bs) +
       ucast (field (off + 12) 4 bs) :: u32) = 0"

text \<open>The tags behind the first 16 bytes: type, flags and contents; \<open>None\<close> is a header the loader refuses.\<close>

function header_tags :: "u8 list \<Rightarrow> (u64 \<times> u64 \<times> u8 list) list option" where
  "header_tags bs =
     (let size = unat (field 4 4 bs)
      in if length bs < 8 \<or> size < 8 \<or> length bs < size then None
         else if field 0 2 bs = 0 then (if size = 8 then Some [] else None)
         else map_option (\<lambda>ts. (field 0 2 bs, field 2 2 bs, take (size - 8) (drop 8 bs)) # ts)
           (header_tags (drop (8 * ((size + 7) div 8)) bs)))"
  by pat_completeness auto
termination
  by (relation "measure length") auto

declare header_tags.simps [simp del]

definition read_header :: "u8 list \<Rightarrow> (u64 \<times> (u64 \<times> u64 \<times> u8 list) list) option" where
  "read_header file =
     (case List.find (header_at file) [0..<MULTIBOOT_SEARCH] of
        None \<Rightarrow> None
      | Some off \<Rightarrow> map_option (Pair (field (off + 4) 4 file))
          (header_tags (drop 16 (take (unat (field (off + 8) 4 file)) (drop off file)))))"

subsection \<open>Reading the header back\<close>

lemma length_short [simp]: "length (short w) = 2" "length (long v) = 4"
  by (simp_all add: short_def long_def)

lemma field_past: "field (length xs + off) k (xs @ ys) = field off k ys"
  by (simp add: field_def)

lemma header_length_eq: "header_length vbe = (if vbe then 48 else 24)"
  by (simp add: header_length_def header_body_def align_8_def tag_framebuffer_def)

lemma multiboot_header_bytes:
  "multiboot_header fill False =
     [0xd6, 0x50, 0x52, 0xe8, 0, 0, 0, 0, 24, 0, 0, 0, 0x12, 0xaf, 0xad, 0x17, 0, 0, 0, 0, 8, 0, 0, 0]"
  "multiboot_header fill True =
     [0xd6, 0x50, 0x52, 0xe8, 0, 0, 0, 0, 48, 0, 0, 0, 0xfa, 0xae, 0xad, 0x17,
      5, 0, 1, 0, 20, 0, 0, 0, 0, 4, 0, 0, 0, 3, 0, 0, 24, 0, 0, 0, fill, fill, fill, fill, 0, 0, 0, 0, 8, 0, 0, 0]"
proof -
  have long: "long w = [ucast w, ucast (drop_bit 8 w), ucast (drop_bit 16 w), ucast (drop_bit 24 w)]" for w :: u32
    unfolding long_def bytes_of_def
    by (simp add: upt_rec numeral_eq_Suc) (intro conjI; rule bit_word_eqI; auto simp: bit_simps)
  have short: "short w = [ucast w, ucast (drop_bit 8 w)]" for w :: u16
    unfolding short_def bytes_of_def
    by (simp add: upt_rec numeral_eq_Suc) (intro conjI; rule bit_word_eqI; auto simp: bit_simps)
  show "multiboot_header fill False =
     [0xd6, 0x50, 0x52, 0xe8, 0, 0, 0, 0, 24, 0, 0, 0, 0x12, 0xaf, 0xad, 0x17, 0, 0, 0, 0, 8, 0, 0, 0]"
    by (simp add: multiboot_header_def header_body_def header_length_eq align_8_def long short header_constants)
  have four: "replicate 4 fill = [fill, fill, fill, fill]" by (simp add: numeral_eq_Suc)
  show "multiboot_header fill True =
     [0xd6, 0x50, 0x52, 0xe8, 0, 0, 0, 0, 48, 0, 0, 0, 0xfa, 0xae, 0xad, 0x17,
      5, 0, 1, 0, 20, 0, 0, 0, 0, 4, 0, 0, 0, 3, 0, 0, 24, 0, 0, 0, fill, fill, fill, fill, 0, 0, 0, 0, 8, 0, 0, 0]"
    by (simp add: multiboot_header_def header_body_def header_length_eq align_8_def tag_framebuffer_def long short header_constants four)
qed

lemma length_multiboot_header: "length (multiboot_header fill vbe) = header_length vbe"
  by (cases vbe) (simp_all add: multiboot_header_bytes header_length_eq)

lemma header_tags_end: "header_tags (0 # 0 # f # g # 8 # 0 # 0 # 0 # bs) = Some []"
  by (subst header_tags.simps) (simp add: field_def Let_def)

lemma header_tags_read:
  "header_tags (drop 16 (multiboot_header fill vbe)) =
     Some (if vbe then [(5, 1, long FRAMEBUFFER_WIDTH @ long FRAMEBUFFER_HEIGHT @ long FRAMEBUFFER_BPP)] else [])"
proof (cases vbe)
  case True
  have "long FRAMEBUFFER_WIDTH @ long FRAMEBUFFER_HEIGHT @ long FRAMEBUFFER_BPP =
      [0, 4, 0, 0, 0, 3, 0, 0, 24, 0, 0, 0]"
    by code_simp
  then show ?thesis
    using True unfolding multiboot_header_bytes
    by (simp add: multiboot_header_bytes) (subst header_tags.simps, simp add: field_def Let_def header_tags_end)
qed (simp add: multiboot_header_bytes header_tags_end)

lemma header_found:
  assumes "length pre mod 8 = 0" "length pre + header_length vbe \<le> MULTIBOOT_SEARCH"
  shows "header_at (pre @ multiboot_header fill vbe @ rest) (length pre)"
proof -
  have f: "field (length pre) k (pre @ ys) = field 0 k ys" for k ys
    using field_past [of pre 0 k ys] by simp
  have "field 0 4 (multiboot_header fill vbe @ rest) = 0xe85250d6" "field 4 4 (multiboot_header fill vbe @ rest) = 0"
    "field 8 4 (multiboot_header fill vbe @ rest) = of_nat (header_length vbe)"
    "field 12 4 (multiboot_header fill vbe @ rest) = (if vbe then 0x17adaefa else 0x17adaf12)"
    by (cases vbe; simp add: multiboot_header_bytes field_def header_length_eq)+
  then show ?thesis
    using assms length_multiboot_header [of fill vbe]
    by (simp add: header_at_def MULTIBOOT_HEADER_ALIGN_def f field_past MULTIBOOT2_HEADER_MAGIC_def)
      (cases vbe, simp_all add: header_length_eq)
qed

subsection \<open>Properties\<close>

text \<open>C31: A Multiboot2 loader accepts the image. Wherever in the first 32 kilobytes of the file the boot section
  starts on an 8-byte boundary, whatever the assembler fills gaps with, with and without the graphics
  option: if nothing before looks like a header, the loader finds this one behind the jump, its checksum
  adds up, and it reads the architecture i386 and exactly the request for a 1024 by 768 screen of 24
  bits, or no request.\<close>

theorem boot_header_is_accepted:
  assumes "length pre mod 8 = 0" "0 < length jmp" "length jmp \<le> 8"
    and "length pre + 8 + header_length vbe \<le> MULTIBOOT_SEARCH"
    and "\<forall>off < length pre + 8. \<not> header_at (pre @ boot_section fill vbe jmp @ rest) off"
  shows "read_header (pre @ boot_section fill vbe jmp @ rest) =
    Some (0, if vbe then [(5, 1, long 1024 @ long 768 @ long 24)] else [])"
proof -
  define p where "p = pre @ align_8 fill jmp"
  have p: "length p = length pre + 8" using assms(2,3) by (cases "length jmp = 8") (simp_all add: p_def align_8_def)
  have image: "pre @ boot_section fill vbe jmp @ rest = p @ multiboot_header fill vbe @ rest" by (simp add: p_def boot_section_def)
  have at: "header_at (p @ multiboot_header fill vbe @ rest) (length p)"
    by (rule header_found) (use assms(1,4) p in simp_all)
  have "length p < MULTIBOOT_SEARCH" using assms(4) p by (cases vbe) (simp_all add: header_length_eq)
  then have "List.find (header_at (p @ multiboot_header fill vbe @ rest)) [0..<MULTIBOOT_SEARCH] = Some (length p)"
    unfolding find_Some_iff using at assms(5) p image by (intro exI [of _ "length p"]) simp
  moreover have "field (length p + 4) 4 (p @ multiboot_header fill vbe @ rest) = 0"
    "field (length p + 8) 4 (p @ multiboot_header fill vbe @ rest) = of_nat (header_length vbe)"
    by (cases vbe; simp add: field_past; simp add: multiboot_header_bytes field_def header_length_eq)+
  moreover have "unat (of_nat (header_length vbe) :: u64) = length (multiboot_header fill vbe)"
    unfolding length_multiboot_header by (rule unat_of_nat_u64) (simp add: header_length_eq)
  ultimately show ?thesis
    unfolding image read_header_def
    by (simp add: header_tags_read FRAMEBUFFER_WIDTH_def FRAMEBUFFER_HEIGHT_def FRAMEBUFFER_BPP_def)
qed

theorem boot_header_is_accepted_witness:
  "read_header (boot_section 0x90 True [0xeb, 0x36] @ [0xfa]) = Some (0, [(5, 1, long 1024 @ long 768 @ long 24)])"
proof -
  have "field 0 4 (boot_section 0x90 True [0xeb, 0x36] @ [0xfa]) \<noteq> ucast MULTIBOOT2_HEADER_MAGIC" by code_simp
  moreover have "off mod 8 = 0 \<Longrightarrow> off < 8 \<Longrightarrow> off = 0" for off :: nat by presburger
  ultimately have "\<not> header_at (boot_section 0x90 True [0xeb, 0x36] @ [0xfa]) off" if "off < 8" for off
    using that unfolding header_at_def MULTIBOOT_HEADER_ALIGN_def by metis
  then show ?thesis
    using boot_header_is_accepted [of "[]" "[0xeb, 0x36]" True "0x90" "[0xfa]"]
    by (simp add: header_length_eq MULTIBOOT_SEARCH_def)
qed

end
