(* ===== verification/LongMode.thy ===== *)
theory LongMode
  imports Entry
begin

text \<open>
  The way of \<^verbatim>\<open>arch/x86/boot/multiboot2.S\<close> from the boot loader's 32-bit mode to the 64-bit \<^verbatim>\<open>kernel_start\<close>: the
  code up to the far jump as a list of instructions on the control registers, with the page tables of Entry
  in between, and the code behind it on the processor of Trap. What the processor does, and when it faults
  instead, is the specification: an instruction is fetched through the page tables once paging is on.
\<close>

subsection \<open>The 32-bit processor\<close>

record boot_cpu =
  eax :: u32
  ebx :: u32
  ecx :: u32
  edx :: u32
  cr0 :: u32
  cr3 :: u32
  cr4 :: u32
  efer :: u64
  gdtr :: "u32 \<times> u16"
  boot_cs :: u16
  wide :: bool
  eip :: u32
  int_flag :: bool
  memory :: phys
  mb2_magic :: u64
  mb2_info :: u64

text \<open>\<open>StoreMagic\<close> and \<open>StoreInfo\<close> are the moves to the two variables, whose upper halves they leave;
  \<open>Pages\<close> stands for the straight-line code that \<open>setup_pages\<close> translates, with the addresses of the three
  tables.\<close>

datatype boot_instr =
    Cli32
  | StoreMagic
  | StoreInfo
  | MovCr4Eax
  | MovEaxCr4
  | MovCr0Eax
  | MovEaxCr0
  | MovEaxCr3
  | OrEax u32
  | MovEax u32
  | MovEcx u32
  | Pages u32 u32 u32
  | Rdmsr
  | Wrmsr32
  | Lgdt "u32 \<times> u16"
  | JmpFar u16 u32

definition paging :: "boot_cpu \<Rightarrow> bool" where
  "paging c \<longleftrightarrow> bit (cr0 c) 31"

text \<open>A linear address: itself without paging, else what the walk gives.\<close>

definition linear :: "boot_cpu \<Rightarrow> u32 \<Rightarrow> u64 option" where
  "linear c a = (if paging c then map_option fst (walk (memory c) (ucast (cr3 c)) (ucast a)) else Some (ucast a))"

text \<open>Setting the paging bit needs protection, and with the long mode bit of EFER also the PAE bit of CR4; it
  then sets the long mode active bit. Clearing it leaves long mode.\<close>

definition write_cr0 :: "u32 \<Rightarrow> boot_cpu \<Rightarrow> boot_cpu option" where
  "write_cr0 v c =
     (if bit v 31 \<and> \<not> bit v 0 then None
      else if bit v 31 \<and> bit (efer c) 8 \<and> \<not> bit (cr4 c) 5 then None
      else Some (c\<lparr>cr0 := v, efer := (if bit v 31 \<and> bit (efer c) 8 then set_bit 10 (efer c)
                                     else unset_bit 10 (efer c))\<rparr>))"

definition MSR_EFER :: u32 where "MSR_EFER = 0xC0000080"

text \<open>The far jump loads a present code segment of level 0; with long mode active its L bit decides about
  64-bit code.\<close>

definition far_jump :: "u16 \<Rightarrow> u32 \<Rightarrow> boot_cpu \<Rightarrow> boot_cpu option" where
  "far_jump sel off c =
     (if snd (gdtr c) < sel + 7 then None
      else Option.bind (linear c (fst (gdtr c) + ucast sel)) (\<lambda>pa.
        let d = memory c pa
        in if desc_present d \<and> desc_type d AND 0x18 = 0x18 \<and> desc_dpl d = 0
           then Some (c\<lparr>boot_cs := sel, wide := (bit (efer c) 10 \<and> desc_long d), eip := off\<rparr>)
           else None))"

fun boot_exec :: "boot_instr \<Rightarrow> boot_cpu \<Rightarrow> boot_cpu option" where
  "boot_exec Cli32 c = Some (c\<lparr>int_flag := False\<rparr>)"
| "boot_exec StoreMagic c = Some (c\<lparr>mb2_magic := (mb2_magic c AND NOT 0xffffffff) OR ucast (eax c)\<rparr>)"
| "boot_exec StoreInfo c = Some (c\<lparr>mb2_info := (mb2_info c AND NOT 0xffffffff) OR ucast (ebx c)\<rparr>)"
| "boot_exec MovCr4Eax c = Some (c\<lparr>eax := cr4 c\<rparr>)"
| "boot_exec MovEaxCr4 c = Some (c\<lparr>cr4 := eax c\<rparr>)"
| "boot_exec MovCr0Eax c = Some (c\<lparr>eax := cr0 c\<rparr>)"
| "boot_exec MovEaxCr0 c = write_cr0 (eax c) c"
| "boot_exec MovEaxCr3 c = Some (c\<lparr>cr3 := eax c\<rparr>)"
| "boot_exec (OrEax v) c = Some (c\<lparr>eax := eax c OR v\<rparr>)"
| "boot_exec (MovEax v) c = Some (c\<lparr>eax := v\<rparr>)"
| "boot_exec (MovEcx v) c = Some (c\<lparr>ecx := v\<rparr>)"
| "boot_exec (Pages pml4 pdpt pd) c = Some (c\<lparr>memory := setup_pages pml4 pdpt pd (memory c)\<rparr>)"
| "boot_exec Rdmsr c =
     (if ecx c = MSR_EFER then Some (c\<lparr>eax := ucast (efer c), edx := ucast (drop_bit 32 (efer c))\<rparr>) else None)"
| "boot_exec Wrmsr32 c =
     (let v = push_bit 32 (ucast (edx c)) OR ucast (eax c)
      in if ecx c = MSR_EFER \<and> (paging c \<longrightarrow> bit v 8 = bit (efer c) 8) then Some (c\<lparr>efer := v\<rparr>) else None)"
| "boot_exec (Lgdt p) c = Some (c\<lparr>gdtr := p\<rparr>)"
| "boot_exec (JmpFar sel off) c = far_jump sel off c"

text \<open>\<open>addr k\<close> is where the assembler has put the \<open>k\<close>-th instruction: one that is not fetched from its own
  address is another instruction.\<close>

fun boot_run :: "(nat \<Rightarrow> u32) \<Rightarrow> nat \<Rightarrow> boot_instr list \<Rightarrow> boot_cpu \<Rightarrow> boot_cpu option" where
  "boot_run addr k [] c = Some c"
| "boot_run addr k (i # is) c =
     (if linear c (addr k) = Some (ucast (addr k)) then Option.bind (boot_exec i c) (boot_run addr (Suc k) is)
      else None)"

subsection \<open>The code\<close>

text \<open>The section \<^verbatim>\<open>.bs.data\<close>: three tables and the GDT behind them; \<open>t\<close> is the address of \<^verbatim>\<open>pml4\<close>. The registers
  that the code of the tables changes are loaded anew behind it.\<close>

definition gdt64_pointer64 :: "u32 \<Rightarrow> u32 \<times> u16" where
  "gdt64_pointer64 t = (t + 0x3000, 19 * 8 - 1)"

definition multiboot_entry :: "u32 \<Rightarrow> u32 \<Rightarrow> boot_instr list" where
  "multiboot_entry t start64 =
     [Cli32, StoreMagic, StoreInfo,
      MovCr4Eax, OrEax (push_bit 5 1), MovEaxCr4,
      Pages t (t + 0x1000) (t + 0x2000),
      MovEax t, MovEaxCr3,
      MovEcx 0xC0000080, Rdmsr, OrEax (push_bit 8 1), Wrmsr32,
      MovCr0Eax, OrEax (push_bit 31 1), MovEaxCr0,
      Lgdt (gdt64_pointer64 t), JmpFar 0x8 start64]"

text \<open>Behind the far jump: the segment registers, the stack at the end of \<^verbatim>\<open>init_task_union\<close>, and the far return
  to the address that \<^verbatim>\<open>go_to_kernel\<close> holds. \<open>setup_IDT\<close> and \<open>SetUp_TSS64\<close>, which stand between them, are in
  Entry. The registers \<^verbatim>\<open>fs\<close> and \<^verbatim>\<open>gs\<close>, set in the same way, are not part of the processor of Trap.\<close>

definition start64_segments :: "u64 \<Rightarrow> cpu \<Rightarrow> cpu" where
  "start64_segments stack_start c =
     (run [MovImm 0x10 RAX, MovRegSeg RAX DS, MovRegSeg RAX ES] c)\<lparr>ss := 0x10, rsp := stack_start\<rparr>"

definition go_to_kernel :: "u64 \<Rightarrow> instr list" where
  "go_to_kernel kernel_start = [MovImm kernel_start RAX, PushImm 0x08, Pushq RAX, Lretq]"

lemma kernel_start_entered:
  "let c' = run (go_to_kernel kernel_start) (start64_segments stack c)
   in rip c' = kernel_start \<and> cs c' = 0x8 \<and> rsp c' = stack \<and> ss c' = 0x10 \<and> segs c' = (\<lambda>_. 0x10)"
proof -
  have "segs (run (go_to_kernel kernel_start) (start64_segments stack c)) g = 0x10" for g
    by (cases g) (simp_all add: go_to_kernel_def start64_segments_def run_simps)
  then show ?thesis
    by (auto simp: Let_def) (simp_all add: go_to_kernel_def start64_segments_def run_simps)
qed

subsection \<open>After the tables\<close>

lemma setup_pages_other:
  assumes "blank_tables t m" "1536 \<le> k" "k < 2 ^ 40"
  shows "setup_pages t (t + 0x1000) (t + 0x2000) m (ucast t + of_nat (8 * k)) = m (ucast t + of_nat (8 * k))"
proof -
  have t: "unat t + 0x3000 \<le> 2 ^ 32" using assms(1) by (simp add: blank_tables_def)
  have addr: "(ucast t :: u64) = ucast t + of_nat (8 * 0)" "(ucast (t + 2048) :: u64) = ucast t + of_nat (8 * 256)"
    "(ucast (t + 0x1000) :: u64) = ucast t + of_nat (8 * 512)" "(ucast (t + 0x2000) :: u64) = ucast t + of_nat (8 * 1024)"
    using ucast_u32_add [of t 2048] ucast_u32_add [of t "0x1000"] ucast_u32_add [of t "0x2000"] t by simp_all
  have slot: "ucast t + of_nat (8 * k) \<noteq> (ucast t + of_nat (8 * i) :: u64)" if "i < 1536" for i
    using same_offset [of "8 * k" "8 * i" "ucast t"] assms(2,3) that by simp
  have pd: "unat (t + 0x2000) + 8 * 512 \<le> 2 ^ 32" using t unat_add_lem [of t "0x2000"] by simp
  have other: "ucast t + of_nat (8 * k) \<noteq> (ucast (t + 0x2000) + of_nat (8 * i) :: u64)" if "i < 512" for i
    using slot [of "1024 + i"] that by (simp add: addr(4) algebra_simps)
  show ?thesis
    unfolding setup_pages_def Let_def
    using pd_loop_other [OF pd, of "ucast t + of_nat (8 * k)"] other slot [of 0] slot [of 256] slot [of 512]
    by (simp add: mov32_def addr(2,3) del: of_nat_mult)
qed

lemma identity_below_1G:
  assumes "blank_tables t m" "a < 2 ^ 30"
  shows "walk (setup_pages t (t + 0x1000) (t + 0x2000) m) (ucast t) (ucast a) = Some (ucast (a :: u32), True)"
proof -
  have "(ucast a :: u64) < 2 ^ 30" using assms(2) by (simp add: word_less_nat_alt)
  from low_and_high_index [OF this] this show ?thesis by (simp add: walk_after_setup [OF assms(1)])
qed

text \<open>What the loader leaves: protected mode without paging, and the section \<^verbatim>\<open>.bs.data\<close> as assembled, in the
  first gigabyte.\<close>

definition loaded_machine :: "u32 \<Rightarrow> boot_cpu \<Rightarrow> bool" where
  "loaded_machine t c \<longleftrightarrow> bit (cr0 c) 0 \<and> \<not> bit (cr0 c) 31 \<and> \<not> bit (efer c) 10 \<and> blank_tables t (memory c) \<and>
     unat t + 0x4000 \<le> 2 ^ 30 \<and> (\<forall>i < length GDT_Table. memory c (ucast t + of_nat (8 * (1536 + i))) = GDT_Table ! i)"

lemma boot_run_append:
  "boot_run addr k (is @ js) c = Option.bind (boot_run addr k is c) (boot_run addr (k + length is) js)"
proof (induction "is" arbitrary: k c)
  case (Cons i "is")
  then show ?case by (cases "boot_exec i c") simp_all
qed simp

lemma boot_run_nil: "boot_run addr k [] = Some"
  by (rule ext) simp

lemma efer_value:
  "push_bit 32 (ucast (ucast (drop_bit 32 e) :: u32)) OR ucast (ucast e OR w :: u32) = (e OR ucast w :: u64)"
  by (rule bit_word_eqI) (auto simp: bit_simps dest: bit_imp_le_length)

definition before_paging :: "u32 \<Rightarrow> boot_instr list" where
  "before_paging t =
     [Cli32, StoreMagic, StoreInfo, MovCr4Eax, OrEax (push_bit 5 1), MovEaxCr4, Pages t (t + 0x1000) (t + 0x2000),
      MovEax t, MovEaxCr3, MovEcx 0xC0000080, Rdmsr, OrEax (push_bit 8 1), Wrmsr32, MovCr0Eax, OrEax (push_bit 31 1), MovEaxCr0]"

lemma multiboot_entry_split:
  "multiboot_entry t start64 = before_paging t @ [Lgdt (gdt64_pointer64 t), JmpFar 0x8 start64]"
  by (simp add: multiboot_entry_def before_paging_def)

lemma run_before_paging:
  assumes "loaded_machine t c"
  obtains c' where "boot_run addr k (before_paging t) c = Some c'" "paging c'" "cr3 c' = t" "bit (efer c') 10"
    "memory c' = setup_pages t (t + 0x1000) (t + 0x2000) (memory c)" "\<not> int_flag c'"
    "mb2_magic c' = (mb2_magic c AND NOT 0xffffffff) OR ucast (eax c)" "mb2_info c' = (mb2_info c AND NOT 0xffffffff) OR ucast (ebx c)"
proof -
  have cr: "bit (cr0 c) 0" "\<not> bit (cr0 c) 31" using assms by (simp_all add: loaded_machine_def)
  have pe: "bit (cr0 c OR push_bit 31 1) 0" "bit (cr0 c OR push_bit 31 1) 31" "bit (cr4 c OR push_bit 5 1) 5"
    "bit (efer c OR push_bit 8 1) 8"
    using cr(1) by (simp_all only: bit_or_iff bit_push_bit_iff) simp_all
  define c1 where "c1 = c\<lparr>int_flag := False, mb2_magic := (mb2_magic c AND NOT 0xffffffff) OR ucast (eax c),
     mb2_info := (mb2_info c AND NOT 0xffffffff) OR ucast (ebx c), cr4 := cr4 c OR push_bit 5 1,
     memory := setup_pages t (t + 0x1000) (t + 0x2000) (memory c), cr3 := t, ecx := 0xC0000080,
     edx := ucast (drop_bit 32 (efer c)), efer := efer c OR push_bit 8 1, eax := cr0 c OR push_bit 31 1\<rparr>"
  have "boot_run addr k (before_paging t) c = write_cr0 (cr0 c OR push_bit 31 1) c1"
    unfolding before_paging_def
    by (simp add: linear_def paging_def cr MSR_EFER_def Let_def efer_value c1_def boot_run_nil)
  also have "\<dots> = Some (c1\<lparr>cr0 := cr0 c OR push_bit 31 1, efer := set_bit 10 (efer c OR push_bit 8 1)\<rparr>)"
    using pe by (simp add: write_cr0_def c1_def)
  finally show ?thesis
    by (rule that) (use pe in \<open>simp_all add: c1_def paging_def bit_set_bit_iff\<close>)
qed

lemma code_segment: "desc_present 0x0020980000000000" "desc_type 0x0020980000000000 AND 0x18 = 0x18"
  "desc_dpl 0x0020980000000000 = 0" "desc_long 0x0020980000000000"
  by code_simp+

lemma jump_to_long_mode:
  assumes c: "loaded_machine t c0" "paging c" "cr3 c = t" "bit (efer c) 10" "gdtr c = gdt64_pointer64 t"
    and m: "memory c = setup_pages t (t + 0x1000) (t + 0x2000) (memory c0)"
  shows "far_jump 0x8 start64 c = Some (c\<lparr>boot_cs := 0x8, wide := True, eip := start64\<rparr>)"
proof -
  have tables: "blank_tables t (memory c0)" "unat t + 0x4000 \<le> 2 ^ 30" using c(1) by (simp_all add: loaded_machine_def)
  have low: "unat (t + 0x3008) = unat t + 0x3008" using tables(2) unat_add_lem [of t "0x3008"] by simp
  then have "t + 0x3008 < 2 ^ 30" using tables(2) by (simp add: word_less_nat_alt)
  from identity_below_1G [OF tables(1) this]
  have lin: "linear c (t + 0x3008) = Some (ucast (t + 0x3008))" by (simp add: linear_def c(2,3) m)
  have a: "(ucast (t + 0x3008) :: u64) = ucast t + of_nat (8 * 1537)"
    using ucast_u32_add [of t "0x3008"] tables(2) by simp
  have "memory c (ucast t + of_nat (8 * 1537)) = memory c0 (ucast t + of_nat (8 * 1537))"
    unfolding m by (rule setup_pages_other [OF tables(1)]) simp_all
  also have "\<dots> = GDT_Table ! 1"
  proof -
    have "\<forall>i < length GDT_Table. memory c0 (ucast t + of_nat (8 * (1536 + i))) = GDT_Table ! i" "1 < length GDT_Table"
      using c(1) by (simp_all add: loaded_machine_def GDT_Table_def)
    from this(1) [rule_format, OF this(2)] show ?thesis by (simp only: numeral_plus_one) simp
  qed
  also have "\<dots> = 0x0020980000000000" by (simp add: GDT_Table_def)
  finally have d: "memory c (ucast (t + 0x3008)) = 0x0020980000000000" by (simp only: a)
  have "t + 0x3000 + ucast (0x8 :: u16) = t + 0x3008" by simp
  then have "linear c (fst (gdtr c) + ucast (0x8 :: u16)) = Some (ucast (t + 0x3008))"
    by (simp only: c(5) gdt64_pointer64_def fst_conv lin)
  then show ?thesis
    unfolding far_jump_def c(5) by (simp add: gdt64_pointer64_def d code_segment Let_def c(4))
qed

subsection \<open>Properties\<close>

text \<open>C28: The boot code reaches 64-bit mode. From a boot loader that leaves protected mode without paging, with
  the section .bs.data as assembled and the code anywhere in the first gigabyte, no instruction faults
  and each is fetched from its own address, before and after paging is on; at _start64 the processor
  runs 64-bit code of selector 8 with interrupts off, on the page tables that map the first gigabyte at 0
  and at KERNEL_VIRADDR; and the two variables hold what the loader passed in eax and ebx.\<close>

theorem boot_reaches_long_mode:
  assumes "loaded_machine t c" "\<forall>k. addr k < 2 ^ 30" "start64 < 2 ^ 30" "mb2_magic c = 0" "mb2_info c = 0"
  shows "\<exists>c'. boot_run addr 0 (multiboot_entry t start64) c = Some c' \<and>
    eip c' = start64 \<and> boot_cs c' = 0x8 \<and> wide c' \<and> \<not> int_flag c' \<and>
    mb2_magic c' = ucast (eax c) \<and> mb2_info c' = ucast (ebx c) \<and> gdtr c' = (t + 0x3000, 151) \<and>
    linear c' start64 = Some (ucast start64) \<and>
    (if pa < 2 ^ 30 then walk (memory c') (ucast (cr3 c')) pa = Some (pa, True) \<and>
       walk (memory c') (ucast (cr3 c')) (PHY2VIR pa) = Some (pa, True) else True)"
proof -
  obtain c1 where c1: "boot_run addr 0 (before_paging t) c = Some c1" "paging c1" "cr3 c1 = t" "bit (efer c1) 10"
    "memory c1 = setup_pages t (t + 0x1000) (t + 0x2000) (memory c)" "\<not> int_flag c1"
    "mb2_magic c1 = (mb2_magic c AND NOT 0xffffffff) OR ucast (eax c)" "mb2_info c1 = (mb2_info c AND NOT 0xffffffff) OR ucast (ebx c)"
    by (rule run_before_paging [OF assms(1)])
  have blank: "blank_tables t (memory c)" using assms(1) by (simp add: loaded_machine_def)
  have fetch: "linear c2 a = Some (ucast a)" if "paging c2" "cr3 c2 = t" "memory c2 = memory c1" "a < 2 ^ 30" for c2 a
    using identity_below_1G [OF blank that(4)] by (simp add: linear_def that c1(5))
  define c2 where "c2 = c1\<lparr>gdtr := gdt64_pointer64 t\<rparr>"
  have c2: "paging c2" "cr3 c2 = t" "memory c2 = memory c1" using c1 by (simp_all add: c2_def paging_def)
  have jump: "far_jump 0x8 start64 c2 = Some (c2\<lparr>boot_cs := 0x8, wide := True, eip := start64\<rparr>)"
    by (rule jump_to_long_mode [OF assms(1)]) (use c1 in \<open>simp_all add: c2_def paging_def\<close>)
  let ?c = "c2\<lparr>boot_cs := 0x8, wide := True, eip := start64\<rparr>"
  have "boot_run addr 0 (multiboot_entry t start64) c = Some ?c"
    using fetch [OF c1(2,3) refl] fetch [OF c2] assms(2)
    by (simp add: multiboot_entry_split boot_run_append c1(1) c2_def [symmetric] jump boot_run_nil)
  moreover have "linear ?c start64 = Some (ucast start64)"
    by (rule fetch) (use c2 assms(3) in \<open>simp_all add: paging_def\<close>)
  moreover have "walk (memory ?c) (ucast (cr3 ?c)) pa = Some (pa, True)"
    "walk (memory ?c) (ucast (cr3 ?c)) (PHY2VIR pa) = Some (pa, True)" if "pa < 2 ^ 30"
    using low_and_high_index [OF that] high_half [OF that] that c2 by (simp_all add: c1(5) walk_after_setup [OF blank])
  ultimately show ?thesis
    using c1(6-8) assms(4,5) by (intro exI [of _ ?c]) (simp add: c2_def gdt64_pointer64_def)
qed

text \<open>An image whose boot section is at 32 megabytes, as the linker script has it.\<close>

definition boot_image :: phys where
  "boot_image a = (if 0x2004000 \<le> a \<and> unat (a - 0x2004000) < 152 then GDT_Table ! (unat (a - 0x2004000) div 8) else 0)"

definition grub_cpu :: boot_cpu where
  "grub_cpu = \<lparr>eax = 0x36d76289, ebx = 0x10000, ecx = 0, edx = 0, cr0 = 0x11, cr3 = 0, cr4 = 0, efer = 0,
     gdtr = (0, 0), boot_cs = 0x10, wide = False, eip = 0x2000038, int_flag = True, memory = boot_image,
     mb2_magic = 0, mb2_info = 0\<rparr>"

lemma grub_cpu_loaded: "loaded_machine 0x2001000 grub_cpu"
proof -
  have blank: "boot_image (0x2001000 + of_nat (8 * k)) = 0" if "k < 1536" for k
  proof -
    have "unat (0x2001000 + of_nat (8 * k) :: u64) = 0x2001000 + 8 * k"
      using that unat_add_nat_u64 [of "0x2001000" "8 * k"] by simp
    then have "\<not> 0x2004000 \<le> (0x2001000 + of_nat (8 * k) :: u64)"
      using that by (simp only: word_le_nat_alt) simp
    then show ?thesis by (simp only: boot_image_def) simp
  qed
  have gdt: "boot_image (0x2001000 + of_nat (8 * (1536 + i))) = GDT_Table ! i" if "i < 19" for i
  proof -
    have e: "(0x2001000 + of_nat (8 * (1536 + i)) :: u64) = 0x2004000 + of_nat (8 * i)" by (simp add: algebra_simps)
    have u: "unat (of_nat (8 * i) :: u64) = 8 * i" using that by (intro unat_of_nat_u64) simp
    have "unat (0x2004000 + of_nat (8 * i) :: u64) = 0x2004000 + 8 * i"
      using that unat_add_nat_u64 [of "0x2004000" "8 * i"] by simp
    then have "0x2004000 \<le> (0x2004000 + of_nat (8 * i) :: u64)" by (simp only: word_le_nat_alt) simp
    moreover have "0x2004000 + of_nat (8 * i) - 0x2004000 = (of_nat (8 * i) :: u64)" by simp
    ultimately show ?thesis unfolding e boot_image_def using that u by simp
  qed
  have len: "length GDT_Table = 19" by (simp add: GDT_Table_def)
  have cr: "bit (0x11 :: u32) 0" "\<not> bit (0x11 :: u32) 31" by code_simp+
  show ?thesis
    using blank gdt unfolding loaded_machine_def blank_tables_def len
    by (simp add: grub_cpu_def cr del: of_nat_add of_nat_mult)
qed

theorem boot_reaches_long_mode_witness:
  "\<exists>c'. boot_run (\<lambda>k. 0x2000038 + of_nat (4 * (k mod 18))) 0 (multiboot_entry 0x2001000 0x2000100) grub_cpu = Some c' \<and>
    wide c' \<and> mb2_magic c' = 0x36d76289"
proof -
  have addr: "0x2000038 + of_nat (4 * (k mod 18)) < (2 ^ 30 :: u32)" for k :: nat
  proof -
    have "k mod 18 < 18" by simp
    then have "4 * (k mod 18) < 2 ^ LENGTH(32)" "0x2000038 + 4 * (k mod 18) < 2 ^ 30" by simp_all
    moreover from this(1) have "unat (of_nat (4 * (k mod 18)) :: u32) = 4 * (k mod 18)"
      by (simp only: unat_of_nat mod_less)
    ultimately show ?thesis
      using unat_add_lem [of "0x2000038 :: u32" "of_nat (4 * (k mod 18))"] by (simp add: word_less_nat_alt)
  qed
  have all: "\<forall>k. 0x2000038 + of_nat (4 * (k mod 18)) < (2 ^ 30 :: u32)" using addr by (rule allI)
  have fields: "mb2_magic grub_cpu = 0" "mb2_info grub_cpu = 0" "eax grub_cpu = 0x36d76289" by (simp_all add: grub_cpu_def)
  have start: "(0x2000100 :: u32) < 2 ^ 30" by simp
  from boot_reaches_long_mode [OF grub_cpu_loaded all start fields(1,2), where pa = 0] show ?thesis
    by (auto simp: fields(3))
qed

end
