(* ===== verification/CType.thy ===== *)
theory CType
  imports Prelude
begin

text \<open>
  How the C compiler lays out the structures of the header files (the rules of the System V ABI for x86-64,
  which gcc follows): a member stands at the next multiple of its alignment, a structure is as aligned as its
  most aligned member and padded to a multiple of that; in a packed structure the members follow each other
  without gaps; the members of a union all start at its beginning; the members of a nameless structure or
  union are members of the one around it. The lemmas show that the rules keep members apart.
\<close>

datatype ctype =
    Scalar nat
  | Arr nat ctype
  | Struct "(string \<times> ctype) list"
  | Packed "(string \<times> ctype) list"
  | Union "(string \<times> ctype) list"

abbreviation uint8 :: ctype where "uint8 \<equiv> Scalar 1"
abbreviation uint16 :: ctype where "uint16 \<equiv> Scalar 2"
abbreviation uint32 :: ctype where "uint32 \<equiv> Scalar 4"
abbreviation uint64 :: ctype where "uint64 \<equiv> Scalar 8"
abbreviation ptr :: ctype where "ptr \<equiv> Scalar 8"

definition align_up :: "nat \<Rightarrow> nat \<Rightarrow> nat" where
  "align_up n a = (n + a - 1) div a * a"

fun align_of :: "ctype \<Rightarrow> nat" and fields_align :: "(string \<times> ctype) list \<Rightarrow> nat" where
  "align_of (Scalar n) = n"
| "align_of (Arr n t) = align_of t"
| "align_of (Struct fs) = fields_align fs"
| "align_of (Packed fs) = 1"
| "align_of (Union fs) = fields_align fs"
| "fields_align [] = 1"
| "fields_align ((x, t) # fs) = max (align_of t) (fields_align fs)"

text \<open>\<open>struct_end\<close>, \<open>packed_end\<close> and \<open>union_end\<close>: where the last member ends.\<close>

fun size_of :: "ctype \<Rightarrow> nat" and struct_end :: "nat \<Rightarrow> (string \<times> ctype) list \<Rightarrow> nat"
    and packed_end :: "(string \<times> ctype) list \<Rightarrow> nat" and union_end :: "(string \<times> ctype) list \<Rightarrow> nat" where
  "size_of (Scalar n) = n"
| "size_of (Arr n t) = n * size_of t"
| "size_of (Struct fs) = align_up (struct_end 0 fs) (fields_align fs)"
| "size_of (Packed fs) = packed_end fs"
| "size_of (Union fs) = align_up (union_end fs) (fields_align fs)"
| "struct_end n [] = n"
| "struct_end n ((x, t) # fs) = struct_end (align_up n (align_of t) + size_of t) fs"
| "packed_end [] = 0"
| "packed_end ((x, t) # fs) = size_of t + packed_end fs"
| "union_end [] = 0"
| "union_end ((x, t) # fs) = max (size_of t) (union_end fs)"

text \<open>The members in order, each with its offset.\<close>

fun struct_places :: "nat \<Rightarrow> (string \<times> ctype) list \<Rightarrow> (string \<times> nat \<times> ctype) list" where
  "struct_places n [] = []"
| "struct_places n ((x, t) # fs) =
     (let o' = align_up n (align_of t) in (x, o', t) # struct_places (o' + size_of t) fs)"

fun packed_places :: "nat \<Rightarrow> (string \<times> ctype) list \<Rightarrow> (string \<times> nat \<times> ctype) list" where
  "packed_places n [] = []"
| "packed_places n ((x, t) # fs) = (x, n, t) # packed_places (n + size_of t) fs"

fun places :: "ctype \<Rightarrow> (string \<times> nat \<times> ctype) list" where
  "places (Struct fs) = struct_places 0 fs"
| "places (Packed fs) = packed_places 0 fs"
| "places (Union fs) = map (\<lambda>(x, t). (x, 0, t)) fs"
| "places t = []"

text \<open>The members a name can select, with those of nameless members among them; a nameless member is at
  most two levels deep in the headers, which \<open>depth\<close> bounds.\<close>

fun members :: "nat \<Rightarrow> nat \<Rightarrow> ctype \<Rightarrow> (string \<times> nat \<times> ctype) list" where
  "members 0 n t = []"
| "members (Suc depth) n t =
     concat (map (\<lambda>(x, m, u). if x = '''' then members depth (n + m) u else [(x, n + m, u)]) (places t))"

definition offset_of :: "ctype \<Rightarrow> string \<Rightarrow> nat" where
  "offset_of t x = (case map_of (members 3 0 t) x of Some (n, u) \<Rightarrow> n | None \<Rightarrow> 0)"

definition member_size :: "ctype \<Rightarrow> string \<Rightarrow> nat" where
  "member_size t x = (case map_of (members 3 0 t) x of Some (n, u) \<Rightarrow> size_of u | None \<Rightarrow> 0)"

text \<open>\<^verbatim>\<open>&p->member\<close>, and the macro \<^verbatim>\<open>container_of\<close> of lib.h, which goes back from the member to the structure.\<close>

definition member_addr :: "ctype \<Rightarrow> string \<Rightarrow> u64 \<Rightarrow> u64" where
  "member_addr t x p = p + of_nat (offset_of t x)"

definition container_of :: "u64 \<Rightarrow> ctype \<Rightarrow> string \<Rightarrow> u64" where
  "container_of p t x = p - member_addr t x 0"

lemma container_of_member: "container_of (member_addr t x p) t x = p"
  by (simp add: container_of_def member_addr_def)

subsection \<open>Members stay apart\<close>

text \<open>The types the headers can build: integers of 1, 2, 4 and 8 bytes and what is made of them.\<close>

fun c_type :: "ctype \<Rightarrow> bool" and c_fields :: "(string \<times> ctype) list \<Rightarrow> bool" where
  "c_type (Scalar n) \<longleftrightarrow> n \<in> {1, 2, 4, 8}"
| "c_type (Arr n t) \<longleftrightarrow> c_type t"
| "c_type (Struct fs) \<longleftrightarrow> c_fields fs"
| "c_type (Packed fs) \<longleftrightarrow> c_fields fs"
| "c_type (Union fs) \<longleftrightarrow> c_fields fs"
| "c_fields [] \<longleftrightarrow> True"
| "c_fields ((x, t) # fs) \<longleftrightarrow> c_type t \<and> c_fields fs"

lemma align_up: "0 < a \<Longrightarrow> n \<le> align_up n a" "0 < a \<Longrightarrow> align_up n a < n + a" "a dvd align_up n a"
proof -
  assume a: "0 < a"
  have "(n + a - 1) mod a < a" "(n + a - 1) div a * a + (n + a - 1) mod a = n + a - 1"
    using a by simp_all
  then show "n \<le> align_up n a" "align_up n a < n + a" using a unfolding align_up_def by linarith+
qed (simp add: align_up_def)

lemma align_power: "c_type t \<Longrightarrow> align_of t \<in> {1, 2, 4, 8}" "c_fields fs \<Longrightarrow> fields_align fs \<in> {1, 2, 4, 8}"
  by (induction t and fs rule: align_of_fields_align.induct) (auto simp: max_def)

lemma align_pos: "c_type t \<Longrightarrow> 0 < align_of t" "c_fields fs \<Longrightarrow> 0 < fields_align fs"
  using align_power by fastforce+

lemma align_dvd_size: "c_type t \<Longrightarrow> align_of t dvd size_of t"
  by (induction t) (auto simp: align_up)

lemma field_align: "c_fields fs \<Longrightarrow> (x, t) \<in> set fs \<Longrightarrow> align_of t dvd fields_align fs \<and> c_type t"
proof (induction fs)
  case (Cons f fs)
  obtain y u where f: "f = (y, u)" by (cases f)
  have "align_of u \<in> {1, 2, 4, 8}" "fields_align fs \<in> {1, 2, 4, 8}"
    using Cons.prems f align_power by auto
  then have "align_of u dvd fields_align (f # fs)" "fields_align fs dvd fields_align (f # fs)"
    by (auto simp: f max_def)
  then show ?case using Cons f by (auto intro: dvd_trans)
qed simp

lemma struct_places_in_order:
  assumes "c_fields fs"
  shows "sorted_wrt (\<lambda>(_, m, t) (_, m', _). m + size_of t \<le> m') (struct_places n fs) \<and>
    list_all (\<lambda>(_, m, t). n \<le> m \<and> align_of t dvd m \<and> m + size_of t \<le> struct_end n fs) (struct_places n fs) \<and>
    n \<le> struct_end n fs"
  using assms
proof (induction n fs rule: struct_places.induct)
  case (2 n x t fs)
  define p where "p = align_up n (align_of t)"
  have p: "n \<le> p" "align_of t dvd p" using 2(2) align_up align_pos by (simp_all add: p_def)
  have "c_fields fs" using 2(2) by simp
  note 2(1) [OF p_def this]
  then show ?case using p by (auto simp: p_def [symmetric] list_all_iff Let_def)
qed simp

lemma packed_places_in_order:
  "sorted_wrt (\<lambda>(_, m, t) (_, m', _). m + size_of t \<le> m') (packed_places n fs) \<and>
    list_all (\<lambda>(_, m, t). n \<le> m \<and> m + size_of t \<le> n + packed_end fs) (packed_places n fs)"
  by (induction n fs rule: packed_places.induct) (fastforce simp: list_all_iff)+

text \<open>The rule the compiler's layout has to meet: the members stand in order, none overlaps the next, none
  leaves the structure, and but for packed ones each is aligned.\<close>

definition well_laid :: "ctype \<Rightarrow> bool" where
  "well_laid t \<longleftrightarrow> sorted_wrt (\<lambda>(_, m, u) (_, m', _). m + size_of u \<le> m') (places t) \<and>
     list_all (\<lambda>(_, m, u). m + size_of u \<le> size_of t) (places t)"

definition aligned :: "ctype \<Rightarrow> bool" where
  "aligned t \<longleftrightarrow> list_all (\<lambda>(_, m, u). align_of u dvd m) (places t) \<and> align_of t dvd size_of t"

lemma struct_well_laid: "c_fields fs \<Longrightarrow> well_laid (Struct fs) \<and> aligned (Struct fs)"
  using struct_places_in_order [of fs 0] align_up(1) [OF align_pos(2), of fs "struct_end 0 fs"]
  by (fastforce simp: well_laid_def aligned_def list_all_iff align_up(3))

lemma packed_well_laid: "well_laid (Packed fs)"
  using packed_places_in_order [of 0 fs] by (auto simp: well_laid_def list_all_iff)

end
