(* ===== verification/Layout.thy ===== *)
theory Layout
  imports CType Header Boot Entry
begin

text \<open>
  The structures of the header files as C types: the kernel's own (list.h, task.h, ptrace.h, mm.h, gate.h,
  keyboard.h, printk.c) and the Multiboot2 ones of multiboot2.h. The other theories read and write memory at
  numeric offsets; the properties here show that these are the members' offsets in the compiler's layout,
  and that the Multiboot2 structures, which no attribute packs, come out without a gap.
\<close>

subsection \<open>The kernel's structures\<close>

definition struct_list_head :: ctype where
  "struct_list_head = Struct [
     (''prev'', ptr), (''next'', ptr)]"

definition pml4t_t :: ctype where
  "pml4t_t = Struct [
     (''pml4t'', uint64)]"

definition struct_mm_struct :: ctype where
  "struct_mm_struct = Struct [
     (''pgd'', ptr), (''start_code'', uint64), (''end_code'', uint64), (''start_data'', uint64),
     (''end_data'', uint64), (''start_rodata'', uint64), (''end_rodata'', uint64), (''start_brk'', uint64),
     (''end_brk'', uint64), (''start_stack'', uint64)]"

definition struct_thread_struct :: ctype where
  "struct_thread_struct = Struct [
     (''rsp0'', uint64), (''rip'', uint64), (''rsp'', uint64), (''fs'', uint64), (''gs'', uint64),
     (''cr2'', uint64), (''trap_nr'', uint64), (''error_code'', uint64)]"

definition struct_task_struct :: ctype where
  "struct_task_struct = Struct [
     (''list'', struct_list_head), (''state'', uint64), (''flags'', uint64), (''mm'', ptr),
     (''thread'', ptr), (''addr_limit'', uint64), (''pid'', uint64), (''counter'', uint64),
     (''signal'', uint64), (''priority'', uint64)]"

definition task_union :: ctype where
  "task_union = Union [
     (''task'', struct_task_struct), (''stack'', Arr (unat STACK_SIZE div size_of uint64) uint64)]"

definition struct_tss_struct :: ctype where
  "struct_tss_struct = Packed [
     (''reserved0'', uint32), (''rsp0'', uint64), (''rsp1'', uint64), (''rsp2'', uint64),
     (''reserved1'', uint64), (''ist1'', uint64), (''ist2'', uint64), (''ist3'', uint64),
     (''ist4'', uint64), (''ist5'', uint64), (''ist6'', uint64), (''ist7'', uint64),
     (''reserved2'', uint64), (''reserved3'', uint16), (''iomapbaseaddr'', uint16)]"

definition struct_pt_regs :: ctype where
  "struct_pt_regs = Struct [
     (''r15'', uint64), (''r14'', uint64), (''r13'', uint64), (''r12'', uint64), (''r11'', uint64),
     (''r10'', uint64), (''r9'', uint64), (''r8'', uint64), (''rbx'', uint64), (''rcx'', uint64),
     (''rdx'', uint64), (''rsi'', uint64), (''rdi'', uint64), (''rbp'', uint64), (''ds'', uint64),
     (''es'', uint64), (''rax'', uint64), (''func'', uint64), (''errcode'', uint64), (''rip'', uint64),
     (''cs'', uint64), (''rflags'', uint64), (''rsp'', uint64), (''ss'', uint64)]"

definition E820_t :: ctype where
  "E820_t = Packed [
     (''addr'', uint64), (''len'', uint64), (''type'', uint32)]"

definition mm_page_t :: ctype where
  "mm_page_t = Struct [
     (''phy_addr'', uint64), (''attribute'', uint64), (''ref_count'', uint64), (''age'', uint64),
     (''zone'', ptr)]"

definition struct_mm_zone :: ctype where
  "struct_mm_zone = Struct [
     (''pages_group'', ptr), (''pages_length'', uint64), (''zone_start_addr'', uint64),
     (''zone_end_addr'', uint64), (''zone_length'', uint64), (''attribute'', uint64),
     (''page_using_count'', uint64), (''page_free_count'', uint64), (''total_pages_link'', uint64)]"

definition global_mm_descriptor_t :: ctype where
  "global_mm_descriptor_t = Struct [
     (''e820'', Arr 32 E820_t), (''e820_num'', uint64), (''e820_available_size'', uint64),
     (''page_bits'', ptr), (''page_bits_size'', uint64), (''page_bits_length'', uint64),
     (''pages_struct'', ptr), (''pages_size'', uint64), (''pages_length'', uint64), (''zones_struct'', ptr),
     (''zones_size'', uint64), (''zones_length'', uint64), (''total_mem_length'', uint64),
     (''kernel_start_phyaddr'', uint64), (''kernel_end_phyaddr'', uint64), (''end_of_struct'', uint64),
     (''start_text'', uint64), (''end_text'', uint64), (''start_data'', uint64), (''end_data'', uint64),
     (''start_rodata'', uint64), (''end_rodata'', uint64), (''start_bss'', uint64), (''end_bss'', uint64),
     (''start_stack'', uint64)]"

definition struct_desc_struct :: ctype where
  "struct_desc_struct = Struct [
     (''x'', Arr 8 uint8)]"

definition struct_gate_struct :: ctype where
  "struct_gate_struct = Struct [
     (''x'', Arr 16 uint8)]"

definition struct_keyboard_inputbuffer :: ctype where
  "struct_keyboard_inputbuffer = Struct [
     (''p_head'', ptr), (''p_tail'', ptr), (''count'', uint32), (''buf'', Arr 100 uint8)]"

definition cursor_t :: ctype where
  "cursor_t = Struct [
     (''x'', uint32), (''y'', uint32)]"

lemmas kernel_struct_defs =
  struct_list_head_def pml4t_t_def struct_mm_struct_def struct_thread_struct_def struct_task_struct_def
  task_union_def struct_tss_struct_def struct_pt_regs_def E820_t_def mm_page_t_def struct_mm_zone_def
  global_mm_descriptor_t_def struct_desc_struct_def struct_gate_struct_def struct_keyboard_inputbuffer_def
  cursor_t_def

subsection \<open>multiboot2.h\<close>

definition struct_multiboot_header :: ctype where
  "struct_multiboot_header = Struct [
     (''magic'', uint32), (''architecture'', uint32), (''header_length'', uint32), (''checksum'', uint32)]"

definition struct_multiboot_header_tag :: ctype where
  "struct_multiboot_header_tag = Struct [
     (''type'', uint16), (''flags'', uint16), (''size'', uint32)]"

definition struct_multiboot_header_tag_information_request :: ctype where
  "struct_multiboot_header_tag_information_request = Struct [
     (''type'', uint16), (''flags'', uint16), (''size'', uint32), (''requests'', Arr 0 uint32)]"

definition struct_multiboot_header_tag_address :: ctype where
  "struct_multiboot_header_tag_address = Struct [
     (''type'', uint16), (''flags'', uint16), (''size'', uint32), (''header_addr'', uint32),
     (''load_addr'', uint32), (''load_end_addr'', uint32), (''bss_end_addr'', uint32)]"

definition struct_multiboot_header_tag_entry_address :: ctype where
  "struct_multiboot_header_tag_entry_address = Struct [
     (''type'', uint16), (''flags'', uint16), (''size'', uint32), (''entry_addr'', uint32)]"

definition struct_multiboot_header_tag_console_flags :: ctype where
  "struct_multiboot_header_tag_console_flags = Struct [
     (''type'', uint16), (''flags'', uint16), (''size'', uint32), (''console_flags'', uint32)]"

definition struct_multiboot_header_tag_framebuffer :: ctype where
  "struct_multiboot_header_tag_framebuffer = Struct [
     (''type'', uint16), (''flags'', uint16), (''size'', uint32), (''width'', uint32), (''height'', uint32),
     (''depth'', uint32)]"

definition struct_multiboot_header_tag_module_align :: ctype where
  "struct_multiboot_header_tag_module_align = Struct [
     (''type'', uint16), (''flags'', uint16), (''size'', uint32)]"

definition struct_multiboot_header_tag_relocatable :: ctype where
  "struct_multiboot_header_tag_relocatable = Struct [
     (''type'', uint16), (''flags'', uint16), (''size'', uint32), (''min_addr'', uint32),
     (''max_addr'', uint32), (''align'', uint32), (''preference'', uint32)]"

definition struct_multiboot_color :: ctype where
  "struct_multiboot_color = Struct [
     (''red'', uint8), (''green'', uint8), (''blue'', uint8)]"

definition struct_multiboot_mmap_entry :: ctype where
  "struct_multiboot_mmap_entry = Struct [
     (''addr'', uint64), (''len'', uint64), (''type'', uint32), (''zero'', uint32)]"

definition struct_multiboot_tag :: ctype where
  "struct_multiboot_tag = Struct [
     (''type'', uint32), (''size'', uint32)]"

definition struct_multiboot_tag_string :: ctype where
  "struct_multiboot_tag_string = Struct [
     (''type'', uint32), (''size'', uint32), (''string'', Arr 0 uint8)]"

definition struct_multiboot_tag_module :: ctype where
  "struct_multiboot_tag_module = Struct [
     (''type'', uint32), (''size'', uint32), (''mod_start'', uint32), (''mod_end'', uint32),
     (''cmdline'', Arr 0 uint8)]"

definition struct_multiboot_tag_basic_meminfo :: ctype where
  "struct_multiboot_tag_basic_meminfo = Struct [
     (''type'', uint32), (''size'', uint32), (''mem_lower'', uint32), (''mem_upper'', uint32)]"

definition struct_multiboot_tag_bootdev :: ctype where
  "struct_multiboot_tag_bootdev = Struct [
     (''type'', uint32), (''size'', uint32), (''biosdev'', uint32), (''slice'', uint32), (''part'', uint32)]"

definition struct_multiboot_tag_mmap :: ctype where
  "struct_multiboot_tag_mmap = Struct [
     (''type'', uint32), (''size'', uint32), (''entry_size'', uint32), (''entry_version'', uint32),
     (''entries'', Arr 0 struct_multiboot_mmap_entry)]"

definition struct_multiboot_vbe_info_block :: ctype where
  "struct_multiboot_vbe_info_block = Struct [
     (''external_specification'', Arr 512 uint8)]"

definition struct_multiboot_vbe_mode_info_block :: ctype where
  "struct_multiboot_vbe_mode_info_block = Struct [
     (''external_specification'', Arr 256 uint8)]"

definition struct_multiboot_tag_vbe :: ctype where
  "struct_multiboot_tag_vbe = Struct [
     (''type'', uint32), (''size'', uint32), (''vbe_mode'', uint16), (''vbe_interface_seg'', uint16),
     (''vbe_interface_off'', uint16), (''vbe_interface_len'', uint16),
     (''vbe_control_info'', struct_multiboot_vbe_info_block),
     (''vbe_mode_info'', struct_multiboot_vbe_mode_info_block)]"

definition struct_multiboot_tag_framebuffer_common :: ctype where
  "struct_multiboot_tag_framebuffer_common = Struct [
     (''type'', uint32), (''size'', uint32), (''framebuffer_addr'', uint64),
     (''framebuffer_pitch'', uint32), (''framebuffer_width'', uint32), (''framebuffer_height'', uint32),
     (''framebuffer_bpp'', uint8), (''framebuffer_type'', uint8), (''reserved'', uint16)]"

definition struct_multiboot_tag_framebuffer :: ctype where
  "struct_multiboot_tag_framebuffer = Struct [
     (''common'', struct_multiboot_tag_framebuffer_common),
     ('''', Union [
       ('''', Struct [(''framebuffer_palette_num_colors'', uint16), (''framebuffer_palette'', Arr 0 struct_multiboot_color)]),
       ('''', Struct [
         (''framebuffer_red_field_position'', uint8), (''framebuffer_red_mask_size'', uint8), (''framebuffer_green_field_position'', uint8), (''framebuffer_green_mask_size'', uint8),
         (''framebuffer_blue_field_position'', uint8), (''framebuffer_blue_mask_size'', uint8)])])]"

definition struct_multiboot_tag_elf_sections :: ctype where
  "struct_multiboot_tag_elf_sections = Struct [
     (''type'', uint32), (''size'', uint32), (''num'', uint32), (''entsize'', uint32), (''shndx'', uint32),
     (''sections'', Arr 0 uint8)]"

definition struct_multiboot_tag_apm :: ctype where
  "struct_multiboot_tag_apm = Struct [
     (''type'', uint32), (''size'', uint32), (''version'', uint16), (''cseg'', uint16),
     (''offset'', uint32), (''cseg_16'', uint16), (''dseg'', uint16), (''flags'', uint16),
     (''cseg_len'', uint16), (''cseg_16_len'', uint16), (''dseg_len'', uint16)]"

definition struct_multiboot_tag_efi32 :: ctype where
  "struct_multiboot_tag_efi32 = Struct [
     (''type'', uint32), (''size'', uint32), (''pointer'', uint32)]"

definition struct_multiboot_tag_efi64 :: ctype where
  "struct_multiboot_tag_efi64 = Struct [
     (''type'', uint32), (''size'', uint32), (''pointer'', uint64)]"

definition struct_multiboot_tag_smbios :: ctype where
  "struct_multiboot_tag_smbios = Struct [
     (''type'', uint32), (''size'', uint32), (''major'', uint8), (''minor'', uint8),
     (''reserved'', Arr 6 uint8), (''tables'', Arr 0 uint8)]"

definition struct_multiboot_tag_old_acpi :: ctype where
  "struct_multiboot_tag_old_acpi = Struct [
     (''type'', uint32), (''size'', uint32), (''rsdp'', Arr 0 uint8)]"

definition struct_multiboot_tag_new_acpi :: ctype where
  "struct_multiboot_tag_new_acpi = Struct [
     (''type'', uint32), (''size'', uint32), (''rsdp'', Arr 0 uint8)]"

definition struct_multiboot_tag_network :: ctype where
  "struct_multiboot_tag_network = Struct [
     (''type'', uint32), (''size'', uint32), (''dhcpack'', Arr 0 uint8)]"

definition struct_multiboot_tag_efi_mmap :: ctype where
  "struct_multiboot_tag_efi_mmap = Struct [
     (''type'', uint32), (''size'', uint32), (''descr_size'', uint32), (''descr_vers'', uint32),
     (''efi_mmap'', Arr 0 uint8)]"

definition struct_multiboot_tag_efi32_ih :: ctype where
  "struct_multiboot_tag_efi32_ih = Struct [
     (''type'', uint32), (''size'', uint32), (''pointer'', uint32)]"

definition struct_multiboot_tag_efi64_ih :: ctype where
  "struct_multiboot_tag_efi64_ih = Struct [
     (''type'', uint32), (''size'', uint32), (''pointer'', uint64)]"

definition struct_multiboot_tag_load_base_addr :: ctype where
  "struct_multiboot_tag_load_base_addr = Struct [
     (''type'', uint32), (''size'', uint32), (''load_base_addr'', uint32)]"

definition multiboot_structures :: "ctype list" where
  "multiboot_structures = [
     struct_multiboot_header, struct_multiboot_header_tag, struct_multiboot_header_tag_information_request,
     struct_multiboot_header_tag_address, struct_multiboot_header_tag_entry_address,
     struct_multiboot_header_tag_console_flags, struct_multiboot_header_tag_framebuffer,
     struct_multiboot_header_tag_module_align, struct_multiboot_header_tag_relocatable,
     struct_multiboot_color, struct_multiboot_mmap_entry, struct_multiboot_tag, struct_multiboot_tag_string,
     struct_multiboot_tag_module, struct_multiboot_tag_basic_meminfo, struct_multiboot_tag_bootdev,
     struct_multiboot_tag_mmap, struct_multiboot_vbe_info_block, struct_multiboot_vbe_mode_info_block,
     struct_multiboot_tag_vbe, struct_multiboot_tag_framebuffer_common, struct_multiboot_tag_framebuffer,
     struct_multiboot_tag_elf_sections, struct_multiboot_tag_apm, struct_multiboot_tag_efi32,
     struct_multiboot_tag_efi64, struct_multiboot_tag_smbios, struct_multiboot_tag_old_acpi,
     struct_multiboot_tag_new_acpi, struct_multiboot_tag_network, struct_multiboot_tag_efi_mmap,
     struct_multiboot_tag_efi32_ih, struct_multiboot_tag_efi64_ih, struct_multiboot_tag_load_base_addr]"

lemmas multiboot_struct_defs =
  struct_multiboot_header_def struct_multiboot_header_tag_def
  struct_multiboot_header_tag_information_request_def struct_multiboot_header_tag_address_def
  struct_multiboot_header_tag_entry_address_def struct_multiboot_header_tag_console_flags_def
  struct_multiboot_header_tag_framebuffer_def struct_multiboot_header_tag_module_align_def
  struct_multiboot_header_tag_relocatable_def struct_multiboot_color_def struct_multiboot_mmap_entry_def
  struct_multiboot_tag_def struct_multiboot_tag_string_def struct_multiboot_tag_module_def
  struct_multiboot_tag_basic_meminfo_def struct_multiboot_tag_bootdev_def struct_multiboot_tag_mmap_def
  struct_multiboot_vbe_info_block_def struct_multiboot_vbe_mode_info_block_def struct_multiboot_tag_vbe_def
  struct_multiboot_tag_framebuffer_common_def struct_multiboot_tag_framebuffer_def
  struct_multiboot_tag_elf_sections_def struct_multiboot_tag_apm_def struct_multiboot_tag_efi32_def
  struct_multiboot_tag_efi64_def struct_multiboot_tag_smbios_def struct_multiboot_tag_old_acpi_def
  struct_multiboot_tag_new_acpi_def struct_multiboot_tag_network_def struct_multiboot_tag_efi_mmap_def
  struct_multiboot_tag_efi32_ih_def struct_multiboot_tag_efi64_ih_def struct_multiboot_tag_load_base_addr_def

subsection \<open>Tables of constants\<close>

text \<open>The numbers of the tags, of the header's tags and of the kinds of memory in multiboot2.h, the kinds of memory
  and the page flags in mm.h, by the ends of their names.\<close>

definition multiboot_tag_types :: "(string \<times> u32) list" where
  "multiboot_tag_types = [
     (''END'', 0), (''CMDLINE'', 1), (''BOOT_LOADER_NAME'', 2), (''MODULE'', 3), (''BASIC_MEMINFO'', 4),
     (''BOOTDEV'', 5), (''MMAP'', 6), (''VBE'', 7), (''FRAMEBUFFER'', 8), (''ELF_SECTIONS'', 9),
     (''APM'', 10), (''EFI32'', 11), (''EFI64'', 12), (''SMBIOS'', 13), (''ACPI_OLD'', 14),
     (''ACPI_NEW'', 15), (''NETWORK'', 16), (''EFI_MMAP'', 17), (''EFI_BS'', 18), (''EFI32_IH'', 19),
     (''EFI64_IH'', 20), (''LOAD_BASE_ADDR'', 21)]"

definition multiboot_header_tags :: "(string \<times> u16) list" where
  "multiboot_header_tags = [
     (''END'', 0), (''INFORMATION_REQUEST'', 1), (''ADDRESS'', 2), (''ENTRY_ADDRESS'', 3),
     (''CONSOLE_FLAGS'', 4), (''FRAMEBUFFER'', 5), (''MODULE_ALIGN'', 6), (''EFI_BS'', 7),
     (''ENTRY_ADDRESS_EFI32'', 8), (''ENTRY_ADDRESS_EFI64'', 9), (''RELOCATABLE'', 10)]"

definition multiboot_memory_types :: "(string \<times> u32) list" where
  "multiboot_memory_types = [
     (''AVAILABLE'', 1), (''RESERVED'', 2), (''ACPI_RECLAIMABLE'', 3), (''NVS'', 4), (''BADRAM'', 5)]"

definition e820_types :: "(string \<times> u32) list" where
  "e820_types = [
     (''AVAILABLE'', 1), (''RESERVED'', 2), (''ACPI_RECLAIMABLE'', 3), (''NVS'', 4), (''BADRAM'', 5)]"

definition page_flags :: "(string \<times> u64) list" where
  "page_flags = [
     (''PG_PTable_Maped'', push_bit 0 1), (''PG_Kernel_Init'', push_bit 1 1),
     (''PG_Referenced'', push_bit 2 1), (''PG_Dirty'', push_bit 3 1), (''PG_Active'', push_bit 4 1),
     (''PG_Up_To_Date'', push_bit 5 1), (''PG_Device'', push_bit 6 1), (''PG_Kernel'', push_bit 7 1),
     (''PG_K_Share_To_U'', push_bit 8 1), (''PG_Slab'', push_bit 9 1)]"

subsection \<open>Every structure is well laid out\<close>

lemma multiboot_structures_fields: "list_all (\<lambda>t. c_type t \<and> (\<exists>fs. t = Struct fs)) multiboot_structures"
  by (simp add: multiboot_structures_def multiboot_struct_defs)

lemma kernel_structures_laid_out:
  "list_all well_laid [struct_task_struct, struct_thread_struct, struct_pt_regs, struct_tss_struct, mm_page_t,
     struct_mm_zone, global_mm_descriptor_t, E820_t]"
  "list_all aligned [struct_task_struct, struct_thread_struct, struct_pt_regs, mm_page_t, struct_mm_zone,
     global_mm_descriptor_t]"
  unfolding kernel_struct_defs by (simp_all add: struct_well_laid packed_well_laid)

lemma task_offsets:
  "offset_of struct_task_struct ''list'' = 0" "offset_of struct_task_struct ''state'' = 16"
  "offset_of struct_task_struct ''flags'' = 24" "offset_of struct_task_struct ''mm'' = 32"
  "offset_of struct_task_struct ''thread'' = 40" "offset_of struct_task_struct ''addr_limit'' = 48"
  "offset_of struct_task_struct ''pid'' = 56" "offset_of struct_task_struct ''counter'' = 64"
  "offset_of struct_task_struct ''signal'' = 72" "offset_of struct_task_struct ''priority'' = 80"
  by code_simp+

lemma thread_offsets:
  "offset_of struct_thread_struct ''rsp0'' = 0" "offset_of struct_thread_struct ''rip'' = 8"
  "offset_of struct_thread_struct ''rsp'' = 16" "offset_of struct_thread_struct ''fs'' = 24"
  "offset_of struct_thread_struct ''gs'' = 32"
  by code_simp+

lemma pt_regs_offsets:
  "map (offset_of struct_pt_regs) [''r15'', ''r14'', ''r13'', ''r12'', ''r11'', ''r10'', ''r9'', ''r8'', ''rbx'',
     ''rcx'', ''rdx'', ''rsi'', ''rdi'', ''rbp'', ''ds'', ''es'', ''rax'', ''func'', ''errcode'', ''rip'', ''cs'',
     ''rflags'', ''rsp'', ''ss''] = map ((*) 8) [0..<24]"
  by code_simp

lemma tss_offsets:
  "map (offset_of struct_tss_struct) [''rsp0'', ''rsp1'', ''rsp2'', ''ist1'', ''ist2'', ''ist3'', ''ist4'', ''ist5'',
     ''ist6'', ''ist7''] = [4, 12, 20, 36, 44, 52, 60, 68, 76, 84]"
  by code_simp

lemma structure_sizes:
  "size_of struct_task_struct = 88" "size_of struct_thread_struct = 64" "size_of struct_pt_regs = 192"
  "size_of mm_page_t = 40" "size_of struct_mm_zone = 72" "size_of task_union = 32768"
  "size_of struct_tss_struct = 104" "size_of E820_t = 20" "size_of struct_gate_struct = 16"
  by (simp_all add: kernel_struct_defs align_up_def STACK_SIZE_def)

lemma task_members:
  "map (\<lambda>x. member_addr struct_task_struct x t) [''state'', ''flags'', ''mm'', ''thread'', ''addr_limit'', ''pid'',
       ''counter'', ''signal'', ''priority''] =
     [task_state t, task_flags t, task_mm t, task_thread t, task_addr_limit t, task_pid t, task_counter t,
       task_signal t, task_priority t]"
  by (simp add: member_addr_def task_offsets task_state_def task_flags_def task_mm_def task_thread_def
        task_addr_limit_def task_pid_def task_counter_def task_signal_def task_priority_def)

lemma list_container:
  "container_of t struct_task_struct ''list'' = t"
  by (simp add: container_of_def member_addr_def task_offsets)

lemma thread_members:
  "map (\<lambda>x. member_addr struct_thread_struct x t) [''rsp0'', ''rip'', ''rsp'', ''fs'', ''gs''] =
     [thread_rsp0 t, thread_rip t, thread_rsp t, thread_fs t, thread_gs t]"
  by (simp add: member_addr_def thread_offsets thread_rsp0_def thread_rip_def thread_rsp_def thread_fs_def
        thread_gs_def)

lemma pt_regs_members:
  "read_pt_regs m p = \<lparr>
      pt_r15 = m (member_addr struct_pt_regs ''r15'' p), pt_r14 = m (member_addr struct_pt_regs ''r14'' p),
      pt_r13 = m (member_addr struct_pt_regs ''r13'' p), pt_r12 = m (member_addr struct_pt_regs ''r12'' p),
      pt_r11 = m (member_addr struct_pt_regs ''r11'' p), pt_r10 = m (member_addr struct_pt_regs ''r10'' p),
      pt_r9 = m (member_addr struct_pt_regs ''r9'' p), pt_r8 = m (member_addr struct_pt_regs ''r8'' p),
      pt_rbx = m (member_addr struct_pt_regs ''rbx'' p), pt_rcx = m (member_addr struct_pt_regs ''rcx'' p),
      pt_rdx = m (member_addr struct_pt_regs ''rdx'' p), pt_rsi = m (member_addr struct_pt_regs ''rsi'' p),
      pt_rdi = m (member_addr struct_pt_regs ''rdi'' p), pt_rbp = m (member_addr struct_pt_regs ''rbp'' p),
      pt_ds = m (member_addr struct_pt_regs ''ds'' p), pt_es = m (member_addr struct_pt_regs ''es'' p),
      pt_rax = m (member_addr struct_pt_regs ''rax'' p), pt_func = m (member_addr struct_pt_regs ''func'' p),
      pt_errcode = m (member_addr struct_pt_regs ''errcode'' p),
      pt_rip = m (member_addr struct_pt_regs ''rip'' p), pt_cs = m (member_addr struct_pt_regs ''cs'' p),
      pt_rflags = m (member_addr struct_pt_regs ''rflags'' p),
      pt_rsp = m (member_addr struct_pt_regs ''rsp'' p), pt_ss = m (member_addr struct_pt_regs ''ss'' p)\<rparr>"
  using pt_regs_offsets by (simp add: member_addr_def read_pt_regs_def upt_rec)

lemma tss_members:
  "let tss = TSS64_Table (set_tss64 r0 r1 r2 i1 i2 i3 i4 i5 i6 i7 g)
    in map (\<lambda>x. load_tss tss (offset_of struct_tss_struct x div 4))
         [''rsp0'', ''rsp1'', ''rsp2'', ''ist1'', ''ist2'', ''ist3'', ''ist4'', ''ist5'', ''ist6'', ''ist7''] =
       [r0, r1, r2, i1, i2, i3, i4, i5, i6, i7]"
  using tss_offsets set_tss64_fields [of r0 r1 r2 i1 i2 i3 i4 i5 i6 i7 g] by (simp add: Let_def)

lemma tss_limit:
  "desc_limit (fst (tss_words b)) = of_nat (size_of struct_tss_struct - 1)"
  by (simp add: structure_sizes tss_descriptor)

lemma page_flag_bits:
  "map snd page_flags = map (\<lambda>k. push_bit k 1) [0..<10]"
  by (simp add: page_flags_def upt_rec)

lemma page_flag_values:
  "map (map_of page_flags) [''PG_PTable_Maped'', ''PG_Kernel_Init'', ''PG_Referenced'', ''PG_Active'',
     ''PG_Kernel'', ''PG_K_Share_To_U''] =
     map Some [PG_PTable_Maped, PG_Kernel_Init, PG_Referenced, PG_Active, PG_Kernel, PG_K_Share_To_U]"
  by (simp add: page_flags_def page_flag_defs)

fun packed :: "ctype \<Rightarrow> ctype" where
  "packed (Struct fs) = Packed fs"
| "packed t = t"

lemma multiboot_without_gaps:
  "list_all (\<lambda>t. places t = places (packed t)) multiboot_structures"
  by (simp add: multiboot_structures_def multiboot_struct_defs Let_def align_up_def
      del: One_nat_def)

lemma multiboot_sizes:
  "map size_of multiboot_structures =
     [16, 8, 8, 24, 12, 12, 20, 8, 24, 3, 24, 8, 8, 16, 16, 20, 16, 512, 256, 784, 32, 40, 20, 28, 12, 16, 16, 8,
      8, 8, 16, 12, 16, 12]"
  "map (size_of \<circ> packed) multiboot_structures =
     [16, 8, 8, 24, 12, 12, 20, 8, 24, 3, 24, 8, 8, 16, 16, 20, 16, 512, 256, 784, 32, 38, 20, 28, 12, 16, 16, 8,
      8, 8, 16, 12, 16, 12]"
  by (simp_all add: multiboot_structures_def multiboot_struct_defs align_up_def del: One_nat_def)

lemma multiboot_offsets:
  "map (offset_of struct_multiboot_tag) [''type'', ''size''] = [0, 4]"
  "map (offset_of struct_multiboot_tag_mmap) [''size'', ''entry_size'', ''entries''] = [4, 8, 16]"
  "map (offset_of struct_multiboot_mmap_entry) [''addr'', ''len'', ''type''] = [0, 8, 16]"
  by code_simp+

text \<open>A member's value in the bytes of a structure.\<close>

definition read_member :: "ctype \<Rightarrow> string \<Rightarrow> u8 list \<Rightarrow> u64" where
  "read_member t x bs =
     field (offset_of t x) (member_size t x) bs"

lemma header_members:
  "map (\<lambda>x. (offset_of struct_multiboot_header x, member_size struct_multiboot_header x))
     [''magic'', ''architecture'', ''header_length''] = [(0, 4), (4, 4), (8, 4)]"
  by code_simp

lemma request_members:
  "map (\<lambda>x. (offset_of struct_multiboot_header_tag_framebuffer x,
       member_size struct_multiboot_header_tag_framebuffer x))
     [''type'', ''flags'', ''size'', ''width'', ''height'', ''depth''] =
     [(0, 2), (2, 2), (4, 4), (8, 4), (12, 4), (16, 4)]"
  by code_simp

subsection \<open>Properties\<close>

text \<open>The offsets at which the kernel is modelled are those of its structures in the compiler's layout: a
  task's and a thread's members, the saved registers of an interrupt, the sizes by which memory is set
  aside for tasks, frames and zones, the words of TSS64_Table that set_tss64 writes, the limit of the TSS
  descriptor; their members do not overlap, and those of the structures that are not packed are aligned; every
  page flag has a bit of its own; and container_of leads from the list member back to the task without moving the pointer.\<close>

theorem kernel_structures:
  "map (\<lambda>x. member_addr struct_task_struct x t) [''state'', ''flags'', ''mm'', ''thread'', ''addr_limit'', ''pid'',
       ''counter'', ''signal'', ''priority''] =
     [task_state t, task_flags t, task_mm t, task_thread t, task_addr_limit t, task_pid t, task_counter t,
       task_signal t, task_priority t] \<and>
   container_of t struct_task_struct ''list'' = t \<and>
   map (\<lambda>x. member_addr struct_thread_struct x t) [''rsp0'', ''rip'', ''rsp'', ''fs'', ''gs''] =
     [thread_rsp0 t, thread_rip t, thread_rsp t, thread_fs t, thread_gs t] \<and>
   read_pt_regs m p = \<lparr>
      pt_r15 = m (member_addr struct_pt_regs ''r15'' p), pt_r14 = m (member_addr struct_pt_regs ''r14'' p),
      pt_r13 = m (member_addr struct_pt_regs ''r13'' p), pt_r12 = m (member_addr struct_pt_regs ''r12'' p),
      pt_r11 = m (member_addr struct_pt_regs ''r11'' p), pt_r10 = m (member_addr struct_pt_regs ''r10'' p),
      pt_r9 = m (member_addr struct_pt_regs ''r9'' p), pt_r8 = m (member_addr struct_pt_regs ''r8'' p),
      pt_rbx = m (member_addr struct_pt_regs ''rbx'' p), pt_rcx = m (member_addr struct_pt_regs ''rcx'' p),
      pt_rdx = m (member_addr struct_pt_regs ''rdx'' p), pt_rsi = m (member_addr struct_pt_regs ''rsi'' p),
      pt_rdi = m (member_addr struct_pt_regs ''rdi'' p), pt_rbp = m (member_addr struct_pt_regs ''rbp'' p),
      pt_ds = m (member_addr struct_pt_regs ''ds'' p), pt_es = m (member_addr struct_pt_regs ''es'' p),
      pt_rax = m (member_addr struct_pt_regs ''rax'' p), pt_func = m (member_addr struct_pt_regs ''func'' p),
      pt_errcode = m (member_addr struct_pt_regs ''errcode'' p),
      pt_rip = m (member_addr struct_pt_regs ''rip'' p), pt_cs = m (member_addr struct_pt_regs ''cs'' p),
      pt_rflags = m (member_addr struct_pt_regs ''rflags'' p),
      pt_rsp = m (member_addr struct_pt_regs ''rsp'' p), pt_ss = m (member_addr struct_pt_regs ''ss'' p)\<rparr> \<and>
   sizeof_task = size_of struct_task_struct \<and> sizeof_thread = size_of struct_thread_struct \<and>
   sizeof_pt_regs = size_of struct_pt_regs \<and> unat STACK_SIZE = size_of task_union \<and>
   sizeof_mm_page = of_nat (size_of mm_page_t) \<and> sizeof_mm_zone = of_nat (size_of struct_mm_zone) \<and>
   (let tss = TSS64_Table (set_tss64 r0 r1 r2 i1 i2 i3 i4 i5 i6 i7 g)
    in map (\<lambda>x. load_tss tss (offset_of struct_tss_struct x div 4))
         [''rsp0'', ''rsp1'', ''rsp2'', ''ist1'', ''ist2'', ''ist3'', ''ist4'', ''ist5'', ''ist6'', ''ist7''] =
       [r0, r1, r2, i1, i2, i3, i4, i5, i6, i7]) \<and>
   desc_limit (fst (tss_words b)) = of_nat (size_of struct_tss_struct - 1) \<and>
   list_all well_laid [struct_task_struct, struct_thread_struct, struct_pt_regs, struct_tss_struct, mm_page_t,
     struct_mm_zone, global_mm_descriptor_t, E820_t] \<and>
   list_all aligned [struct_task_struct, struct_thread_struct, struct_pt_regs, mm_page_t, struct_mm_zone,
     global_mm_descriptor_t] \<and>
   map snd page_flags = map (\<lambda>k. push_bit k 1) [0..<10] \<and>
   map (map_of page_flags) [''PG_PTable_Maped'', ''PG_Kernel_Init'', ''PG_Referenced'', ''PG_Active'', ''PG_Kernel'',
     ''PG_K_Share_To_U''] = map Some [PG_PTable_Maped, PG_Kernel_Init, PG_Referenced, PG_Active, PG_Kernel, PG_K_Share_To_U]"
  using kernel_structures_laid_out task_members list_container thread_members pt_regs_members tss_members tss_limit
    page_flag_bits page_flag_values
  by (simp only: simp_thms) (simp add: structure_sizes sizeof_task_def sizeof_thread_def sizeof_pt_regs_def
      STACK_SIZE_def sizeof_mm_page_def sizeof_mm_zone_def)

text \<open>The Multiboot2 structures come out of the compiler as the protocol lays out its bytes although nothing packs
  them: every structure of multiboot2.h is well laid out and aligned, has no gap between two members, and
  none at the end but the framebuffer tag. So the offsets at which kernel.c reads the tags are those of
  the members, the numbers of the tags and of the kinds of memory are those of the kernel, and the header that multiboot2.S assembles reads as the structures of its C half.\<close>

theorem multiboot_structures_fit:
  "list_all (\<lambda>t. well_laid t \<and> aligned t \<and> places t = places (packed t)) multiboot_structures \<and>
   filter (\<lambda>t. size_of t \<noteq> size_of (packed t)) multiboot_structures = [struct_multiboot_tag_framebuffer] \<and>
   next_tag m tag =
     tag + ucast ((load32 m (member_addr struct_multiboot_tag ''size'' tag) + 7) AND NOT 7) \<and>
   init_memory_map m tag s =
     map_option (map_sum id (\<lambda>(i, available_size, s).
         s\<lparr>gmdsc := (gmdsc s)\<lparr>e820_num := ucast i, e820_available_size := ucast available_size\<rparr>\<rparr>))
       (entries_loop m tag (member_addr struct_multiboot_tag_mmap ''entries'' tag) 0 0 s) \<and>
   entries_loop m tag entry i available_size s =
     (if entry < tag + ucast (load32 m (member_addr struct_multiboot_tag_mmap ''size'' tag)) then
        if 32 \<le> i then Some (Inl E820Overflow)
        else entries_loop m tag
               (entry + ucast (load32 m (member_addr struct_multiboot_tag_mmap ''entry_size'' tag))) (i + 1)
               (if e820_type (mmap_entry m entry) = E820_TYPE_AVAILABLE then available_size + 1 else available_size)
               (record_entry i (mmap_entry m entry) s)
      else Some (Inr (i, available_size, s))) \<and>
   mmap_entry m entry =
     \<lparr>e820_addr = load64 m (member_addr struct_multiboot_mmap_entry ''addr'' entry),
      e820_len = load64 m (member_addr struct_multiboot_mmap_entry ''len'' entry),
      e820_type = load32 m (member_addr struct_multiboot_mmap_entry ''type'' entry)\<rparr> \<and>
   map (\<lambda>x. read_member struct_multiboot_header x (multiboot_header fill vbe)) [''magic'', ''architecture'', ''header_length''] =
     [0xe85250d6, 0, of_nat (length (multiboot_header fill vbe))] \<and>
   map (\<lambda>x. read_member struct_multiboot_header_tag_framebuffer x (drop 16 (multiboot_header fill True)))
     [''type'', ''flags'', ''size'', ''width'', ''height'', ''depth''] = [5, 1, 20, 1024, 768, 24] \<and>
   distinct (map snd multiboot_tag_types) \<and> distinct (map snd multiboot_header_tags) \<and>
   map_of multiboot_tag_types ''MMAP'' = Some MULTIBOOT_TAG_TYPE_MMAP \<and>
   map_of multiboot_tag_types ''END'' = Some MULTIBOOT_TAG_TYPE_END \<and>
   map_of multiboot_header_tags ''FRAMEBUFFER'' = Some MULTIBOOT_HEADER_TAG_FRAMEBUFFER \<and>
   e820_types = multiboot_memory_types \<and> map_of e820_types ''AVAILABLE'' = Some E820_TYPE_AVAILABLE"
proof -
  have "list_all (\<lambda>t. well_laid t \<and> aligned t) multiboot_structures"
    using multiboot_structures_fields struct_well_laid by (fastforce simp: list_all_iff)
  then have laid: "list_all (\<lambda>t. well_laid t \<and> aligned t \<and> places t = places (packed t)) multiboot_structures"
    using multiboot_without_gaps by (simp add: list_all_iff)
  have ends: "filter (\<lambda>t. size_of t \<noteq> size_of (packed t)) multiboot_structures = [struct_multiboot_tag_framebuffer]"
    using multiboot_sizes by (simp add: multiboot_structures_def)
  have header: "map (\<lambda>x. read_member struct_multiboot_header x (multiboot_header fill vbe))
      [''magic'', ''architecture'', ''header_length''] = [0xe85250d6, 0, of_nat (length (multiboot_header fill vbe))]"
    using header_members by (cases vbe; simp add: multiboot_header_bytes read_member_def field_def)
  have request: "map (\<lambda>x. read_member struct_multiboot_header_tag_framebuffer x (drop 16 (multiboot_header fill True)))
     [''type'', ''flags'', ''size'', ''width'', ''height'', ''depth''] = [5, 1, 20, 1024, 768, 24]"
    using request_members by (simp add: multiboot_header_bytes read_member_def field_def)
  have tables: "distinct (map snd multiboot_tag_types)" "distinct (map snd multiboot_header_tags)"
    "map_of multiboot_tag_types ''MMAP'' = Some MULTIBOOT_TAG_TYPE_MMAP"
    "map_of multiboot_tag_types ''END'' = Some MULTIBOOT_TAG_TYPE_END"
    "map_of multiboot_header_tags ''FRAMEBUFFER'' = Some MULTIBOOT_HEADER_TAG_FRAMEBUFFER"
    "e820_types = multiboot_memory_types" "map_of e820_types ''AVAILABLE'' = Some E820_TYPE_AVAILABLE"
    by code_simp+
  show ?thesis
    using multiboot_offsets
    by (intro conjI laid ends header request tables)
      (simp_all add: member_addr_def next_tag_def init_memory_map_def mmap_entry_def entries_loop.simps [of m tag entry])
qed

end
