(* ===== verification/LinkScript.thy ===== *)
theory LinkScript
  imports CType Ata Task
begin

text \<open>
  The linker script \<^verbatim>\<open>link.lds\<close>: the location counter through the sections, whose sizes are parameters. The
  addresses are natural numbers; as an image of less than a gigabyte does not reach the end of the address
  space, the words that the kernel reads are the same. \<open>linker_of\<close> gives the symbols to MemInit.
\<close>

subsection \<open>The script\<close>

record section_sizes =
  size_bs :: nat
  size_text :: nat
  size_data :: nat
  size_rodata :: nat
  size_init_task :: nat
  size_bss :: nat

record link_map =
  lm_start_kernel :: nat
  lm_start_text :: nat
  lm_end_text :: nat
  lm_start_data :: nat
  lm_end_data :: nat
  lm_start_rodata :: nat
  lm_end_rodata :: nat
  lm_init_task :: nat
  lm_start_bss :: nat
  lm_end_bss :: nat
  lm_end_kernel :: nat

definition VMA :: nat where "VMA = 0xffff800000000000"

definition link_script :: "section_sizes \<Rightarrow> link_map" where
  "link_script z =
     (let dot = 32 * 1024 * 1024;
          start_kernel = dot;
          dot = align_up (dot + size_bs z) 4096;
          dot = dot + VMA;
          start_text = dot; dot = dot + size_text z; end_text = dot;
          dot = align_up dot 32768;
          start_data = dot; dot = dot + size_data z; end_data = dot;
          dot = align_up dot 32768;
          start_rodata = dot; dot = dot + size_rodata z; end_rodata = dot;
          dot = align_up dot 32768;
          init_task = dot; dot = dot + size_init_task z;
          dot = align_up dot 32768;
          start_bss = dot; dot = dot + size_bss z; end_bss = dot
      in \<lparr>lm_start_kernel = start_kernel, lm_start_text = start_text, lm_end_text = end_text,
          lm_start_data = start_data, lm_end_data = end_data, lm_start_rodata = start_rodata,
          lm_end_rodata = end_rodata, lm_init_task = init_task, lm_start_bss = start_bss, lm_end_bss = end_bss,
          lm_end_kernel = dot - VMA\<rparr>)"

text \<open>The symbols as \<^verbatim>\<open>mm.c\<close> declares them. \<^verbatim>\<open>pml4\<close> lies in the section \<^verbatim>\<open>.bs.data\<close>, the string in \<^verbatim>\<open>.rodata\<close>.\<close>

definition linker_of :: "link_map \<Rightarrow> u64 \<Rightarrow> u64 \<Rightarrow> linker" where
  "linker_of m pml4 name =
     \<lparr>sym_start_kernel = of_nat (lm_start_kernel m), sym_end_kernel = of_nat (lm_end_kernel m), sym_pml4 = pml4,
      sym_start_text = of_nat (lm_start_text m), sym_end_text = of_nat (lm_end_text m),
      sym_start_data = of_nat (lm_start_data m), sym_end_data = of_nat (lm_end_data m),
      sym_start_rodata = of_nat (lm_start_rodata m), sym_end_rodata = of_nat (lm_end_rodata m),
      sym_start_bss = of_nat (lm_start_bss m), sym_end_bss = of_nat (lm_end_bss m), sym_mm_file = name\<rparr>"

subsection \<open>Where the sections lie\<close>

definition image_size :: "section_sizes \<Rightarrow> nat" where
  "image_size z = size_bs z + size_text z + size_data z + size_rodata z + size_init_task z + size_bss z"

lemma align_up_bounds: "n \<le> align_up n 32768" "align_up n 32768 < n + 32768" "n \<le> align_up n 4096"
  "align_up n 4096 < n + 4096"
  using align_up [of 32768 n] align_up [of 4096 n] by simp_all

lemma script_order:
  "0x2000000 + VMA \<le> lm_start_text (link_script z)"
  "sorted [lm_start_text (link_script z), lm_end_text (link_script z), lm_start_data (link_script z),
     lm_end_data (link_script z), lm_start_rodata (link_script z), lm_end_rodata (link_script z),
     lm_init_task (link_script z), lm_start_bss (link_script z), lm_end_bss (link_script z)]"
  "lm_init_task (link_script z) + size_init_task z \<le> lm_start_bss (link_script z)"
  "lm_end_bss (link_script z) < 0x2000000 + VMA + image_size z + 4096 + 4 * 32768"
  "lm_end_kernel (link_script z) = lm_end_bss (link_script z) - VMA"
proof -
  note up = align_up_bounds
  define a where "a = align_up (0x2000000 + size_bs z) 4096"
  define b where "b = align_up (a + VMA + size_text z) 32768"
  define c where "c = align_up (b + size_data z) 32768"
  define d where "d = align_up (c + size_rodata z) 32768"
  define e where "e = align_up (d + size_init_task z) 32768"
  have m: "lm_start_text (link_script z) = a + VMA" "lm_end_text (link_script z) = a + VMA + size_text z"
    "lm_start_data (link_script z) = b" "lm_end_data (link_script z) = b + size_data z"
    "lm_start_rodata (link_script z) = c" "lm_end_rodata (link_script z) = c + size_rodata z"
    "lm_init_task (link_script z) = d" "lm_start_bss (link_script z) = e" "lm_end_bss (link_script z) = e + size_bss z"
    "lm_end_kernel (link_script z) = e + size_bss z - VMA"
    by (simp_all add: link_script_def Let_def a_def b_def c_def d_def e_def)
  have bounds: "0x2000000 + size_bs z \<le> a" "a < 0x2000000 + size_bs z + 4096" "a + VMA + size_text z \<le> b"
    "b < a + VMA + size_text z + 32768" "b + size_data z \<le> c" "c < b + size_data z + 32768"
    "c + size_rodata z \<le> d" "d < c + size_rodata z + 32768" "d + size_init_task z \<le> e"
    "e < d + size_init_task z + 32768"
    unfolding a_def b_def c_def d_def e_def by (rule up)+
  show "0x2000000 + VMA \<le> lm_start_text (link_script z)"
    "sorted [lm_start_text (link_script z), lm_end_text (link_script z), lm_start_data (link_script z),
       lm_end_data (link_script z), lm_start_rodata (link_script z), lm_end_rodata (link_script z),
       lm_init_task (link_script z), lm_start_bss (link_script z), lm_end_bss (link_script z)]"
    "lm_init_task (link_script z) + size_init_task z \<le> lm_start_bss (link_script z)"
    "lm_end_bss (link_script z) < 0x2000000 + VMA + image_size z + 4096 + 4 * 32768"
    "lm_end_kernel (link_script z) = lm_end_bss (link_script z) - VMA"
    unfolding m image_size_def using bounds by simp_all
qed

lemma script_aligned:
  "32768 dvd lm_start_data (link_script z)" "32768 dvd lm_start_rodata (link_script z)"
  "32768 dvd lm_init_task (link_script z)" "32768 dvd lm_start_bss (link_script z)"
  by (simp_all add: link_script_def Let_def align_up(3))

text \<open>An address of the upper half of the first gigabyte: its word, and what the address macros make of it.\<close>

lemma upper_address:
  assumes "VMA \<le> a" "a < VMA + 2 ^ 30"
  shows "unat (of_nat a :: u64) = a" "VIR2PHY (of_nat a) = of_nat (a - VMA)" "unat (VIR2PHY (of_nat a)) = a - VMA"
proof -
  have lt: "a < 2 ^ 64" "a - VMA < 2 ^ 64" using assms by (simp_all add: VMA_def)
  show u: "unat (of_nat a :: u64) = a" by (rule unat_of_nat_u64 [OF lt(1)])
  have "a = (a - VMA) + 2 ^ 47 * (2 ^ 17 - 1)" "a - VMA < 2 ^ 47" using assms by (simp_all add: VMA_def)
  then have "take_bit 47 a = a - VMA" by (metis mod_mult_self2 mod_less take_bit_eq_mod)
  then show v: "unat (VIR2PHY (of_nat a)) = a - VMA"
    unfolding VIR2PHY_take unsigned_take_bit_eq u .
  show "VIR2PHY (of_nat a) = of_nat (a - VMA)"
    unfolding word_unat_eq_iff v unat_of_nat_u64 [OF lt(2)] ..
qed

lemma aligned_word: "32768 dvd a \<Longrightarrow> (of_nat a :: u64) AND 32767 = 0"
proof -
  assume "32768 dvd a"
  then obtain k where "a = 32768 * k" by (elim dvdE)
  then have "take_bit 15 a = 0" by (simp add: take_bit_eq_mod)
  then have "take_bit 15 (of_nat a :: u64) = 0" by (simp flip: of_nat_take_bit)
  then show ?thesis by (simp add: take_bit_eq_mask mask_eq_exp_minus_1)
qed

subsection \<open>Properties\<close>

text \<open>C33: The image that the linker script lays out is one the kernel can run in. For an image of up to 512 megabytes,
  the kernel starts at 32 megabytes and ends at the physical address of the end of its last section, all in
  the first gigabyte that the boot code maps; the sections follow each other as init_memory reports them, and
  any address in them has its physical address between the start and the end of the kernel, which is what
  init_memory reserves. The boot task and its 32 kilobytes of stack lie between the data and the bss, aligned
  so that current finds the task from any stack pointer in them.\<close>

theorem image_layout:
  fixes z :: section_sizes and pml4 name :: u64
  assumes "image_size z \<le> 2 ^ 29" "size_init_task z = 32768"
  defines "ld \<equiv> linker_of (link_script z) pml4 name" and "task \<equiv> of_nat (lm_init_task (link_script z))"
  shows "sym_start_kernel ld = 0x2000000 \<and> sym_end_kernel ld = VIR2PHY (sym_end_bss ld) \<and>
    sym_start_kernel ld \<le> sym_end_kernel ld \<and> unat (sym_end_kernel ld) \<le> 2 ^ 30 \<and>
    sorted [sym_start_text ld, sym_end_text ld, sym_start_data ld, sym_end_data ld, sym_start_rodata ld,
      sym_end_rodata ld, task, task + 32768, sym_start_bss ld, sym_end_bss ld] \<and>
    (\<forall>a. sym_start_text ld \<le> a \<and> a < sym_end_bss ld \<longrightarrow>
      sym_start_kernel ld \<le> VIR2PHY a \<and> VIR2PHY a < sym_end_kernel ld) \<and>
    task AND 32767 = 0 \<and> (\<forall>k. k < 32768 \<longrightarrow> (task + k) AND NOT 32767 = task)"
proof -
  let ?m = "link_script z"
  note o = script_order [of z]
  have top: "lm_end_bss ?m \<le> VMA + 2 ^ 30 - 32768" using o(4) assms(1) by simp
  have ends: "lm_end_kernel ?m = lm_end_bss ?m - VMA" "VMA + 0x2000000 \<le> lm_end_bss ?m"
    using o(1,2,5) by simp_all
  have word: "unat (of_nat a :: u64) = a" "unat (VIR2PHY (of_nat a)) = a - VMA" "VIR2PHY (of_nat a) = of_nat (a - VMA)"
    if "lm_start_text ?m \<le> a" "a \<le> lm_end_bss ?m" for a
    using upper_address [of a] that o(1) top by simp_all
  have less: "(of_nat a :: u64) \<le> of_nat b \<longleftrightarrow> a \<le> b"
    if "lm_start_text ?m \<le> a" "a \<le> lm_end_bss ?m" "lm_start_text ?m \<le> b" "b \<le> lm_end_bss ?m" for a b
    using that by (simp add: word_le_nat_alt word(1))
  have start: "sym_start_kernel ld = 0x2000000" by (simp add: ld_def linker_of_def link_script_def Let_def)
  have stop: "sym_end_kernel ld = VIR2PHY (sym_end_bss ld)" "unat (sym_end_kernel ld) = lm_end_bss ?m - VMA"
    using word(2,3) [of "lm_end_bss ?m"] o(2) by (simp_all add: ld_def linker_of_def ends(1))
  have order: "sorted [sym_start_text ld, sym_end_text ld, sym_start_data ld, sym_end_data ld, sym_start_rodata ld,
      sym_end_rodata ld, task, task + 32768, sym_start_bss ld, sym_end_bss ld]"
  proof -
    have t: "task + 32768 = of_nat (lm_init_task ?m + 32768)" by (simp add: task_def)
    show ?thesis
      unfolding t using o(2,3) assms(2) by (simp add: ld_def linker_of_def task_def less del: of_nat_add)
  qed
  have inside: "sym_start_kernel ld \<le> VIR2PHY a \<and> VIR2PHY a < sym_end_kernel ld"
    if "sym_start_text ld \<le> a" "a < sym_end_bss ld" for a
  proof -
    have u: "lm_start_text ?m \<le> unat a" "unat a < lm_end_bss ?m"
      using that word(1) [of "lm_start_text ?m"] word(1) [of "lm_end_bss ?m"] o(2)
      by (simp_all add: word_le_nat_alt word_less_nat_alt ld_def linker_of_def)
    then have "unat (VIR2PHY a) = unat a - VMA" using word(2) [of "unat a"] by simp
    then have "0x2000000 \<le> unat (VIR2PHY a) \<and> unat (VIR2PHY a) < lm_end_bss ?m - VMA" using u o(1) by linarith
    then show ?thesis by (simp add: word_le_nat_alt word_less_nat_alt start stop(2))
  qed
  have task: "task AND 32767 = 0" unfolding task_def by (rule aligned_word [OF script_aligned(3)])
  have "(task + k) AND NOT 32767 = task" if "k < 32768" for k
    using aligned_block [OF task, of k] that by (simp add: word_less_nat_alt)
  then show ?thesis
    using start stop order inside task ends(2) top by (auto simp: word_le_nat_alt)
qed

theorem image_layout_witness:
  "let z = \<lparr>size_bs = 0x5000, size_text = 0x6000, size_data = 0x2000, size_rodata = 0x1800, size_init_task = 32768,
         size_bss = 0x900\<rparr>;
       ld = linker_of (link_script z) 0x2001000 0; task = of_nat (lm_init_task (link_script z)) :: u64
   in task = 0xffff800002020000 \<and> sym_end_bss ld = 0xffff800002028900 \<and> sym_end_kernel ld = 0x2028900 \<and>
      sym_end_kernel ld = VIR2PHY (sym_end_bss ld) \<and> (task + 0x7fc0) AND NOT 32767 = task"
proof -
  define z where "z = \<lparr>size_bs = 0x5000, size_text = 0x6000, size_data = 0x2000, size_rodata = 0x1800,
    size_init_task = 32768, size_bss = 0x900\<rparr>"
  have "image_size z \<le> 2 ^ 29" "size_init_task z = 32768" by (simp_all add: z_def image_size_def)
  note layout = image_layout [OF this, of "0x2001000" 0]
  have "lm_init_task (link_script z) = 0xffff800002020000" "lm_end_bss (link_script z) = 0xffff800002028900"
    "lm_end_kernel (link_script z) = 0x2028900"
    by (simp_all add: z_def link_script_def Let_def align_up_def VMA_def)
  then show ?thesis
    using layout by (simp add: Let_def linker_of_def z_def [symmetric])
qed

end
