(* ===== verification/User.thy ===== *)
theory User
  imports Launch Syscall
begin

text \<open>
  \<^verbatim>\<open>user_level_function\<close> of \<^verbatim>\<open>kernel/sched/task.c\<close>, the program that \<^verbatim>\<open>do_execve\<close> copies to user memory, up to its
  endless loop: its two messages, which call the kernel's \<^verbatim>\<open>kprintf\<close> directly (the code model of the build
  makes these calls absolute, so the copy reaches the kernel's code), and the print call between them, which
  enters the kernel through the registers that task_init has written.
\<close>

subsection \<open>The program\<close>

definition hello_text :: string where
  "hello_text = ''Hello World! '' @ [newline]"

text \<open>From the start to the first instruction behind the entry code of the kernel. \<open>str\<close> is where the compiler puts
  the array \<^verbatim>\<open>str\<close>, \<open>ret\<close> the address of the label \<^verbatim>\<open>sysexit_return_address\<close>.\<close>

definition enter_kernel :: "u64 \<Rightarrow> u64 \<Rightarrow> 'a sched_state_scheme \<Rightarrow> 'a sched_state_scheme" where
  "enter_kernel str ret s =
     (let s = kinfo (''user_level_function task is running'' @ [newline]) [] s;
          s = s\<lparr>ram := store_bytes (ram s) (VIR2PHY str) (map char_byte hello_text @ [0])\<rparr>;
          s = on_core (run (user_level_function str ret)) s;
          s = on_core (sysenter (msrs s 0x175) (msrs s 0x176)) s
      in on_core (run system_call) s)"

text \<open>The way back with the dispatcher's result in \<^verbatim>\<open>rax\<close>, and the second message.\<close>

definition leave_kernel :: "u64 \<Rightarrow> 'a sched_state_scheme \<Rightarrow> 'a sched_state_scheme" where
  "leave_kernel v s =
     (let s = on_core (\<lambda>c. run ret_system_call (c\<lparr>gpr := (gpr c)(RAX := v)\<rparr>)) s
      in kinfo (''user_level_function task called sysenter,ret:%ld'' @ [newline]) [gpr (core s) RAX] s)"

text \<open>\<open>None\<close> where the system call does not return, or the processor would enter at another address than that
  of \<^verbatim>\<open>system_call\<close>.\<close>

definition user_task ::
    "image \<Rightarrow> u64 \<Rightarrow> u64 \<Rightarrow> 'a sched_state_scheme \<Rightarrow> (sys_error + 'a sched_state_scheme) option" where
  "user_task im str ret s =
     (if msrs s 0x176 = im_system_call im then
        let s = enter_kernel str ret s
        in map_option (map_sum id (\<lambda>(v, s). leave_kernel v s))
             (system_call_function (read_pt_regs (slots (core s)) (gpr (core s) RDI)) s)
      else None)"

subsection \<open>Its messages\<close>

lemma print_result:
  assumes "vsprintf fmt args (cmem con) = Inr \<lparr>vout = t, vargs = as, vmem = cmem con\<rparr>" "length t < 512"
  shows "map_sum id screen_of (kprintf fmt args con) = Inr (put_string 0x07 (map char_byte t) (screen_of con))"
  using assms by (simp add: kprintf_def printf_color_def WORD_WHITE_def screen_of_print)

lemma result_message:
  "vsprintf (''user_level_function task called sysenter,ret:%ld'' @ [newline]) [0] m =
    Inr \<lparr>vout = ''user_level_function task called sysenter,ret:0'' @ [newline], vargs = [], vmem = m\<rparr>"
  by code_simp

text \<open>What the program shows.\<close>

definition program_output :: "u8 list" where
  "program_output = map char_byte
     (''[info] user_level_function task is running'' @ [newline] @ hello_text @
      ''[info] user_level_function task called sysenter,ret:0'' @ [newline])"

lemma byte_char_char_byte: "byte_char (char_byte c) = c"
  by (simp add: byte_char_def char_byte_def unsigned_of_nat take_bit_eq_mod of_char_mod_256 [where 'a = nat, simplified])

lemma char_byte_zero: "char_byte c = 0 \<longleftrightarrow> c = CHR 0x00"
proof
  assume "char_byte c = 0"
  then have "c = byte_char 0" using byte_char_char_byte [of c] by simp
  then show "c = CHR 0x00" by (simp add: byte_char_def char_of_def)
qed (simp add: char_byte_def)

definition shows_text :: "event \<Rightarrow> string \<Rightarrow> bool" where
  "shows_text e t \<longleftrightarrow> list_all (\<lambda>c. c \<noteq> CHR 0x00) t \<and>
     (\<forall>con. map_sum id screen_of (show_event e con) = Inr (put_string 0x07 (map char_byte t) (screen_of con)))"

lemma shows_plain: "plain_text t \<Longrightarrow> length t < 512 \<Longrightarrow> shows_text (Printk WORD_WHITE t []) t"
  unfolding shows_text_def show_printf
  by (intro conjI allI) (simp_all add: kprintf_plain, simp add: plain_text_def list_all_iff)

lemma shows_result:
  "shows_text (Printk WORD_WHITE (''user_level_function task called sysenter,ret:%ld'' @ [newline]) [0])
     (''user_level_function task called sysenter,ret:0'' @ [newline])"
  unfolding shows_text_def show_printf
  by (intro conjI allI print_result [OF result_message]) (simp_all add: newline_def)

lemma show_texts:
  "list_all2 shows_text es ts \<Longrightarrow>
    map_sum id screen_of (show_events es con) = Inr (put_string 0x07 (map char_byte (concat ts)) (screen_of con))"
proof (induction arbitrary: con rule: list_all2_induct)
  case Nil
  show ?case by (simp add: put_string_def)
next
  case (Cons e es t ts)
  have "map_sum id screen_of (show_event e con) = Inr (put_string 0x07 (map char_byte t) (screen_of con))"
    using Cons(1) by (simp add: shows_text_def)
  then obtain con' where c: "show_event e con = Inr con'" "screen_of con' = put_string 0x07 (map char_byte t) (screen_of con)"
    by (cases "show_event e con") auto
  have "list_all (\<lambda>b. b \<noteq> 0) (map char_byte t)"
  proof -
    have "char_byte c \<noteq> 0" if "c \<noteq> CHR 0x00" for c
      using that by (simp add: char_byte_zero)
    then show ?thesis using Cons(1) by (auto simp: shows_text_def list_all_iff)
  qed
  then show ?case
    using Cons(3) [of con'] c by (simp add: put_string_append)
qed

lemma program_shows:
  "map_sum id screen_of (show_events
     [Printk WORD_WHITE ''[info] '' [], Printk WORD_WHITE (''user_level_function task is running'' @ [newline]) [],
      Printk WORD_WHITE hello_text [], Printk WORD_WHITE ''[info] '' [],
      Printk WORD_WHITE (''user_level_function task called sysenter,ret:%ld'' @ [newline]) [0]] con) =
   Inr (put_string 0x07 program_output (screen_of con))"
proof -
  have "list_all2 shows_text
     [Printk WORD_WHITE ''[info] '' [], Printk WORD_WHITE (''user_level_function task is running'' @ [newline]) [],
      Printk WORD_WHITE hello_text [], Printk WORD_WHITE ''[info] '' [],
      Printk WORD_WHITE (''user_level_function task called sysenter,ret:%ld'' @ [newline]) [0]]
     [''[info] '', ''user_level_function task is running'' @ [newline], hello_text, ''[info] '',
      ''user_level_function task called sysenter,ret:0'' @ [newline]]"
    by (intro list.rel_intros shows_plain shows_result)
      (simp_all add: plain_text_def newline_def hello_text_def)
  from show_texts [OF this] show ?thesis by (simp add: program_output_def)
qed

subsection \<open>The run\<close>

lemma hello_hello: "map char_byte hello_text = hello"
  by (simp add: hello_text_def hello_def)

lemma hello_in_memory:
  assumes "in_gigabyte str 15"
  shows "cstring (mapped (store_bytes m (VIR2PHY str) (map char_byte hello_text @ [0]))) str hello"
proof -
  let ?bs = "map char_byte hello_text @ [0]" and ?p = "VIR2PHY str"
  have len: "length hello = 14" "length hello_text = 14" by (simp_all add: hello_def hello_text_def)
  have all: "load_bytes (mapped (store_bytes m ?p ?bs)) str 15 = ?bs"
    using load_store_bytes [of ?bs m ?p] by (simp add: mapped_bytes [OF assms] len)
  have split: "load_bytes (mapped (store_bytes m ?p ?bs)) str 15 =
      load_bytes (mapped (store_bytes m ?p ?bs)) str 14 @ [mapped (store_bytes m ?p ?bs) (str + 14)]"
    using load_bytes_add [of "mapped (store_bytes m ?p ?bs)" str 14 1] by simp
  have "load_bytes (mapped (store_bytes m ?p ?bs)) str 14 = hello" "mapped (store_bytes m ?p ?bs) (str + 14) = 0"
    using all [unfolded split] by (simp_all add: hello_hello)
  moreover have "list_all (\<lambda>b. b \<noteq> 0) hello" by (simp add: hello_def char_byte_def newline_def)
  ultimately show ?thesis by (simp add: cstring_def len)
qed

lemma enter_kernel_effect:
  fixes s :: "'a sched_state_scheme" and str ret :: u64
  defines "c \<equiv> sysenter (msrs s 0x175) (msrs s 0x176) (run (user_level_function str ret) (core s))"
  shows "core (enter_kernel str ret s) = run system_call c"
    "trace (enter_kernel str ret s) = trace s @ [Printk WORD_WHITE ''[info] '' [],
       Printk WORD_WHITE (''user_level_function task is running'' @ [newline]) []]"
    "ram (enter_kernel str ret s) = store_bytes (ram s) (VIR2PHY str) (map char_byte hello_text @ [0])"
proof -
  have msrs: "msrs (on_core f (s'\<lparr>ram := m\<rparr>)) = msrs s'" "msrs (kinfo fmt args s') = msrs s'"
    for f m fmt args and s' :: "'a sched_state_scheme"
    by (simp_all add: msrs_def on_core_def)
  show "core (enter_kernel str ret s) = run system_call c"
    unfolding enter_kernel_def Let_def c_def msrs by simp
  show "trace (enter_kernel str ret s) = trace s @ [Printk WORD_WHITE ''[info] '' [],
       Printk WORD_WHITE (''user_level_function task is running'' @ [newline]) []]"
    "ram (enter_kernel str ret s) = store_bytes (ram s) (VIR2PHY str) (map char_byte hello_text @ [0])"
    by (simp_all add: enter_kernel_def Let_def on_core_def) (simp add: kinfo_def log_printf_def)
qed

lemma user_task_run:
  assumes "msrs s 0x176 = im_system_call im" "msrs s 0x175 = boot + STACK_SIZE" "boot AND 32767 = 0"
    and "in_gigabyte str 15"
  shows "\<exists>s'. user_task im str ret s = Some (Inr s') \<and>
    map_sum id screen_of (show_events (drop (length (trace s)) (trace s')) con) =
      Inr (put_string 0x07 program_output (screen_of con)) \<and>
    rip (core s') = ret \<and> rsp (core s') = rsp (core s) \<and> segs (core s') = segs (core s) \<and>
    get_current (enter_kernel str ret s) = boot \<and>
    IDT_Table s' = IDT_Table s \<and> TSS64_Table s' = TSS64_Table s \<and> cs (core s') = 0x2b"
proof -
  let ?c = "sysenter (msrs s 0x175) (msrs s 0x176) (run (user_level_function str ret) (core s))"
  let ?s1 = "enter_kernel str ret s" and ?c1 = "run system_call ?c"
  let ?regs = "read_pt_regs (slots ?c1) (gpr ?c1 RDI)" and ?s2 = "log_printf hello_text [] ?s1"
  have "map byte_char hello = hello_text" by (simp add: hello_hello [symmetric] comp_def byte_char_char_byte)
  then have greeting: "user_string (mapped (ram ?s1)) str = Some hello_text"
    unfolding enter_kernel_effect(3) using user_string_cstring [OF hello_in_memory [OF assms(4)]] by simp
  have call: "system_call_function ?regs ?s1 = Some (Inr (0, ?s2))"
    using greeting by (simp add: system_call_function_def system_call_arguments user_call_registers system_call_table_nth
        sys_printf_def)
  have run: "user_task im str ret s = Some (Inr (leave_kernel 0 ?s2))"
    using assms(1) call by (simp add: user_task_def Let_def enter_kernel_effect(1))
  have core2: "core ?s2 = ?c1" by (simp add: log_printf_def emit_def enter_kernel_effect(1))
  let ?c3 = "run ret_system_call (?c1\<lparr>gpr := (gpr ?c1)(RAX := 0)\<rparr>)"
  have returned: "gpr ?c3 = (gpr ?c)(RAX := 0)" "segs ?c3 = segs (core s)" "rip ?c3 = ret" "rsp ?c3 = rsp (core s)"
    using system_call_roundtrip [of "?c1\<lparr>gpr := (gpr ?c1)(RAX := 0)\<rparr>" ?c]
    by (simp_all add: Let_def user_call_registers system_call_frame)
  have left: "core (leave_kernel 0 ?s2) = ?c3"
    "trace (leave_kernel 0 ?s2) = trace ?s2 @ [Printk WORD_WHITE ''[info] '' [],
       Printk WORD_WHITE (''user_level_function task called sysenter,ret:%ld'' @ [newline]) [0]]"
    by (simp_all add: leave_kernel_def Let_def core2 returned) (simp add: on_core_def)
  have "drop (length (trace s)) (trace (leave_kernel 0 ?s2)) =
     [Printk WORD_WHITE ''[info] '' [], Printk WORD_WHITE (''user_level_function task is running'' @ [newline]) [],
      Printk WORD_WHITE hello_text [], Printk WORD_WHITE ''[info] '' [],
      Printk WORD_WHITE (''user_level_function task called sysenter,ret:%ld'' @ [newline]) [0]]"
    unfolding left(2) by (simp add: log_printf_def enter_kernel_effect(2))
  then have shown: "map_sum id screen_of (show_events (drop (length (trace s)) (trace (leave_kernel 0 ?s2))) con) =
      Inr (put_string 0x07 program_output (screen_of con))"
    by (simp only: program_shows)
  have "rsp ?c1 = boot + 32576"
    by (simp add: system_call_frame(2) user_call_registers assms(2) STACK_SIZE_def)
  then have "get_current ?s1 = boot"
    using aligned_block [OF assms(3), of 32576] by (simp add: get_current_def enter_kernel_effect(1))
  moreover have "IDT_Table (leave_kernel 0 ?s2) = IDT_Table s" "TSS64_Table (leave_kernel 0 ?s2) = TSS64_Table s"
    by (simp_all add: leave_kernel_def enter_kernel_def Let_def on_core_def kinfo_def log_printf_def emit_def)
  ultimately show ?thesis
    using run shown returned left(1) user_level(1) by (intro exI [of _ "leave_kernel 0 ?s2"] conjI) simp_all
qed

subsection \<open>The whole way\<close>

lemma launch_greets:
  fixes s :: "'a sched_state_scheme"
  assumes "magic = MULTIBOOT2_BOOTLOADER_MAGIC" "info AND 7 = 0"
    and "holds (mapped (ram s)) (info + 8) (info_bytes tags)" "list_all tag_ok tags"
    and "unat (info + 8) + length (info_bytes tags) < 2 ^ 64" "last_map tags = Some es"
    and "map_ok (placed (env_linker env) (gmdsc (fold take_tag tags s)))"
    and "unat (sym_start_kernel (env_linker env)) < 2 ^ 43"
    and "unat (end_of_struct (placed (env_linker env) (gmdsc (fold take_tag tags s)))) < 2 ^ 43"
    and "kernel_range (env_linker env) (gmdsc (fold take_tag tags s)) \<subseteq> usable_frames es"
    and "responsive s" "low_memory_free es (kernel_range (env_linker env) (gmdsc (fold take_tag tags s)))"
    and "tsk = PHY2VIR (phy_addr (pages s (- 1)))" "tsk AND 32767 = 0"
    and "boot_ready (env_image env) (env_regs env) tsk s" "program_safe env"
    and "peek (thread_rsp0 (peek (task_thread (get_current s)) s)) s = im_init_task (env_image env) + STACK_SIZE"
    and "in_gigabyte str 15"
  obtains s2 s' where "kernel_start env magic info s = Some (Switched s2)"
    "let s3 = on_core (run (kernel_thread_func ret)) s2; s4 = init (env_image env) (gpr (core s3) RDI) s3;
         u = on_core (run ret_system_call) s4
     in rip (core s3) = im_init (env_image env) \<and> get_current s3 = tsk \<and>
        rip (core s4) = im_ret_system_call (env_image env) \<and> rip (core u) = 0x800000 \<and> rsp (core u) = 0xa00000 \<and>
        load_bytes (mapped (ram u)) 0x800000 1024 =
          load_bytes (mapped (ram s)) (im_user_level_function (env_image env)) 1024 \<and>
        user_task (env_image env) str label u = Some (Inr s') \<and>
        map_sum id screen_of (show_events (drop (length (trace u)) (trace s')) con) =
          Inr (put_string 0x07 program_output (screen_of con)) \<and>
        get_current (enter_kernel str label u) = im_init_task (env_image env)"
    "rip (core s') = label" "rsp (core s') = 0xa00000" "cs (core s') = 0x2b"
    "\<forall>v. 0x20 \<le> v \<and> v \<le> 0x37 \<longrightarrow> IDT_Table s' v = gate_words 0x8E 0 (env_stub env (ucast v))"
    "load_tss (TSS64_Table s') 1 = tsk + 32768"
proof -
  let ?im = "env_image env"
  obtain s2 where s2: "kernel_start env magic info s = Some (Switched s2)"
    "let s3 = on_core (run (kernel_thread_func ret)) s2; s4 = init ?im (gpr (core s3) RDI) s3;
         user = run ret_system_call (core s4)
     in rip (core s3) = im_init ?im \<and> get_current s3 = tsk \<and>
        rip (core s4) = im_ret_system_call ?im \<and> rip user = 0x800000 \<and> rsp user = 0xa00000 \<and>
        load_bytes (mapped (ram s4)) 0x800000 1024 = load_bytes (mapped (ram s)) (im_user_level_function ?im) 1024 \<and>
        msrs s4 0x176 = im_system_call ?im \<and>
        msrs s4 0x175 = peek (thread_rsp0 (peek (task_thread (get_current s)) s)) s \<and>
        (\<forall>v. 0x20 \<le> v \<and> v \<le> 0x37 \<longrightarrow> IDT_Table s4 v = gate_words 0x8E 0 (env_stub env (ucast v))) \<and>
        load_tss (TSS64_Table s4) 1 = tsk + 32768 \<and> cs user = 0x2b"
    using launch_run [OF assms(1-16)] by auto
  let ?s3 = "on_core (run (kernel_thread_func ret)) s2"
  let ?s4 = "init ?im (gpr (core ?s3) RDI) ?s3"
  let ?u = "on_core (run ret_system_call) ?s4"
  note facts = s2(2) [unfolded Let_def]
  have same: "msrs (on_core f t) = msrs t" "ram (on_core f t) = ram t" "IDT_Table (on_core f t) = IDT_Table t"
      "TSS64_Table (on_core f t) = TSS64_Table t" for f and t :: "'a sched_state_scheme"
    by (simp_all add: msrs_def on_core_def)
  have "get_current s = im_init_task ?im" using assms(15) by (simp add: boot_ready_def Let_def)
  then have aligned: "im_init_task ?im AND 32767 = 0" using current_aligned [of s] by simp
  have "msrs ?u 0x176 = im_system_call ?im" "msrs ?u 0x175 = im_init_task ?im + STACK_SIZE"
    using facts assms(17) by (simp_all only: same)
  from user_task_run [OF this aligned assms(18), of label con]
  obtain s' where s': "user_task ?im str label ?u = Some (Inr s')" "rip (core s') = label" "rsp (core s') = rsp (core ?u)"
    "map_sum id screen_of (show_events (drop (length (trace ?u)) (trace s')) con) =
      Inr (put_string 0x07 program_output (screen_of con))"
    "get_current (enter_kernel str label ?u) = im_init_task ?im"
    "IDT_Table s' = IDT_Table ?u" "TSS64_Table s' = TSS64_Table ?u" "cs (core s') = 0x2b"
    by blast
  show ?thesis
  proof (rule that [OF s2(1) _ s'(2)])
    show "rsp (core s') = 0xa00000" "cs (core s') = 0x2b" "load_tss (TSS64_Table s') 1 = tsk + 32768"
      using facts by (simp_all only: s'(3,7,8) same on_core_simps(1))
    show "\<forall>v. 0x20 \<le> v \<and> v \<le> 0x37 \<longrightarrow> IDT_Table s' v = gate_words 0x8E 0 (env_stub env (ucast v))"
      using facts unfolding s'(6) same by blast
  qed (use facts s'(1,4,5) in \<open>simp only: Let_def same on_core_simps(1) simp_thms\<close>)
qed

subsection \<open>Properties\<close>

text \<open>C27: The user program, from its first instruction to its endless loop: with the registers of sysenter as
  task_init leaves them, it shows its message, its greeting through the kernel and its second message with
  the result 0, and goes on behind its system call with its own stack and segments. In the kernel it runs on
  the stack of the boot task: current is that task, whichever task made the call.\<close>

theorem user_program_says_hello:
  assumes "msrs s 0x176 = im_system_call im" "msrs s 0x175 = boot + STACK_SIZE" "boot AND 32767 = 0"
    and "in_gigabyte str 15"
  shows "\<exists>s'. user_task im str ret s = Some (Inr s') \<and>
    map_sum id screen_of (show_events (drop (length (trace s)) (trace s')) con) =
      Inr (put_string 0x07 program_output (screen_of con)) \<and>
    rip (core s') = ret \<and> rsp (core s') = rsp (core s) \<and> segs (core s') = segs (core s) \<and>
    get_current (enter_kernel str ret s) = boot"
  using user_task_run [OF assms] by blast

text \<open>The machine of the launch with the two registers as task_init writes them.\<close>

theorem user_program_says_hello_witness:
  "let s = launched\<lparr>trace := [Wrmsr 0x175 0xffff8000 0x48000, Wrmsr 0x176 0xffff8000 0x2001100]\<rparr>;
       con = \<lparr>cmem = (\<lambda>_. 0), cur_x = 0, cur_y = 0\<rparr>
   in \<exists>s'. user_task sample_image 0x9fff00 0x800040 s = Some (Inr s') \<and>
     map_sum id screen_of (show_events (drop (length (trace s)) (trace s')) con) =
       Inr (put_string 0x07 program_output (screen_of con)) \<and>
     rip (core s') = 0x800040 \<and> get_current (enter_kernel 0x9fff00 0x800040 s) = 0xffff800000040000"
proof -
  let ?s = "launched\<lparr>trace := [Wrmsr 0x175 0xffff8000 0x48000, Wrmsr 0x176 0xffff8000 0x2001100]\<rparr>"
  let ?con = "\<lparr>cmem = (\<lambda>_. 0), cur_x = 0, cur_y = 0\<rparr>"
  have 1: "msrs ?s 0x176 = im_system_call sample_image"
    by (simp add: msrs_def sample_image_def push_bit_eq_mult)
  have 2: "msrs ?s 0x175 = 0xffff800000040000 + STACK_SIZE" by (simp add: msrs_def STACK_SIZE_def push_bit_eq_mult)
  have 3: "(0xffff800000040000 :: u64) AND 32767 = 0" by simp
  have 4: "in_gigabyte 0x9fff00 15" by (simp add: in_gigabyte_def VIR2PHY_def KERNEL_VIRADDR_def)
  show ?thesis
    using user_program_says_hello [OF 1 2 3 4, of "0x800040" ?con] by (auto simp: Let_def)
qed

end
