(* ===== verification/Echo.thy ===== *)
theory Echo
  imports User
begin

text \<open>
  Interrupts while the user program runs: what the processor does at a gate of the IDT with the stack of the task
  state segment, the stub of \<^verbatim>\<open>irq.c\<close>, the C code of \<^verbatim>\<open>do_IRQ\<close>, and the way back through \<^verbatim>\<open>ret_from_intr\<close>. Each
  leaves the program as it was; a key shows its character and the message of do_IRQ. This composes the
  gates, the task switch, the entry code, the dispatch and the keyboard driver.
\<close>

subsection \<open>One interrupt\<close>

text \<open>The processor at an interrupt gate: a stack of the task state segment if the gate asks for one or if the
  level changes, else the interrupted one, aligned; the interrupted context on it; level 0 with a null stack
  segment and interrupts off.\<close>

definition processor_interrupt :: "u32 \<Rightarrow> 'a sched_state_scheme \<Rightarrow> 'a sched_state_scheme" where
  "processor_interrupt v s =
     (let g = IDT_Table s v; c = core s;
          base = (if gate_ist g \<noteq> 0 then load_tss (TSS64_Table s) (7 + 2 * unat (gate_ist g))
                  else if cs c AND 3 \<noteq> gate_selector g AND 3 then load_tss (TSS64_Table s) 1 else rsp c) AND NOT 15
      in s\<lparr>core := (deliver base c)\<lparr>rip := gate_offset g, cs := gate_selector g, ss := 0,
             rflags := rflags c AND NOT 0x200\<rparr>\<rparr>)"

text \<open>Where the frame of an interrupt of the user program begins: rsp0, aligned as the processor does it.\<close>

definition kernel_stack :: "'a sched_state_scheme \<Rightarrow> u64" where
  "kernel_stack s = load_tss (TSS64_Table s) 1 AND NOT 15"

text \<open>The whole service. \<open>stub v\<close> is the address of the stub of vector \<open>v\<close>, \<open>ret\<close> that of ret_from_intr, \<open>code\<close>
  what the compiled do_IRQ does to the processor and its stack; \<open>None\<close> is a gate that leads elsewhere.\<close>

definition serve_interrupt ::
    "(u64 \<Rightarrow> u64) \<Rightarrow> u64 \<Rightarrow> (cpu \<Rightarrow> cpu) \<Rightarrow> u32 \<Rightarrow> 'a sched_state_scheme \<Rightarrow> 'a sched_state_scheme option" where
  "serve_interrupt stub ret code v s =
     (if 0x20 \<le> v \<and> v \<le> 0x37 \<and> gate_offset (IDT_Table s v) = stub (ucast v) then
        let s = on_core (run (irq_stubs ret ! (unat v - 32))) (processor_interrupt v s);
            s = do_IRQ (gpr (core s) RDI) (gpr (core s) RSI) s;
            s = on_core code s
        in Some (on_core (\<lambda>c. run ret_from_intr (run [Ret] c)) s)
      else None)"

text \<open>A C function on the stack: it returns with the stack pointer that it was called with, and of the memory it
  changes at most the \<open>k\<close> words below its return address; the registers are its own to use.\<close>

definition c_code :: "nat \<Rightarrow> (cpu \<Rightarrow> cpu) \<Rightarrow> bool" where
  "c_code k f \<longleftrightarrow> (\<forall>c. rsp (f c) = rsp c \<and>
     (\<forall>x. \<not> in_block (rsp c - 8 * of_nat k) k x \<longrightarrow> slots (f c) x = slots c x))"

lemma below_block:
  assumes "in_block b n x" "k + n < 2 ^ 60"
  shows "in_block (b - 8 * of_nat k) (k + n) x" "\<not> in_block (b - 8 * of_nat k) k x"
proof -
  have k: "unat (8 * of_nat k :: u64) = 8 * k" using unat_of_nat_u64 [of "8 * k"] assms(2) by simp
  have "unat (x - b + 8 * of_nat k) = unat (x - b) + 8 * k"
    using assms by (subst unat_plus) (simp_all add: in_block_def k)
  moreover have "x - (b - 8 * of_nat k) = x - b + 8 * of_nat k" by (simp only: diff_diff_eq2 diff_add_eq)
  ultimately show "in_block (b - 8 * of_nat k) (k + n) x" "\<not> in_block (b - 8 * of_nat k) k x"
    using assms(1) by (simp_all only: in_block_def) auto
qed

lemma in_block_mono: "in_block a k x \<Longrightarrow> k \<le> n \<Longrightarrow> in_block a n x"
  by (auto simp: in_block_def)

text \<open>The stub pushes what it is given; what the processor has put into the other registers does not matter.\<close>

lemma stub_entry:
  "slots (run (Build_IRQ ret nr) (c\<lparr>rip := a, cs := x, ss := y, rflags := f\<rparr>)) = slots (run (Build_IRQ ret nr) c)"
  "gpr (run (Build_IRQ ret nr) (c\<lparr>rip := a, cs := x, ss := y, rflags := f\<rparr>)) = gpr (run (Build_IRQ ret nr) c)"
  "rsp (run (Build_IRQ ret nr) (c\<lparr>rip := a, cs := x, ss := y, rflags := f\<rparr>)) = rsp (run (Build_IRQ ret nr) c)"
  by (simp_all add: Build_IRQ_def SAVE_ALL_REGS_def run_simps)

lemma exit_slots: "slots (run ret_from_intr (run [Ret] c)) = slots c"
  unfolding ret_from_intr_def run_append run_restore by (simp add: run_simps)

lemma stub_writes:
  "\<not> in_block (base - 200) 25 x \<Longrightarrow> slots (run (Build_IRQ ret nr) (deliver base c)) x = slots c x"
proof -
  assume x: "\<not> in_block (base - 200) 25 x"
  have "x \<noteq> base - 200 + 8 * of_nat i" if "i < 25" for i
  proof
    assume "x = base - 200 + 8 * of_nat i"
    then have "x - (base - 200) = of_nat (8 * i)" by simp
    moreover have "unat (of_nat (8 * i) :: u64) = 8 * i" using that by (intro unat_of_nat_u64) simp
    ultimately have "unat (x - (base - 200)) = 8 * i" by simp
    then show False using x that by (simp add: in_block_def)
  qed
  from this [of 0] this [of 1] this [of 2] this [of 3] this [of 4] this [of 5] this [of 6] this [of 7] this [of 8]
    this [of 9] this [of 10] this [of 11] this [of 12] this [of 13] this [of 14] this [of 15] this [of 16]
    this [of 17] this [of 18] this [of 19] this [of 20] this [of 21] this [of 22] this [of 23] this [of 24]
  show ?thesis
    by (simp add: Build_IRQ_def SAVE_ALL_REGS_def deliver_def run_simps)
qed

lemma do_IRQ_core: "do_IRQ regs nr (s\<lparr>core := c\<rparr>) = (do_IRQ regs nr s)\<lparr>core := c\<rparr>"
  "core (do_IRQ regs nr s) = core s"
  by (simp_all add: do_IRQ_def keyboard_handler_def parse_keycode_def io_in8_def io_out8_def kinfo_def log_printf_def
      log_err_printf_def emit_def Let_def ata_handler_read_def ata_handler_write_def)

lemma serve_user_interrupt:
  fixes s :: "'a sched_state_scheme"
  assumes "0x20 \<le> v" "v \<le> 0x37" "IDT_Table s v = gate_words 0x8E 0 (stub (ucast v))" "cs (core s) AND 3 = 3"
    and "kernel_stack s = base" "c_code k code" "k \<le> 4071"
  shows "\<exists>m. serve_interrupt stub ret code v s =
      Some ((do_IRQ (base - 192) (ucast v) s)\<lparr>core := (core s)\<lparr>slots := m\<rparr>\<rparr>) \<and>
    (\<forall>x. \<not> in_block (base - 200 - 8 * of_nat k) (k + 25) x \<longrightarrow> m x = slots (core s) x)"
proof -
  let ?c = "core s" and ?nr = "ucast v :: u64"
  let ?d = "(deliver base ?c)\<lparr>rip := stub ?nr, cs := 0x8, ss := 0, rflags := rflags ?c AND NOT 0x200\<rparr>"
  let ?c1 = "run (Build_IRQ ret ?nr) ?d" and ?b = "run (Build_IRQ ret ?nr) (deliver base ?c)"
  have "(0x8E :: u64) < 0x100" by simp
  note parts = gate_parts [OF this]
  have range: "32 \<le> unat v" "unat v < 56" using assms(1,2) by (simp_all add: word_le_nat_alt)
  then have "(of_nat (32 + (unat v - 32)) :: u64) = ?nr" by (simp add: unsigned_ucast_eq)
  then have stub: "irq_stubs ret ! (unat v - 32) = Build_IRQ ret ?nr"
    using irq_stubs_nth [of "unat v - 32" ret] range by simp
  have entered: "processor_interrupt v s = s\<lparr>core := ?d\<rparr>"
    using assms(4)
    by (simp add: processor_interrupt_def Let_def assms(3) parts assms(5) [unfolded kernel_stack_def, simplified])
  define c2 where "c2 = code ?c1"
  let ?c3 = "run ret_from_intr (run [Ret] c2)"
  note same = stub_entry [where c = "deliver base ?c"]
  note frame = irq_entry_frame [of ret ?nr base ?c]
  have served: "serve_interrupt stub ret code v s = Some ((do_IRQ (base - 192) ?nr s)\<lparr>core := ?c3\<rparr>)"
    using assms(1,2)
    by (simp add: serve_interrupt_def Let_def entered stub on_core_def same frame(1,2) do_IRQ_core assms(3) parts c2_def)
  have stack: "rsp c2 = base - 200" "\<not> in_block (base - 200 - 8 * of_nat k) k x \<Longrightarrow> slots c2 x = slots ?b x" for x
    using assms(6) by (simp_all add: c_code_def c2_def same frame(3))
  have above: "\<not> in_block (base - 200 - 8 * of_nat k) k x" if "in_block (base - 200) 25 x" for x
    using below_block(2) [OF that, of k] assms(7) by simp
  have "rsp c2 = rsp ?b" "slots c2 (base - 200) = ret"
    using stack above [of "base - 200"] by (simp_all add: frame(3,4) in_block_def)
  moreover have "read_pt_regs (slots c2) (base - 192) = read_pt_regs (slots ?b) (base - 192)"
  proof (rule read_pt_regs_cong)
    fix x assume "in_block (base - 192) 24 x"
    then have "in_block (base - 200) 25 x" using below_block(1) [of "base - 192" 24 x 1] by simp
    then show "slots c2 x = slots ?b (base - 192 + (x - (base - 192)))" using stack(2) above by simp
  qed
  ultimately have core: "?c3 = ?c\<lparr>slots := slots ?c3\<rparr>" using interrupt_returns [of c2 ret ?nr base ?c] by (simp add: Let_def)
  have "slots ?c3 x = slots ?c x" if x: "\<not> in_block (base - 200 - 8 * of_nat k) (k + 25) x" for x
  proof -
    have "\<not> in_block (base - 200 - 8 * of_nat k) k x" using in_block_mono [of _ k x "k + 25"] x by auto
    moreover have "\<not> in_block (base - 200) 25 x" using below_block(1) [of "base - 200" 25 x k] x assms(7) by auto
    ultimately show ?thesis using stub_writes [of base x ret ?nr ?c] stack(2) unfolding exit_slots by simp
  qed
  then show ?thesis using served core by metis
qed

lemma stack_top_aligned: "t AND 32767 = 0 \<Longrightarrow> (t + 32768) AND NOT 15 = t + 32768" for t :: u64
proof -
  assume t: "t AND 32767 = 0"
  have "(32767 :: u64) = mask 15" by (simp add: mask_eq_exp_minus_1)
  with t have "take_bit 15 t = 0" by (simp add: take_bit_eq_mask)
  then have "unat (take_bit 15 t) = 0" by simp
  then have "unat t mod 32768 = 0" by (simp add: take_bit_eq_mod unat_mod)
  then have "unat t mod 16 = 0" using mod_mod_cancel [of 16 32768 "unat t"] by simp
  then have "(unat t + 32768) mod 16 = 0" by (simp add: mod_add_left_eq [symmetric])
  moreover have "unat (t + 32768) mod 16 = (unat t + 32768) mod 16" by (simp add: unat_word_ariths mod_mod_cancel)
  ultimately have "unat (take_bit 4 (t + 32768)) = 0" by (simp add: take_bit_eq_mod unat_mod)
  then have "(t + 32768) AND mask 4 = 0" by (simp add: take_bit_eq_mask unsigned_eq_0_iff)
  moreover have "(mask 4 :: u64) = 15" by (simp add: mask_eq_exp_minus_1)
  moreover have "(x AND y) OR (x AND NOT y) = x" for x y :: u64 by (rule bit_word_eqI) (auto simp: bit_simps)
  from this [of "t + 32768" 15] have "((t + 32768) AND 15) OR ((t + 32768) AND NOT 15) = t + 32768" .
  ultimately show ?thesis by (simp only: or.left_neutral)
qed

subsection \<open>Keys\<close>

text \<open>What do_IRQ prints for the keyboard's vector, and what a stream of scan codes shows: of each the character,
  if it has one, and this message.\<close>

definition irq_text :: string where
  "irq_text = ''[info] '' @ [newline] @ ''code: 21'' @ [newline]"

fun echo :: "bool \<Rightarrow> bool \<Rightarrow> u8 list \<Rightarrow> u8 list" where
  "echo l r [] = []"
| "echo l r (x # xs) = typed l r [x] @ map char_byte irq_text @
     echo (if x AND 0x7F = 0x2A then x AND 0x80 = 0 else l) (if x AND 0x7F = 0x36 then x AND 0x80 = 0 else r) xs"

fun serve_keys ::
    "(u64 \<Rightarrow> u64) \<Rightarrow> u64 \<Rightarrow> (nat \<Rightarrow> cpu \<Rightarrow> cpu) \<Rightarrow> nat \<Rightarrow> 'a sched_state_scheme \<Rightarrow> 'a sched_state_scheme option" where
  "serve_keys stub ret code 0 s = Some s"
| "serve_keys stub ret code (Suc n) s =
     Option.bind (serve_interrupt stub ret (code n) 0x21 s) (serve_keys stub ret code n)"

lemma key_interrupt:
  fixes s :: "'a kb_state_scheme"
  defines "x \<equiv> ucast (dev s (reads s)) :: u8"
  shows "trace (do_IRQ regs 0x21 s) = trace s @ In8 0x60 x # map char_event (typed (shift_l s \<noteq> 0) (shirt_r s \<noteq> 0) [x]) @
      [Printk WORD_WHITE ''[info] '' [], Printk WORD_WHITE ([newline] @ ''code: %x'' @ [newline]) [0x21], Out8 0x20 0x20]"
    "dev (do_IRQ regs 0x21 s) = dev s" "reads (do_IRQ regs 0x21 s) = Suc (reads s)"
    "shift_l (do_IRQ regs 0x21 s) \<noteq> 0 \<longleftrightarrow> (if x AND 0x7F = 0x2A then x AND 0x80 = 0 else shift_l s \<noteq> 0)"
    "shirt_r (do_IRQ regs 0x21 s) \<noteq> 0 \<longleftrightarrow> (if x AND 0x7F = 0x36 then x AND 0x80 = 0 else shirt_r s \<noteq> 0)"
proof -
  have kept: "shift_l (kinfo fmt args t) = shift_l t" "shirt_r (kinfo fmt args t) = shirt_r t"
    "shift_l (io_out8 p v t) = shift_l t" "shirt_r (io_out8 p v t) = shirt_r t"
    "dev (kinfo fmt args t) = dev t" "reads (kinfo fmt args t) = reads t"
    "dev (io_out8 p v t) = dev t" "reads (io_out8 p v t) = reads t" "trace (io_out8 p v t) = trace t @ [Out8 p v]"
    for fmt args p v and t :: "'a kb_state_scheme"
    by (simp_all add: kinfo_def log_printf_def io_out8_def emit_def)
  have irq: "do_IRQ regs 0x21 s =
      io_out8 0x20 0x20 (kinfo ([newline] @ ''code: %x'' @ [newline]) [0x21] (keyboard_handler 0x21 regs s))"
    by (simp add: do_IRQ_def)
  note step = keyboard_handler_step [of "0x21" regs s, folded x_def]
  show "trace (do_IRQ regs 0x21 s) = trace s @ In8 0x60 x # map char_event (typed (shift_l s \<noteq> 0) (shirt_r s \<noteq> 0) [x]) @
      [Printk WORD_WHITE ''[info] '' [], Printk WORD_WHITE ([newline] @ ''code: %x'' @ [newline]) [0x21], Out8 0x20 0x20]"
    unfolding irq kept(9) message_trace step by simp
  show "dev (do_IRQ regs 0x21 s) = dev s" "reads (do_IRQ regs 0x21 s) = Suc (reads s)"
    unfolding irq kept step by (rule refl)+
  show "shift_l (do_IRQ regs 0x21 s) \<noteq> 0 \<longleftrightarrow> (if x AND 0x7F = 0x2A then x AND 0x80 = 0 else shift_l s \<noteq> 0)"
    "shirt_r (do_IRQ regs 0x21 s) \<noteq> 0 \<longleftrightarrow> (if x AND 0x7F = 0x36 then x AND 0x80 = 0 else shirt_r s \<noteq> 0)"
    unfolding irq kept step by (rule refl)+
qed

lemma scan_codes_next:
  "dev t = dev s \<Longrightarrow> reads t = Suc (reads s) \<Longrightarrow> scan_codes s (Suc n) = ucast (dev s (reads s)) # scan_codes t n"
  by (simp add: scan_codes_def upt_conv_Cons map_Suc_upt [symmetric] comp_def del: upt_Suc)

lemma key_interrupt_tables:
  "IDT_Table (do_IRQ regs nr s) = IDT_Table s" "TSS64_Table (do_IRQ regs nr s) = TSS64_Table s"
  by (simp_all add: do_IRQ_def keyboard_handler_def parse_keycode_def io_in8_def io_out8_def kinfo_def log_printf_def
      log_err_printf_def emit_def Let_def ata_handler_read_def ata_handler_write_def)

lemma code_message:
  "vsprintf ([newline] @ ''code: %x'' @ [newline]) [0x21] m =
    Inr \<lparr>vout = [newline] @ ''code: 21'' @ [newline], vargs = [], vmem = m\<rparr>"
  by code_simp

lemma shows_key: "k \<noteq> 0 \<Longrightarrow> shows_text (char_event k) [byte_char k]"
  using show_char [of k] char_byte_zero [of "byte_char k"]
  by (simp add: shows_text_def char_byte_byte_char put_string_def)

lemma shows_code:
  "shows_text (Printk WORD_WHITE ([newline] @ ''code: %x'' @ [newline]) [0x21]) ([newline] @ ''code: 21'' @ [newline])"
  unfolding shows_text_def show_printf
  by (intro conjI allI print_result [OF code_message]) (simp_all add: newline_def)

lemma shows_port: "shows_text (Out8 p v) []" "shows_text (In8 p v) []"
  by (simp_all add: shows_text_def put_string_def)

lemma key_shown:
  assumes "list_all (\<lambda>k. k \<noteq> 0) ks"
  shows "map_sum id screen_of (show_events (In8 0x60 x # map char_event ks @
      [Printk WORD_WHITE ''[info] '' [], Printk WORD_WHITE ([newline] @ ''code: %x'' @ [newline]) [0x21], Out8 0x20 0x20]) con) =
    Inr (put_string 0x07 (ks @ map char_byte irq_text) (screen_of con))"
proof -
  have keys: "list_all2 shows_text (map char_event ks) (map (\<lambda>k. [byte_char k]) ks)"
    using assms shows_key by (simp add: list_all2_map1 list_all2_map2 list_all2_same list_all_iff)
  have "shows_text (Printk WORD_WHITE ''[info] '' []) ''[info] ''" by (rule shows_plain) (simp_all add: plain_text_def)
  then have "list_all2 shows_text
      (In8 0x60 x # map char_event ks @
        [Printk WORD_WHITE ''[info] '' [], Printk WORD_WHITE ([newline] @ ''code: %x'' @ [newline]) [0x21], Out8 0x20 0x20])
      ([] # map (\<lambda>k. [byte_char k]) ks @ [''[info] '', [newline] @ ''code: 21'' @ [newline], []])"
    using shows_port shows_code by (intro list.rel_intros list_all2_appendI keys)
  from show_texts [OF this, of con] show ?thesis
    by (simp add: irq_text_def comp_def char_byte_byte_char)
qed

lemma keys_served:
  fixes s :: "'a sched_state_scheme"
  assumes "IDT_Table s 0x21 = gate_words 0x8E 0 (stub 0x21)" "cs (core s) AND 3 = 3"
    and "\<forall>i. c_code k (code i)" "k \<le> 4071"
  shows "\<exists>t es m. serve_keys stub ret code n s = Some t \<and> core t = (core s)\<lparr>slots := m\<rparr> \<and>
    (\<forall>x. \<not> in_block (kernel_stack s - 200 - 8 * of_nat k) (k + 25) x \<longrightarrow> m x = slots (core s) x) \<and> trace t = trace s @ es \<and>
    (\<forall>con. map_sum id screen_of (show_events es con) =
      Inr (put_string 0x07 (echo (shift_l s \<noteq> 0) (shirt_r s \<noteq> 0) (scan_codes s n)) (screen_of con)))"
  using assms
proof (induction n arbitrary: s)
  case 0
  show ?case by (intro exI [of _ s] exI [of _ "[]"] exI [of _ "slots (core s)"]) (simp add: scan_codes_def put_string_def)
next
  case (Suc n)
  let ?x = "ucast (dev s (reads s)) :: u8" and ?base = "kernel_stack s"
  let ?ks = "typed (shift_l s \<noteq> 0) (shirt_r s \<noteq> 0) [?x]"
  let ?now = "In8 0x60 ?x # map char_event ?ks @
      [Printk WORD_WHITE ''[info] '' [], Printk WORD_WHITE ([newline] @ ''code: %x'' @ [newline]) [0x21], Out8 0x20 0x20]"
  have nr: "(ucast (0x21 :: u32) :: u64) = 0x21" and gate: "IDT_Table s 0x21 = gate_words 0x8E 0 (stub (ucast (0x21 :: u32)))"
    using Suc.prems(1) by simp_all
  obtain m1 where first: "serve_interrupt stub ret (code n) 0x21 s =
      Some ((do_IRQ (?base - 192) 0x21 s)\<lparr>core := (core s)\<lparr>slots := m1\<rparr>\<rparr>)"
      and m1: "\<forall>x. \<not> in_block (?base - 200 - 8 * of_nat k) (k + 25) x \<longrightarrow> m1 x = slots (core s) x"
    using serve_user_interrupt [where v = "0x21" and s = s and stub = stub and base = ?base and ret = ret
        and code = "code n", OF _ _ gate Suc.prems(2) refl Suc.prems(3) [rule_format] Suc.prems(4)]
    unfolding nr by auto
  let ?s = "(do_IRQ (?base - 192) 0x21 s)\<lparr>core := (core s)\<lparr>slots := m1\<rparr>\<rparr>"
  note key = key_interrupt [of "?base - 192" s]
  have codes: "scan_codes s (Suc n) = ?x # scan_codes ?s n"
    by (rule scan_codes_next) (use key(2,3) in simp_all)
  have "IDT_Table ?s 0x21 = gate_words 0x8E 0 (stub 0x21)" "cs (core ?s) AND 3 = 3" "kernel_stack ?s = ?base"
    using Suc.prems by (simp_all add: key_interrupt_tables kernel_stack_def)
  from Suc.IH [OF this(1,2) Suc.prems(3,4), unfolded this(3)] obtain t es m where
    rest: "serve_keys stub ret code n ?s = Some t" "core t = (core ?s)\<lparr>slots := m\<rparr>"
    "\<forall>x. \<not> in_block (?base - 200 - 8 * of_nat k) (k + 25) x \<longrightarrow> m x = slots (core ?s) x" "trace t = trace ?s @ es"
    "\<forall>con. map_sum id screen_of (show_events es con) =
      Inr (put_string 0x07 (echo (shift_l ?s \<noteq> 0) (shirt_r ?s \<noteq> 0) (scan_codes ?s n)) (screen_of con))"
    by blast
  have "map_sum id screen_of (show_events (?now @ es) con) =
      Inr (put_string 0x07 (echo (shift_l s \<noteq> 0) (shirt_r s \<noteq> 0) (scan_codes s (Suc n))) (screen_of con))" for con
  proof -
    have printed: "list_all (\<lambda>k. k \<noteq> 0) (?ks @ map char_byte irq_text)"
      using typed_nonzero [of _ _ "[?x]"] by (simp add: irq_text_def newline_def char_byte_def del: typed.simps)
    obtain con' where con': "show_events ?now con = Inr con'"
      "screen_of con' = put_string 0x07 (?ks @ map char_byte irq_text) (screen_of con)"
      using key_shown [OF typed_nonzero, of ?x "shift_l s \<noteq> 0" "shirt_r s \<noteq> 0" "[?x]" con]
      by (cases "show_events ?now con") (auto simp del: typed.simps)
    have "echo (shift_l s \<noteq> 0) (shirt_r s \<noteq> 0) (scan_codes s (Suc n)) =
        (?ks @ map char_byte irq_text) @ echo (shift_l ?s \<noteq> 0) (shirt_r ?s \<noteq> 0) (scan_codes ?s n)"
      unfolding codes using key(4,5) by (simp del: typed.simps)
    then show ?thesis
      using rest(5) [rule_format, of con'] con'
      by (simp only: show_events_append sum.case put_string_append [OF printed])
  qed
  moreover have "trace t = trace s @ ?now @ es" unfolding rest(4) using key(1) by (simp del: typed.simps)
  moreover have "serve_keys stub ret code (Suc n) s = Some t" using first rest(1) by simp
  moreover have "core t = (core s)\<lparr>slots := m\<rparr>" using rest(2) by simp
  moreover have "\<forall>x. \<not> in_block (?base - 200 - 8 * of_nat k) (k + 25) x \<longrightarrow> m x = slots (core s) x" using rest(3) m1 by simp
  ultimately show ?case by blast
qed

lemma keys_after:
  fixes s :: "'a sched_state_scheme"
  assumes "IDT_Table s 0x21 = gate_words 0x8E 0 (stub 0x21)" "cs (core s) AND 3 = 3"
    and "\<forall>i. c_code k (code i)" "k \<le> 4071"
  shows "\<exists>t m. serve_keys stub ret code n s = Some t \<and> core t = (core s)\<lparr>slots := m\<rparr> \<and>
    (\<forall>x. \<not> in_block (kernel_stack s - 200 - 8 * of_nat k) (k + 25) x \<longrightarrow> m x = slots (core s) x) \<and>
    (\<forall>con. map_sum id screen_of (show_events (drop (length (trace s)) (trace t)) con) =
      Inr (put_string 0x07 (echo (shift_l s \<noteq> 0) (shirt_r s \<noteq> 0) (scan_codes s n)) (screen_of con)))"
proof -
  from keys_served [where s = s and stub = stub, OF assms, of ret n] obtain t es m where
    t: "serve_keys stub ret code n s = Some t" "core t = (core s)\<lparr>slots := m\<rparr>"
    "\<forall>x. \<not> in_block (kernel_stack s - 200 - 8 * of_nat k) (k + 25) x \<longrightarrow> m x = slots (core s) x" "trace t = trace s @ es"
    "\<forall>con. map_sum id screen_of (show_events es con) =
      Inr (put_string 0x07 (echo (shift_l s \<noteq> 0) (shirt_r s \<noteq> 0) (scan_codes s n)) (screen_of con))"
    by blast
  have "drop (length (trace s)) (trace t) = es" using t(4) by simp
  then show ?thesis using t(1-3,5) by (intro exI [of _ t] exI [of _ m]) simp
qed

subsection \<open>Properties\<close>

text \<open>C6: The keyboard while the user program runs: at the interrupt gate 0x21 that leads to its stub, n keys in a row
  are each taken from the program on the kernel stack of the task state segment, served and returned from. The
  screen then shows for every scan code the character that the driver prints, if any, and the message of
  do_IRQ; all registers of the program, its segments and stack pointer included, are as they were. The compiled
  C code may use all registers and, as any function, up to k words of the stack below its return address, as many
  as 32 kilobytes hold; then only the 25 words of the frame and these k below them have changed on the stack.\<close>

theorem keys_echo_in_user_mode:
  fixes s :: "'a sched_state_scheme"
  assumes "IDT_Table s 0x21 = gate_words 0x8E 0 (stub 0x21)" "cs (core s) AND 3 = 3"
    and "\<forall>i. c_code k (code i)" "k \<le> 4071"
  shows "\<exists>t m. serve_keys stub ret code n s = Some t \<and> core t = (core s)\<lparr>slots := m\<rparr> \<and>
    (\<forall>x. \<not> in_block (kernel_stack s - 200 - 8 * of_nat k) (k + 25) x \<longrightarrow> m x = slots (core s) x) \<and>
    (\<forall>con. map_sum id screen_of (show_events (drop (length (trace s)) (trace t)) con) =
      Inr (put_string 0x07 (echo (shift_l s \<noteq> 0) (shirt_r s \<noteq> 0) (scan_codes s n)) (screen_of con)))"
  by (rule keys_after [where s = s and stub = stub, OF assms])

text \<open>Two keys at the machine of the launch, with C code that overwrites all registers and three words of the
  stack: the device answers 0x40 to every read, which is no letter.\<close>

definition sample_code :: "cpu \<Rightarrow> cpu" where
  "sample_code c = c\<lparr>gpr := (\<lambda>_. 7), slots := (\<lambda>x. if in_block (rsp c - 24) 3 x then 9 else slots c x)\<rparr>"

theorem keys_echo_in_user_mode_witness:
  "let s = launched\<lparr>IDT_Table := (\<lambda>_. gate_words 0x8E 0 0xffff800000101000), core := (core launched)\<lparr>cs := 0x2b\<rparr>\<rparr>
   in \<exists>t m. serve_keys (\<lambda>_. 0xffff800000101000) 0x1234 (\<lambda>_. sample_code) 2 s = Some t \<and>
     core t = (core s)\<lparr>slots := m\<rparr>"
proof -
  let ?s = "launched\<lparr>IDT_Table := (\<lambda>_. gate_words 0x8E 0 0xffff800000101000), core := (core launched)\<lparr>cs := 0x2b\<rparr>\<rparr>"
  have "IDT_Table ?s 0x21 = gate_words 0x8E 0 ((\<lambda>_. 0xffff800000101000) (0x21 :: u64))" "cs (core ?s) AND 3 = 3"
    by simp_all
  moreover have "\<forall>i::nat. c_code 3 ((\<lambda>_. sample_code) i)" by (simp add: c_code_def sample_code_def)
  ultimately show ?thesis
    using keys_echo_in_user_mode [where s = ?s and stub = "\<lambda>_. 0xffff800000101000" and k = 3
        and code = "\<lambda>_. sample_code" and ret = "0x1234" and n = 2]
    unfolding Let_def by auto
qed

text \<open>C2: From the boot loader's information to the greeting on the screen, in one run, on a machine whose map begins
  with 72 free frames at address 0 (as on a PC): kernel_start returns switched to the first task, whose 32
  kilobytes lie where the page structure before the table says (alloc_pages returns pages_struct - 1 here),
  provided that these are aligned and apart from the boot task. The task's thread starts init, which leaves
  the kernel at 0x800000 with the stack 0xa00000, where the 1024 bytes of user_level_function are as the boot
  loader has loaded them. The program shows its two messages and, by the system call, its greeting, and the
  call runs on the boot task's stack, so that current is the boot task and not the one that called. It then
  loops, and any number of keys is served through the gates and the stack that the start has set up: whatever the C
  code does with the registers and with at most k words of the stack below its return address, the registers of the
  program come back, only the 25 words of the frame and these k words have changed, and the screen shows the
  keys and the messages of do_IRQ. The disk answers, the map and the kernel's place are as the assumptions say.\<close>

theorem loader_to_greeting:
  fixes s :: "'a sched_state_scheme"
  assumes "magic = MULTIBOOT2_BOOTLOADER_MAGIC" "info AND 7 = 0"
    and "holds (mapped (ram s)) (info + 8) (info_bytes tags)" "list_all tag_ok tags"
    and "unat (info + 8) + length (info_bytes tags) < 2 ^ 64" "last_map tags = Some es"
    and "map_ok (placed (env_linker env) (gmdsc (fold take_tag tags s)))"
    and "unat (sym_start_kernel (env_linker env)) < 2 ^ 43"
    and "unat (end_of_struct (placed (env_linker env) (gmdsc (fold take_tag tags s)))) < 2 ^ 43"
    and "kernel_range (env_linker env) (gmdsc (fold take_tag tags s)) \<subseteq> usable_frames es"
    and "responsive s" "low_memory_free es (kernel_range (env_linker env) (gmdsc (fold take_tag tags s)))"
    and "tsk = PHY2VIR (phy_addr (pages s (- 1)))" "tsk AND 32767 = 0"
    and "boot_ready (env_image env) (env_regs env) tsk s" "program_safe env"
    and "peek (thread_rsp0 (peek (task_thread (get_current s)) s)) s = im_init_task (env_image env) + STACK_SIZE"
    and "in_gigabyte str 15"
  shows "\<exists>s2 s'. kernel_start env magic info s = Some (Switched s2) \<and>
    (let s3 = on_core (run (kernel_thread_func ret)) s2; s4 = init (env_image env) (gpr (core s3) RDI) s3;
         u = on_core (run ret_system_call) s4
     in rip (core s3) = im_init (env_image env) \<and> get_current s3 = tsk \<and>
        rip (core s4) = im_ret_system_call (env_image env) \<and> rip (core u) = 0x800000 \<and> rsp (core u) = 0xa00000 \<and>
        load_bytes (mapped (ram u)) 0x800000 1024 =
          load_bytes (mapped (ram s)) (im_user_level_function (env_image env)) 1024 \<and>
        user_task (env_image env) str label u = Some (Inr s') \<and>
        map_sum id screen_of (show_events (drop (length (trace u)) (trace s')) con) =
          Inr (put_string 0x07 program_output (screen_of con)) \<and>
        get_current (enter_kernel str label u) = im_init_task (env_image env)) \<and>
    rip (core s') = label \<and> rsp (core s') = 0xa00000 \<and>
    (\<forall>code k n. (\<forall>i. c_code k (code i)) \<and> k \<le> 4071 \<longrightarrow>
      (\<exists>t m. serve_keys (env_stub env) irq_ret code n s' = Some t \<and> core t = (core s')\<lparr>slots := m\<rparr> \<and>
       (\<forall>x. \<not> in_block (tsk + 32768 - 200 - 8 * of_nat k) (k + 25) x \<longrightarrow> m x = slots (core s') x) \<and>
       (\<forall>con. map_sum id screen_of (show_events (drop (length (trace s')) (trace t)) con) =
         Inr (put_string 0x07 (echo (shift_l s' \<noteq> 0) (shirt_r s' \<noteq> 0) (scan_codes s' n)) (screen_of con)))))"
proof -
  obtain s2 s' where s2: "kernel_start env magic info s = Some (Switched s2)"
    and run: "let s3 = on_core (run (kernel_thread_func ret)) s2; s4 = init (env_image env) (gpr (core s3) RDI) s3;
         u = on_core (run ret_system_call) s4
     in rip (core s3) = im_init (env_image env) \<and> get_current s3 = tsk \<and>
        rip (core s4) = im_ret_system_call (env_image env) \<and> rip (core u) = 0x800000 \<and> rsp (core u) = 0xa00000 \<and>
        load_bytes (mapped (ram u)) 0x800000 1024 =
          load_bytes (mapped (ram s)) (im_user_level_function (env_image env)) 1024 \<and>
        user_task (env_image env) str label u = Some (Inr s') \<and>
        map_sum id screen_of (show_events (drop (length (trace u)) (trace s')) con) =
          Inr (put_string 0x07 program_output (screen_of con)) \<and>
        get_current (enter_kernel str label u) = im_init_task (env_image env)"
    and user: "rip (core s') = label" "rsp (core s') = 0xa00000" "cs (core s') = 0x2b"
    and tables: "\<forall>v. 0x20 \<le> v \<and> v \<le> 0x37 \<longrightarrow> IDT_Table s' v = gate_words 0x8E 0 (env_stub env (ucast v))"
      "load_tss (TSS64_Table s') 1 = tsk + 32768"
    by (rule launch_greets [OF assms])
  have gate: "IDT_Table s' 0x21 = gate_words 0x8E 0 (env_stub env 0x21)" "cs (core s') AND 3 = 3"
    using tables(1) [rule_format, of "0x21"] user(3) by simp_all
  have "kernel_stack s' = tsk + 32768" unfolding kernel_stack_def tables(2) by (rule stack_top_aligned [OF assms(14)])
  note keys = keys_after [where s = s' and stub = "env_stub env" and ret = irq_ret, OF gate, unfolded this]
  have "\<forall>code k n. (\<forall>i. c_code k (code i)) \<and> k \<le> 4071 \<longrightarrow>
      (\<exists>t m. serve_keys (env_stub env) irq_ret code n s' = Some t \<and> core t = (core s')\<lparr>slots := m\<rparr> \<and>
       (\<forall>x. \<not> in_block (tsk + 32768 - 200 - 8 * of_nat k) (k + 25) x \<longrightarrow> m x = slots (core s') x) \<and>
       (\<forall>con. map_sum id screen_of (show_events (drop (length (trace s')) (trace t)) con) =
         Inr (put_string 0x07 (echo (shift_l s' \<noteq> 0) (shirt_r s' \<noteq> 0) (scan_codes s' n)) (screen_of con))))"
    using keys by (intro allI impI, elim conjE) assumption
  with s2 run user(1,2) show ?thesis by (intro exI [of _ s2] exI [of _ s'] conjI) assumption+
qed

lemma launched_stack:
  "peek (thread_rsp0 (peek (task_thread (get_current launched)) launched)) launched = im_init_task sample_image + STACK_SIZE"
proof -
  have "core launched = core sample_tasks" by (simp add: launched_def)
  then have at: "get_current launched = 0xffff800002110000" "peek a launched = peek a sample_tasks" for a
    using sample_current(1) by (simp_all add: get_current_def peek_def)
  have "peek (task_thread 0xffff800002110000) sample_tasks = 0xffff800002100000"
    by (simp add: sample_tasks_def INIT_TASK_def Let_def field_defs sample_image_def)
  moreover have "peek (thread_rsp0 0xffff800002100000) sample_tasks = im_init_task sample_image + STACK_SIZE"
    by (simp add: sample_tasks_def INIT_TASK_def init_thread_def Let_def field_defs sample_image_def STACK_SIZE_def)
  ultimately show ?thesis by (simp only: at)
qed

theorem loader_to_greeting_witness:
  "\<exists>s2 s'. kernel_start small_env 0x36d76289 0x10000 launched = Some (Switched s2) \<and>
    (let s3 = on_core (run (kernel_thread_func 0x1234)) s2; s4 = init sample_image (gpr (core s3) RDI) s3;
         u = on_core (run ret_system_call) s4; con = \<lparr>cmem = (\<lambda>_. 0), cur_x = 0, cur_y = 0\<rparr>
     in get_current s3 = 0xffff800000000000 \<and> rip (core u) = 0x800000 \<and>
        user_task sample_image 0x9fff00 0x800040 u = Some (Inr s') \<and>
        map_sum id screen_of (show_events (drop (length (trace u)) (trace s')) con) =
          Inr (put_string 0x07 program_output (screen_of con))) \<and>
    rsp (core s') = 0xa00000 \<and>
    (\<forall>n. \<exists>t m. serve_keys (env_stub small_env) 0x5678 (\<lambda>_. sample_code) n s' = Some t \<and>
      core t = (core s')\<lparr>slots := m\<rparr>)"
proof -
  have len: "length (info_bytes small_tags) = 48" by (simp add: info_bytes_def small_tags_def)
  have 1: "0x36d76289 = MULTIBOOT2_BOOTLOADER_MAGIC" by (simp add: MULTIBOOT2_BOOTLOADER_MAGIC_def)
  have 2: "(0x10000 :: u64) AND 7 = 0" by simp
  have g: "in_gigabyte (0x10000 + 8) 48" "VIR2PHY 0x10008 = 0x10008"
    by (simp_all add: in_gigabyte_def VIR2PHY_def KERNEL_VIRADDR_def)
  have 3: "holds (mapped (ram launched)) (0x10000 + 8) (info_bytes small_tags)"
    using load_store_bytes [of "info_bytes small_tags" "\<lambda>_. 0" "0x10008"] len mapped_bytes [OF g(1), of "ram launched"]
    by (simp add: holds_def launched_def g(2))
  have 4: "list_all tag_ok small_tags" "last_map small_tags = Some [\<lparr>e820_addr = 0, e820_len = 0x100000, e820_type = 1\<rparr>]"
    by (simp_all add: small_tags_def)
  have 5: "unat ((0x10000 :: u64) + 8) + length (info_bytes small_tags) < 2 ^ 64" by (simp add: len)
  have env: "env_linker small_env = small_linker" "env_image small_env = sample_image" "env_regs small_env = 0xffff800002117e00"
    by (simp_all add: small_env_def)
  have tasks: "dev sample_tasks = (\<lambda>_. 0x40)"
    by (simp add: sample_tasks_def INIT_TASK_def init_thread_def Let_def poke_def zero_slots_eq) (simp add: blank_tasks_def)
  have 6: "responsive launched" by (auto simp: responsive_def launched_def tasks)
  have map: "gmdsc (fold take_tag small_tags launched) = small_map"
    using loaded_map take_tags_descriptor [of launched loaded small_tags] by (simp add: launched_def loaded_def)
  note fits = small_map_ok small_kernel_inside [unfolded small_entries]
  have 7: "unat (sym_start_kernel small_linker) < 2 ^ 43" "unat (end_of_struct (placed small_linker small_map)) < 2 ^ 43"
    by (simp_all add: small_places)
  have 8: "low_memory_free [\<lparr>e820_addr = 0, e820_len = 0x100000, e820_type = 1\<rparr>] (kernel_range small_linker small_map)"
    unfolding low_memory_free_def small_kernel_range using small_usable small_range
    by (auto simp: word_le_nat_alt word_less_nat_alt)
  have 9: "0xffff800000000000 = PHY2VIR (phy_addr (pages launched (- 1)))"
    by (simp add: launched_def zero_page_def PHY2VIR_def KERNEL_VIRADDR_def)
  have 10: "(0xffff800000000000 :: u64) AND 32767 = 0" by simp
  have 11: "program_safe small_env"
    by (simp add: program_safe_def Let_def small_env_def sample_image_def in_gigabyte_def forward_safe_def
        bytes_apart_def VIR2PHY_def KERNEL_VIRADDR_def)
  have 13: "in_gigabyte 0x9fff00 15" by (simp add: in_gigabyte_def VIR2PHY_def KERNEL_VIRADDR_def)
  from loader_to_greeting [OF 1 2 3 4(1) 5 4(2) _ _ _ _ 6 _ 9 10 _ 11 _ 13, unfolded env map,
      OF fits(1) 7 fits(2) 8 launched_ready launched_stack, of "0x1234" "0x800040" "\<lparr>cmem = (\<lambda>_. 0), cur_x = 0, cur_y = 0\<rparr>" "0x5678"]
  obtain s2 s' where run: "kernel_start small_env 0x36d76289 0x10000 launched = Some (Switched s2)"
    and clauses: "let s3 = on_core (run (kernel_thread_func 0x1234)) s2; s4 = init sample_image (gpr (core s3) RDI) s3;
         u = on_core (run ret_system_call) s4; con = \<lparr>cmem = (\<lambda>_. 0), cur_x = 0, cur_y = 0\<rparr>
     in get_current s3 = 0xffff800000000000 \<and> rip (core u) = 0x800000 \<and>
        user_task sample_image 0x9fff00 0x800040 u = Some (Inr s') \<and>
        map_sum id screen_of (show_events (drop (length (trace u)) (trace s')) con) =
          Inr (put_string 0x07 program_output (screen_of con))"
    and top: "rsp (core s') = 0xa00000"
    and keys: "\<forall>code k n. (\<forall>i. c_code k (code i)) \<and> k \<le> 4071 \<longrightarrow>
      (\<exists>t m. serve_keys (env_stub small_env) 0x5678 code n s' = Some t \<and> core t = (core s')\<lparr>slots := m\<rparr> \<and>
       (\<forall>x. \<not> in_block (0xffff800000000000 + 32768 - 200 - 8 * of_nat k) (k + 25) x \<longrightarrow> m x = slots (core s') x) \<and>
       (\<forall>con. map_sum id screen_of (show_events (drop (length (trace s')) (trace t)) con) =
         Inr (put_string 0x07 (echo (shift_l s' \<noteq> 0) (shirt_r s' \<noteq> 0) (scan_codes s' n)) (screen_of con))))"
    unfolding Let_def by (elim exE conjE) (rule that, assumption, unfold Let_def, intro conjI, assumption+)
  have "c_code 3 sample_code" by (simp add: c_code_def sample_code_def)
  with keys have "\<forall>n. \<exists>t m. serve_keys (env_stub small_env) 0x5678 (\<lambda>_. sample_code) n s' = Some t \<and>
      core t = (core s')\<lparr>slots := m\<rparr>"
    by (drule_tac x = "\<lambda>_. sample_code" in spec) (drule_tac x = 3 in spec, simp, blast)
  with run clauses top show ?thesis by (intro exI [of _ s2] exI [of _ s'] conjI) assumption+
qed

end
